(* ===== verification/Prelude.thy ===== *)
theory Prelude
  imports Main "HOL-Library.Signed_Division"
begin

text \<open>
  What the components share: the collections of rewrite rules the component
  proofs use, the errno values and the C conversions of the program, arithmetic on
  indices that wrap around once, and lemmas on lists that are updated in place.
\<close>

named_theorems queue_simps \<open>equations of the event queue operations over its contents\<close>
named_theorems registry_simps \<open>equations of the handle registry\<close>
named_theorems dispatch_simps \<open>equations of the dispatching operations\<close>

section \<open>C integers\<close>

text \<open>
  A C \<open>int\<close> is an \<open>int\<close> of HOL together with the range in which the arithmetic of
  the program stays; the remainder of C truncates towards zero, which is \<open>smod\<close> of
  the library.
\<close>

definition INT32_MAX :: int where
  "INT32_MAX = 2147483647"

definition INT32_MIN :: int where
  "INT32_MIN = -2147483648"

definition int32_range :: "int \<Rightarrow> bool" where
  "int32_range x \<longleftrightarrow> INT32_MIN \<le> x \<and> x \<le> INT32_MAX"

text \<open>The conversion of a wider integer to \<open>int\<close>, as the platform's compiler defines it.\<close>

definition to_int32 :: "int \<Rightarrow> int" where
  "to_int32 x = (x + 2147483648) mod 4294967296 - 2147483648"

text \<open>The conversion to \<open>uint32_t\<close>.\<close>

definition to_uint32 :: "int \<Rightarrow> int" where
  "to_uint32 x = x mod 4294967296"

lemma to_int32_range: "int32_range (to_int32 x)"
proof -
  have "0 \<le> (x + 2147483648) mod 4294967296" "(x + 2147483648) mod 4294967296 < 4294967296"
    by simp_all
  then show ?thesis
    unfolding int32_range_def to_int32_def INT32_MIN_def INT32_MAX_def by linarith
qed

lemma to_int32_id: "int32_range x \<Longrightarrow> to_int32 x = x"
  by (simp add: int32_range_def to_int32_def INT32_MIN_def INT32_MAX_def)

lemma to_int32_eq_iff: "to_int32 x = x \<longleftrightarrow> int32_range x"
  using to_int32_range [of x] to_int32_id [of x] by auto

definition EINVAL :: int where
  "EINVAL = 22"

definition c_bool :: "bool \<Rightarrow> int" where
  "c_bool b = (if b then 1 else 0)"

lemma c_bool_eq_0 [simp]: "c_bool b = 0 \<longleftrightarrow> \<not> b"
  by (simp add: c_bool_def)

section \<open>Indices that wrap around once\<close>

lemma smod_eq_mod: "0 \<le> a \<Longrightarrow> 0 < b \<Longrightarrow> a smod b = a mod (b::int)"
  by (cases "a = 0") (simp_all add: smod_int_alt_def)

lemma mod_wrap_once:
  fixes a c :: int
  assumes "0 \<le> a" and "a < 2 * c"
  shows "a mod c = (if a < c then a else a - c)"
proof (cases "a < c")
  case True
  with assms show ?thesis by simp
next
  case False
  have "a mod c = (a - c) mod c" by simp
  also have "\<dots> = a - c" using assms False by (intro mod_pos_pos_trivial) auto
  finally show ?thesis using False by simp
qed

lemma smod_wrap_once:
  "0 \<le> a \<Longrightarrow> a < 2 * c \<Longrightarrow> a smod c = (if a < c then a else a - c)" for a c :: int
  by (cases "0 < c") (simp_all add: smod_eq_mod mod_wrap_once)

lemma div_add_one:
  fixes a n :: int
  assumes "0 < n"
  shows "(a + 1) div n = a div n + (if (a + 1) mod n = 0 then 1 else 0)"
proof (cases "(a + 1) mod n = 0")
  case True
  then have "a = n * ((a + 1) div n - 1) + (n - 1)"
    using mult_div_mod_eq [of n "a + 1"] by (simp add: right_diff_distrib)
  from int_div_pos_eq [OF this] True assms show ?thesis by simp
next
  case False
  then have "0 < (a + 1) mod n" using pos_mod_sign [OF assms, of "a + 1"] by linarith
  moreover have "a = n * ((a + 1) div n) + ((a + 1) mod n - 1)"
    using mult_div_mod_eq [of n "a + 1"] by linarith
  ultimately show ?thesis
    using int_div_pos_eq [of a n _ "(a + 1) mod n - 1"] False assms pos_mod_bound [OF assms, of "a + 1"]
    by simp
qed

section \<open>Lists updated by index\<close>

lemma map_upt_Suc: "map f [0..<Suc n] = f 0 # map (\<lambda>i. f (Suc i)) [0..<n]"
  by (induction n) simp_all

lemma map_upt_append: "map f [0..<n + m] = map f [0..<n] @ map (\<lambda>i. f (n + i)) [0..<m]"
  by (induction m) simp_all

lemma list_update_nth_eq: "i < length xs \<Longrightarrow> xs[i := x] ! i = x"
  by simp

end
