(* ===== verification/EventQueue.thy ===== *)
theory EventQueue
  imports Prelude
begin

text \<open>
  The fixed-size circular queue of \<open>sensors/SensorEventQueue.cpp\<close>: one writer fills a
  contiguous region of the array that the queue hands out, the reader takes the oldest
  record. The first part translates the class; the second relates the array to the list
  of readable records, states the interface that the multihal relies on as a locale and
  interprets it on the class.
\<close>

section \<open>The class\<close>

text \<open>
  A pointer into \<open>mData\<close> is an index; the null pointer is \<open>None\<close>. The condition
  variable has no state of its own: \<open>dequeue\<close> returns whether it broadcasts.
\<close>

record 'e event_queue =
  mCapacity :: int
  mStart :: int
  mSize :: int
  mData :: "'e list"

text \<open>\<open>new sensors_event_t[mCapacity]\<close> leaves the records as the allocator gave them.\<close>

definition SensorEventQueue :: "(nat \<Rightarrow> 'e) \<Rightarrow> int \<Rightarrow> 'e event_queue" where
  "SensorEventQueue heap capacity =
     \<lparr>mCapacity = capacity, mStart = 0, mSize = 0, mData = map heap [0..<nat capacity]\<rparr>"

text \<open>The two indices \<open>getWritableRegion\<close> computes before it clips the region.\<close>

definition firstWritable :: "'e event_queue \<Rightarrow> int" where
  "firstWritable q = (mStart q + mSize q) smod mCapacity q"

definition lastWritable :: "'e event_queue \<Rightarrow> int \<Rightarrow> int" where
  "lastWritable q requestedLength =
     (let first = firstWritable q;
          last0 = first + requestedLength - 1;
          last1 = (if last0 > mCapacity q - 1 then mCapacity q - 1 else last0)
      in if first < mStart q \<and> last1 \<ge> mStart q then mStart q - 1 else last1)"

definition getWritableRegion :: "'e event_queue \<Rightarrow> int \<Rightarrow> int \<times> int option" where
  "getWritableRegion q requestedLength =
     (if mSize q = mCapacity q \<or> requestedLength \<le> 0 then (0, None)
      else (lastWritable q requestedLength - firstWritable q + 1, Some (firstWritable q)))"

definition markAsWritten :: "int \<Rightarrow> 'e event_queue \<Rightarrow> 'e event_queue" where
  "markAsWritten count q = q\<lparr>mSize := mSize q + count\<rparr>"

definition getSize :: "'e event_queue \<Rightarrow> int" where
  "getSize q = mSize q"

definition peek :: "'e event_queue \<Rightarrow> 'e option" where
  "peek q = (if mSize q = 0 then None else Some (mData q ! nat (mStart q)))"

definition dequeue :: "'e event_queue \<Rightarrow> 'e event_queue \<times> bool" where
  "dequeue q =
     (if mSize q = 0 then (q, False)
      else (q\<lparr>mSize := mSize q - 1, mStart := (mStart q + 1) smod mCapacity q\<rparr>,
            mSize q = mCapacity q))"

text \<open>The guard of the loop of \<open>waitForSpace\<close>: while it holds, the caller sleeps.\<close>

definition waitForSpace_blocks :: "'e event_queue \<Rightarrow> bool" where
  "waitForSpace_blocks q \<longleftrightarrow> mSize q = mCapacity q"

text \<open>A store through a pointer into \<open>mData\<close>, as a device's \<open>poll\<close> makes it.\<close>

definition store :: "int \<Rightarrow> 'e \<Rightarrow> 'e event_queue \<Rightarrow> 'e event_queue" where
  "store i e q = q\<lparr>mData := (mData q)[nat i := e]\<rparr>"

fun store_all :: "int \<Rightarrow> 'e list \<Rightarrow> 'e event_queue \<Rightarrow> 'e event_queue" where
  "store_all i [] q = q"
| "store_all i (e # es) q = store_all (i + 1) es (store i e q)"

section \<open>The readable records as a list\<close>

definition queue_inv :: "'e event_queue \<Rightarrow> bool" where
  "queue_inv q \<longleftrightarrow>
     0 < mCapacity q \<and> length (mData q) = nat (mCapacity q) \<and>
     0 \<le> mStart q \<and> mStart q < mCapacity q \<and> 0 \<le> mSize q \<and> mSize q \<le> mCapacity q"

text \<open>The position of the \<open>i\<close>-th record after the start, around the end of the array.\<close>

definition slot :: "'e event_queue \<Rightarrow> int \<Rightarrow> int" where
  "slot q i = (mStart q + i) mod mCapacity q"

definition contents :: "'e event_queue \<Rightarrow> 'e list" where
  "contents q = map (\<lambda>i. mData q ! nat (slot q (int i))) [0..<nat (mSize q)]"

text \<open>The pieces of the invariant, for the arithmetic of the proofs below.\<close>

lemma queue_invD:
  assumes "queue_inv q"
  shows "0 < mCapacity q" "length (mData q) = nat (mCapacity q)" "0 \<le> mStart q"
    "mStart q < mCapacity q" "0 \<le> mSize q" "mSize q \<le> mCapacity q"
  using assms by (simp_all add: queue_inv_def)

lemma length_contents: "length (contents q) = nat (mSize q)"
  by (simp add: contents_def)

lemma contents_eq_Nil: "queue_inv q \<Longrightarrow> contents q = [] \<longleftrightarrow> mSize q = 0"
  by (auto simp: contents_def queue_inv_def)

lemma slot_wrap:
  assumes "queue_inv q" "0 \<le> i" "i \<le> mCapacity q"
  shows "slot q i = (if mStart q + i < mCapacity q then mStart q + i
                     else mStart q + i - mCapacity q)"
  using assms queue_invD [OF assms(1)] unfolding slot_def by (intro mod_wrap_once) auto

lemma slot_bounds: "queue_inv q \<Longrightarrow> 0 \<le> slot q i \<and> slot q i < mCapacity q"
  by (simp add: slot_def queue_inv_def)

lemma firstWritable_slot: "queue_inv q \<Longrightarrow> firstWritable q = slot q (mSize q)"
  by (simp add: firstWritable_def slot_def smod_eq_mod queue_inv_def)

lemma contents_nth:
  "queue_inv q \<Longrightarrow> i < nat (mSize q) \<Longrightarrow> contents q ! i = mData q ! nat (slot q (int i))"
  by (simp add: contents_def)

subsection \<open>The writable region\<close>

text \<open>
  The region is the longest run of free records that starts after the last readable one,
  crosses neither the end of the array nor the start of the readable records, and is not
  longer than asked for.
\<close>

definition region_length :: "'e event_queue \<Rightarrow> int \<Rightarrow> int" where
  "region_length q r =
     (if r \<le> 0 then 0
      else min r (min (mCapacity q - firstWritable q) (mCapacity q - mSize q)))"

lemma firstWritable_wrap:
  assumes "queue_inv q"
  shows "firstWritable q = (if mStart q + mSize q < mCapacity q then mStart q + mSize q
                            else mStart q + mSize q - mCapacity q)"
  using assms queue_invD [OF assms] by (simp add: firstWritable_slot slot_wrap)

lemma lastWritable_region:
  assumes "queue_inv q" "mSize q < mCapacity q" "0 < r"
  shows "lastWritable q r = firstWritable q + region_length q r - 1"
  using assms(2,3) queue_invD [OF assms(1)] firstWritable_wrap [OF assms(1)]
  unfolding lastWritable_def region_length_def Let_def by (auto split: if_splits)

lemma getWritableRegion_eq:
  assumes "queue_inv q"
  shows "getWritableRegion q r =
    (if mSize q = mCapacity q \<or> r \<le> 0 then (0, None)
     else (region_length q r, Some (firstWritable q)))"
  using lastWritable_region [OF assms, of r] queue_invD [OF assms]
  by (auto simp: getWritableRegion_def)

lemma fst_getWritableRegion:
  "queue_inv q \<Longrightarrow> fst (getWritableRegion q r) = region_length q r"
  using slot_bounds [of q "mSize q"]
  by (auto simp: getWritableRegion_eq region_length_def firstWritable_slot)

lemma region_length_bounds:
  assumes "queue_inv q"
  shows "0 \<le> region_length q r" "region_length q r \<le> max 0 r"
    "region_length q r \<le> mCapacity q - mSize q"
    "firstWritable q + region_length q r \<le> mCapacity q"
  using queue_invD [OF assms] slot_bounds [OF assms, of "mSize q"]
  by (auto simp: region_length_def firstWritable_slot [OF assms])

lemma region_length_pos:
  "queue_inv q \<Longrightarrow> 0 < r \<Longrightarrow> 0 < region_length q r \<longleftrightarrow> mSize q < mCapacity q"
  using slot_bounds [of q "mSize q"] by (auto simp: region_length_def firstWritable_slot)

lemma region_slot:
  assumes "queue_inv q" "0 \<le> k" "k < region_length q r"
  shows "slot q (mSize q + k) = firstWritable q + k"
proof -
  note b = region_length_bounds [OF assms(1), of r] queue_invD [OF assms(1)]
  have "slot q (mSize q + k) = (if mStart q + (mSize q + k) < mCapacity q
      then mStart q + (mSize q + k) else mStart q + (mSize q + k) - mCapacity q)"
    using assms b by (intro slot_wrap) auto
  with b assms(2,3) firstWritable_wrap [OF assms(1)] show ?thesis
    by (auto split: if_splits)
qed

text \<open>No record of the region is readable.\<close>

lemma region_not_readable:
  assumes "queue_inv q" "0 \<le> k" "k < region_length q r" "i < nat (mSize q)"
  shows "slot q (int i) \<noteq> firstWritable q + k"
proof -
  note b = region_length_bounds [OF assms(1), of r] queue_invD [OF assms(1)]
  have "slot q (int i) \<noteq> slot q (mSize q + k)"
    using assms b slot_wrap [OF assms(1), of "int i"] slot_wrap [OF assms(1), of "mSize q + k"]
    by (auto split: if_splits)
  with region_slot [OF assms(1-3)] show ?thesis by simp
qed

subsection \<open>The operations over the contents\<close>

lemma queue_inv_SensorEventQueue:
  "0 < capacity \<Longrightarrow> queue_inv (SensorEventQueue heap capacity)"
  by (simp add: queue_inv_def SensorEventQueue_def)

lemma contents_SensorEventQueue [queue_simps]: "contents (SensorEventQueue heap capacity) = []"
  by (simp add: contents_def SensorEventQueue_def)

lemma capacity_SensorEventQueue [queue_simps]:
  "mCapacity (SensorEventQueue heap capacity) = capacity"
  by (simp add: SensorEventQueue_def)

lemma peek_contents [queue_simps]:
  assumes "queue_inv q"
  shows "peek q = (case contents q of [] \<Rightarrow> None | e # _ \<Rightarrow> Some e)"
proof (cases "mSize q = 0")
  case True
  then show ?thesis by (simp add: peek_def contents_def)
next
  case False
  then obtain n where n: "nat (mSize q) = Suc n"
    using queue_invD [OF assms] by (metis nat_eq_iff not0_implies_Suc zero_less_nat_eq
        less_le not_gr_zero)
  have "contents q = mData q ! nat (slot q 0) # map (\<lambda>i. mData q ! nat (slot q (int (Suc i)))) [0..<n]"
    unfolding contents_def n map_upt_Suc by simp
  with False show ?thesis
    using queue_invD [OF assms] by (simp add: peek_def slot_def)
qed

lemma queue_inv_dequeue: "queue_inv q \<Longrightarrow> queue_inv (fst (dequeue q))"
  by (auto simp: dequeue_def queue_inv_def smod_int_compares smod_wrap_once)

lemma capacity_dequeue [queue_simps]: "mCapacity (fst (dequeue q)) = mCapacity q"
  by (simp add: dequeue_def)

lemma size_dequeue [queue_simps]:
  "mSize (fst (dequeue q)) = (if mSize q = 0 then 0 else mSize q - 1)"
  by (simp add: dequeue_def)

lemma data_dequeue [queue_simps]: "mData (fst (dequeue q)) = mData q"
  by (simp add: dequeue_def)

text \<open>Taking a record moves the start, so every later record is one position closer to it.\<close>

lemma slot_dequeue:
  assumes "queue_inv q" "mSize q \<noteq> 0"
  shows "slot (fst (dequeue q)) i = slot q (i + 1)"
proof -
  have "slot (fst (dequeue q)) i = ((mStart q + 1) mod mCapacity q + i) mod mCapacity q"
    using assms queue_invD [OF assms(1)] by (simp add: slot_def dequeue_def smod_eq_mod)
  also have "\<dots> = (mStart q + (i + 1)) mod mCapacity q"
    by (simp add: mod_add_left_eq add.assoc add.commute [of 1 i])
  finally show ?thesis by (simp add: slot_def)
qed

lemma contents_dequeue [queue_simps]:
  assumes "queue_inv q"
  shows "contents (fst (dequeue q)) = tl (contents q)"
proof (cases "mSize q = 0")
  case True
  then show ?thesis by (simp add: contents_def dequeue_def)
next
  case False
  then obtain n where n: "nat (mSize q) = Suc n"
    using queue_invD [OF assms] by (metis nat_eq_iff not0_implies_Suc zero_less_nat_eq
        less_le not_gr_zero)
  then have "nat (mSize q - 1) = n" by simp
  with False n show ?thesis
    unfolding contents_def size_dequeue data_dequeue
    by (simp add: map_upt_Suc slot_dequeue [OF assms False] add.commute del: upt_Suc)
qed

text \<open>The writable region does not move when the reader takes a record.\<close>

lemma firstWritable_dequeue:
  assumes "queue_inv q" "mSize q \<noteq> 0"
  shows "firstWritable (fst (dequeue q)) = firstWritable q"
  using assms slot_dequeue [OF assms, of "mSize q - 1"]
  by (simp add: firstWritable_slot queue_inv_dequeue size_dequeue)

lemma queue_inv_store: "queue_inv q \<Longrightarrow> queue_inv (store i e q)"
  by (simp add: queue_inv_def store_def)

lemma store_fields [simp]:
  "mCapacity (store i e q) = mCapacity q" "mStart (store i e q) = mStart q"
  "mSize (store i e q) = mSize q" "slot (store i e q) = slot q"
  "firstWritable (store i e q) = firstWritable q" "region_length (store i e q) = region_length q"
  by (simp_all add: store_def slot_def firstWritable_def region_length_def fun_eq_iff)

text \<open>A store into the writable region leaves the readable records alone.\<close>

lemma contents_store_region [queue_simps]:
  assumes "queue_inv q" "0 \<le> k" "k < region_length q r"
  shows "contents (store (firstWritable q + k) e q) = contents q"
proof (rule nth_equalityI)
  show "length (contents (store (firstWritable q + k) e q)) = length (contents q)"
    by (simp add: length_contents)
next
  fix i
  assume "i < length (contents (store (firstWritable q + k) e q))"
  then have i: "i < nat (mSize q)" by (simp add: length_contents)
  have "nat (slot q (int i)) \<noteq> nat (firstWritable q + k)"
    using region_not_readable [OF assms i] slot_bounds [OF assms(1)] assms(2)
    by (metis add_nonneg_nonneg eq_nat_nat_iff firstWritable_slot assms(1))
  with i show "contents (store (firstWritable q + k) e q) ! i = contents q ! i"
    by (simp add: contents_nth queue_inv_store assms(1)) (simp add: store_def)
qed

lemma queue_inv_markAsWritten:
  assumes "queue_inv q" "0 \<le> n" "n \<le> region_length q r"
  shows "queue_inv (markAsWritten n q)"
  using assms queue_invD [OF assms(1)] region_length_bounds [OF assms(1), of r]
  by (simp add: queue_inv_def markAsWritten_def)

text \<open>Marking \<open>n\<close> records as written appends what the first \<open>n\<close> records of the region hold.\<close>

definition region_data :: "'e event_queue \<Rightarrow> int \<Rightarrow> 'e list" where
  "region_data q n = map (\<lambda>k. mData q ! nat (firstWritable q + int k)) [0..<nat n]"

lemma contents_markAsWritten [queue_simps]:
  assumes "queue_inv q" "0 \<le> n" "n \<le> region_length q r"
  shows "contents (markAsWritten n q) = contents q @ region_data q n"
proof -
  note d = queue_invD [OF assms(1)]
  have len: "nat (mSize q + n) = nat (mSize q) + nat n"
    using assms d by (simp add: nat_add_distrib)
  have "mData q ! nat (slot q (int (nat (mSize q) + k))) = mData q ! nat (firstWritable q + int k)"
    if "k < nat n" for k
    using that assms d region_slot [OF assms(1), of "int k" r] by simp
  then show ?thesis
    unfolding contents_def markAsWritten_def region_data_def
    by (simp add: len map_upt_append slot_def)
qed

subsection \<open>Writing a block of records\<close>

text \<open>
  One round of the writer: the device stores \<open>es\<close> at the start of the region, and the
  writer marks them as written.
\<close>

definition put :: "'e list \<Rightarrow> 'e event_queue \<Rightarrow> 'e event_queue" where
  "put es q = markAsWritten (int (length es)) (store_all (firstWritable q) es q)"

lemma queue_inv_store_all: "queue_inv q \<Longrightarrow> queue_inv (store_all i es q)"
  by (induction es arbitrary: i q) (simp_all add: queue_inv_store)

lemma store_all_fields [simp]:
  "mCapacity (store_all i es q) = mCapacity q" "mStart (store_all i es q) = mStart q"
  "mSize (store_all i es q) = mSize q" "firstWritable (store_all i es q) = firstWritable q"
  "region_length (store_all i es q) = region_length q"
  by (induction es arbitrary: i q) simp_all

lemma contents_store_all:
  assumes "queue_inv q" "0 \<le> k" "k + int (length es) \<le> region_length q r"
  shows "contents (store_all (firstWritable q + k) es q) = contents q"
  using assms
proof (induction es arbitrary: q k)
  case Nil
  then show ?case by simp
next
  case (Cons e es)
  let ?q = "store (firstWritable q + k) e q"
  have "contents (store_all (firstWritable ?q + (k + 1)) es ?q) = contents ?q"
    using Cons.prems by (intro Cons.IH) (simp_all add: queue_inv_store)
  also have "\<dots> = contents q"
    using Cons.prems by (intro contents_store_region [where r = r]) auto
  finally show ?case by (simp add: add.assoc)
qed

text \<open>Stores do not disturb earlier positions, and the block can be read back.\<close>

lemma store_all_nth_before:
  "0 \<le> i \<Longrightarrow> j < nat i \<Longrightarrow> mData (store_all i es q) ! j = mData q ! j"
proof (induction es arbitrary: i q)
  case Nil
  then show ?case by simp
next
  case (Cons e es)
  then have "j < nat (i + 1)" "j \<noteq> nat i" by auto
  with Cons show ?case by (simp add: store_def)
qed

lemma store_all_read_back:
  assumes "0 \<le> i" "nat i + length es \<le> length (mData q)" "k < length es"
  shows "mData (store_all i es q) ! nat (i + int k) = es ! k"
  using assms
proof (induction es arbitrary: i q k)
  case Nil
  then show ?case by simp
next
  case (Cons e es)
  show ?case
  proof (cases k)
    case 0
    have "mData (store_all (i + 1) es (store i e q)) ! nat i = mData (store i e q) ! nat i"
      using Cons.prems by (intro store_all_nth_before) auto
    with 0 Cons.prems show ?thesis by (simp add: store_def)
  next
    case (Suc k')
    have "mData (store_all (i + 1) es (store i e q)) ! nat (i + 1 + int k') = es ! k'"
      using Cons.prems Suc by (intro Cons.IH) (auto simp: store_def)
    moreover have "i + 1 + int k' = i + int k" using Suc by simp
    ultimately show ?thesis using Suc by simp
  qed
qed

lemma region_data_store_all:
  assumes "queue_inv q" "int (length es) \<le> region_length q r"
  shows "region_data (store_all (firstWritable q) es q) (int (length es)) = es"
proof (rule nth_equalityI)
  fix k
  assume "k < length (region_data (store_all (firstWritable q) es q) (int (length es)))"
  then have k: "k < length es" by (simp add: region_data_def)
  have "nat (firstWritable q) + length es \<le> length (mData q)"
    using assms region_length_bounds [OF assms(1), of r] queue_invD [OF assms(1)] by simp
  then have "mData (store_all (firstWritable q) es q) ! nat (firstWritable q + int k) = es ! k"
    using k slot_bounds [OF assms(1), of "mSize q"]
    by (intro store_all_read_back) (simp_all add: firstWritable_slot assms(1))
  with k show "region_data (store_all (firstWritable q) es q) (int (length es)) ! k = es ! k"
    by (simp add: region_data_def)
qed (simp add: region_data_def)

lemma queue_inv_put:
  assumes "queue_inv q" "int (length es) \<le> region_length q r"
  shows "queue_inv (put es q)"
  unfolding put_def using assms
  by (intro queue_inv_markAsWritten [where r = r]) (simp_all add: queue_inv_store_all)

lemma contents_put [queue_simps]:
  assumes "queue_inv q" "int (length es) \<le> region_length q r"
  shows "contents (put es q) = contents q @ es"
proof -
  have "contents (put es q) = contents (store_all (firstWritable q) es q)
      @ region_data (store_all (firstWritable q) es q) (int (length es))"
    unfolding put_def using assms
    by (intro contents_markAsWritten [where r = r]) (simp_all add: queue_inv_store_all)
  with assms contents_store_all [OF assms(1), of 0 es r] show ?thesis
    by (simp add: region_data_store_all)
qed

lemma capacity_put [queue_simps]: "mCapacity (put es q) = mCapacity q"
  by (simp add: put_def markAsWritten_def)

section \<open>The interface the multihal relies on\<close>

text \<open>
  The multihal never looks into the array: it writes blocks into the region it was
  given, looks at the oldest record and drops it. The laws say that this is a bounded
  first-in first-out queue; the client's lemma is that along any admissible sequence of
  blocks and reads, what was read followed by what is still queued is exactly what was
  queued at first followed by what was written.
\<close>

datatype 'e queue_op = Write "'e list" | Read

fun run_ops :: "('e list \<Rightarrow> 'q \<Rightarrow> 'q) \<Rightarrow> ('q \<Rightarrow> 'e option) \<Rightarrow> ('q \<Rightarrow> 'q) \<Rightarrow>
    'e queue_op list \<Rightarrow> 'q \<Rightarrow> 'e list \<times> 'q" where
  "run_ops wr look drop_one [] q = ([], q)"
| "run_ops wr look drop_one (Write es # ops) q = run_ops wr look drop_one ops (wr es q)"
| "run_ops wr look drop_one (Read # ops) q =
     (let (taken, q') = run_ops wr look drop_one ops (drop_one q)
      in (case look q of None \<Rightarrow> taken | Some e \<Rightarrow> e # taken, q'))"

fun ops_fit :: "('q \<Rightarrow> int) \<Rightarrow> ('e list \<Rightarrow> 'q \<Rightarrow> 'q) \<Rightarrow> ('q \<Rightarrow> 'q) \<Rightarrow>
    'e queue_op list \<Rightarrow> 'q \<Rightarrow> bool" where
  "ops_fit room wr drop_one [] q = True"
| "ops_fit room wr drop_one (Write es # ops) q =
     (int (length es) \<le> room q \<and> ops_fit room wr drop_one ops (wr es q))"
| "ops_fit room wr drop_one (Read # ops) q = ops_fit room wr drop_one ops (drop_one q)"

fun written :: "'e queue_op list \<Rightarrow> 'e list" where
  "written [] = []"
| "written (Write es # ops) = es @ written ops"
| "written (Read # ops) = written ops"

locale fifo =
  fixes inv :: "'q \<Rightarrow> bool"
    and items :: "'q \<Rightarrow> 'e list"
    and limit :: "'q \<Rightarrow> int"
    and room :: "int \<Rightarrow> 'q \<Rightarrow> int"
    and wr :: "'e list \<Rightarrow> 'q \<Rightarrow> 'q"
    and look :: "'q \<Rightarrow> 'e option"
    and drop_one :: "'q \<Rightarrow> 'q"
  assumes look_items: "inv q \<Longrightarrow> look q = (case items q of [] \<Rightarrow> None | e # _ \<Rightarrow> Some e)"
    and items_drop: "inv q \<Longrightarrow> items (drop_one q) = tl (items q)"
    and inv_drop: "inv q \<Longrightarrow> inv (drop_one q)"
    and limit_drop: "inv q \<Longrightarrow> limit (drop_one q) = limit q"
    and items_wr: "inv q \<Longrightarrow> int (length es) \<le> room r q \<Longrightarrow> items (wr es q) = items q @ es"
    and inv_wr: "inv q \<Longrightarrow> int (length es) \<le> room r q \<Longrightarrow> inv (wr es q)"
    and limit_wr: "inv q \<Longrightarrow> int (length es) \<le> room r q \<Longrightarrow> limit (wr es q) = limit q"
    and room_limit: "inv q \<Longrightarrow> int (length (items q)) + room r q \<le> limit q"
    and room_pos: "inv q \<Longrightarrow> 0 < r \<Longrightarrow> int (length (items q)) < limit q \<Longrightarrow> 0 < room r q"
    and room_nonneg: "inv q \<Longrightarrow> 0 \<le> room r q"
begin

lemma history:
  assumes "inv q" "ops_fit (room r) wr drop_one ops q" "run_ops wr look drop_one ops q = (taken, q')"
  shows "taken @ items q' = items q @ written ops"
  using assms
proof (induction ops arbitrary: q taken q' rule: written.induct)
  case 1
  then show ?case by simp
next
  case (2 es ops)
  then show ?case using inv_wr [of q es r] items_wr [of q es r] by simp
next
  case (3 ops)
  obtain rest q'' where rest: "run_ops wr look drop_one ops (drop_one q) = (rest, q'')"
    by fastforce
  from "3.IH" [OF inv_drop, of q rest q''] "3.prems" rest
  have "rest @ items q'' = tl (items q) @ written ops"
    by (simp add: items_drop)
  with 3 rest show ?case by (cases "items q") (auto simp: look_items)
qed

lemma run_inv:
  assumes "inv q" "ops_fit (room r) wr drop_one ops q" "run_ops wr look drop_one ops q = (taken, q')"
  shows "inv q' \<and> limit q' = limit q \<and> int (length (items q')) \<le> limit q"
  using assms
proof (induction ops arbitrary: q taken q' rule: written.induct)
  case 1
  then show ?case using room_limit [of q r] room_nonneg [of q r] by simp
next
  case (2 es ops)
  then show ?case using inv_wr [of q es r] limit_wr [of q es r] by fastforce
next
  case (3 ops)
  obtain rest where "run_ops wr look drop_one ops (drop_one q) = (rest, q')"
    using "3.prems"(3) by (auto split: prod.splits)
  with "3.IH" [OF inv_drop, of q rest q'] "3.prems" show ?case by (simp add: limit_drop)
qed

text \<open>A reader that finds nothing has read everything that was written.\<close>

lemma drained:
  assumes "inv q" "ops_fit (room r) wr drop_one ops q" "run_ops wr look drop_one ops q = (taken, q')"
    and "look q' = None"
  shows "taken = items q @ written ops"
  using history [OF assms(1-3)] run_inv [OF assms(1-3)] assms(4)
  by (auto simp: look_items split: list.splits)

end

text \<open>The class provides the interface, for every length the writer may ask for.\<close>

interpretation seq: fifo queue_inv contents mCapacity
    "\<lambda>r q. fst (getWritableRegion q r)" put peek "\<lambda>q. fst (dequeue q)"
proof (unfold_locales)
  fix q :: "'e event_queue" and r :: int
  assume q: "queue_inv q"
  show "int (length (contents q)) + fst (getWritableRegion q r) \<le> mCapacity q"
    using q region_length_bounds [OF q, of r] queue_invD [OF q]
    by (simp add: fst_getWritableRegion length_contents)
  show "0 \<le> fst (getWritableRegion q r)"
    using q region_length_bounds [OF q, of r] by (simp add: fst_getWritableRegion)
  show "0 < fst (getWritableRegion q r)" if "0 < r" "int (length (contents q)) < mCapacity q"
    using that q queue_invD [OF q]
    by (simp add: fst_getWritableRegion region_length_pos length_contents)
qed (simp_all add: queue_simps queue_inv_dequeue fst_getWritableRegion queue_inv_put)

section \<open>Properties\<close>

text \<open>
  C1. The circular queue is a bounded first-in first-out queue: start from a new queue of
  any positive capacity and let the writer store and mark blocks, each no longer than the
  region it was given for a request of \<open>r\<close>, while the reader peeks and dequeues in any
  interleaving. Then the records that were read, in the order they were read, followed by
  the records still in the queue, are exactly the records that were written, in order:
  nothing is lost, duplicated, reordered or overwritten, and the queue never holds more
  than its capacity.
\<close>

theorem event_queue_is_fifo:
  assumes "0 < capacity"
    and "ops_fit (\<lambda>q. fst (getWritableRegion q r)) put (\<lambda>q. fst (dequeue q)) ops
           (SensorEventQueue heap capacity)"
    and "run_ops put peek (\<lambda>q. fst (dequeue q)) ops (SensorEventQueue heap capacity) = (taken, q)"
  shows "taken @ contents q = written ops \<and> queue_inv q \<and> mCapacity q = capacity \<and>
    int (length (contents q)) \<le> capacity"
proof -
  have new: "queue_inv (SensorEventQueue heap capacity)"
    using assms(1) by (rule queue_inv_SensorEventQueue)
  show ?thesis
    using seq.history [OF new assms(2,3)] seq.run_inv [OF new assms(2,3)]
    by (simp add: queue_simps)
qed

definition demo_ops :: "nat queue_op list" where
  "demo_ops = [Write [1, 2], Read, Write [3], Write [4], Read, Read]"

theorem event_queue_is_fifo_witness:
  "\<exists>q. run_ops put peek (\<lambda>q. fst (dequeue q)) demo_ops (SensorEventQueue id 3) = ([1, 2, 3], q) \<and>
     [1, 2, 3] @ contents q = written demo_ops"
proof -
  have fit: "ops_fit (\<lambda>q. fst (getWritableRegion q 3)) put (\<lambda>q. fst (dequeue q)) demo_ops
      (SensorEventQueue id 3)"
    by code_simp
  obtain taken q where
    run: "run_ops put peek (\<lambda>q. fst (dequeue q)) demo_ops (SensorEventQueue id 3) = (taken, q)"
    by fastforce
  have "taken = fst (run_ops put peek (\<lambda>q. fst (dequeue q)) demo_ops (SensorEventQueue id 3))"
    by (simp add: run)
  also have "\<dots> = [1, 2, 3]" by code_simp
  finally show ?thesis
    using event_queue_is_fifo [OF _ fit run] run by simp
qed

text \<open>
  The C arithmetic of the class stays in the range of \<open>int\<close> for capacities and requests of up to
  \<open>2 ^ 30\<close> (the multihal uses 36).
\<close>

lemma queue_arithmetic_in_range:
  assumes "queue_inv q" "mCapacity q \<le> 2 ^ 30" "0 \<le> r" "r \<le> 2 ^ 30"
  shows "int32_range (mStart q + mSize q) \<and> int32_range (firstWritable q + r - 1) \<and>
    int32_range (mStart q + 1) \<and> int32_range (lastWritable q r - firstWritable q + 1)"
proof (cases "r = 0 \<or> mSize q = mCapacity q")
  case True
  then show ?thesis
    using assms queue_invD [OF assms(1)] slot_bounds [OF assms(1), of "mSize q"]
    by (auto simp: int32_range_def INT32_MIN_def INT32_MAX_def lastWritable_def Let_def
        firstWritable_slot)
next
  case False
  then have "lastWritable q r - firstWritable q + 1 = region_length q r"
    using assms queue_invD(6) [OF assms(1)] by (subst lastWritable_region) auto
  then show ?thesis
    using assms queue_invD [OF assms(1)] slot_bounds [OF assms(1), of "mSize q"]
      region_length_bounds [OF assms(1), of r]
    by (auto simp: int32_range_def INT32_MIN_def INT32_MAX_def firstWritable_slot)
qed

text \<open>
  C2. What \<open>getWritableRegion\<close> promises in its header: it returns no region exactly when
  the queue is full or nothing was asked for; otherwise the region has at least one and at
  most the requested number of records, lies inside the array, contains no readable
  record, and is as long as it can be: it has the requested length, or reaches the end of
  the array, or covers all the free space; marking any part of it as written leaves at most as many
  records as the queue has room for. No sum the class forms overflows an \<open>int\<close> for
  capacities and requests of up to \<open>2 ^ 30\<close> (the multihal uses 36), so the unbounded integers
  of the model compute what the machine computes.
\<close>

theorem writable_region_contract:
  assumes "queue_inv q" "getWritableRegion q r = (n, out)"
  shows "(out = None \<longleftrightarrow> mSize q = mCapacity q \<or> r \<le> 0) \<and> (out = None \<longrightarrow> n = 0) \<and>
    (\<forall>off. out = Some off \<longrightarrow>
       1 \<le> n \<and> n \<le> r \<and> 0 \<le> off \<and> off + n \<le> mCapacity q \<and>
       (\<forall>k i. 0 \<le> k \<and> k < n \<and> i < nat (mSize q) \<longrightarrow> slot q (int i) \<noteq> off + k) \<and>
       (n = r \<or> off + n = mCapacity q \<or> n = mCapacity q - mSize q) \<and>
       (\<forall>count. 0 \<le> count \<and> count \<le> n \<longrightarrow> mSize (markAsWritten count q) \<le> mCapacity q)) \<and>
    (mCapacity q \<le> 2 ^ 30 \<and> 0 \<le> r \<and> r \<le> 2 ^ 30 \<longrightarrow>
       int32_range (mStart q + mSize q) \<and> int32_range (firstWritable q + r - 1) \<and>
       int32_range (mStart q + 1) \<and> int32_range (lastWritable q r - firstWritable q + 1))"
proof (cases "mSize q = mCapacity q \<or> r \<le> 0")
  case True
  with assms queue_arithmetic_in_range [OF assms(1), of r] show ?thesis by (simp add: getWritableRegion_eq)
next
  case False
  then have n: "n = region_length q r" "out = Some (firstWritable q)"
    using assms by (simp_all add: getWritableRegion_eq)
  have "0 < n" using False n assms(1) queue_invD(6) [OF assms(1)] by (simp add: region_length_pos)
  moreover have "n = r \<or> firstWritable q + n = mCapacity q \<or> n = mCapacity q - mSize q"
    using False n by (auto simp: region_length_def)
  ultimately show ?thesis
    using False n region_length_bounds [OF assms(1), of r] slot_bounds [OF assms(1), of "mSize q"]
      region_not_readable [OF assms(1), of _ r] queue_arithmetic_in_range [OF assms(1), of r]
    by (auto simp: firstWritable_slot assms(1) markAsWritten_def)
qed

text \<open>The region of a queue whose free space is split by the end of its array.\<close>

definition demo_queue :: "nat event_queue" where
  "demo_queue = \<lparr>mCapacity = 5, mStart = 2, mSize = 2, mData = [10, 11, 12, 13, 14]\<rparr>"

theorem writable_region_contract_witness:
  "getWritableRegion demo_queue 36 = (1, Some 4) \<and> (4::int) + 1 \<le> mCapacity demo_queue \<and>
     slot demo_queue (int 1) \<noteq> 4 + 0"
proof -
  have q: "queue_inv demo_queue" by code_simp
  have r: "getWritableRegion demo_queue 36 = (1, Some 4)" by code_simp
  from writable_region_contract [OF q r]
  have "4 + 1 \<le> mCapacity demo_queue"
    and free: "\<forall>k i. 0 \<le> k \<and> k < (1::int) \<and> i < nat (mSize demo_queue) \<longrightarrow>
      slot demo_queue (int i) \<noteq> 4 + k"
    by blast+
  moreover have "1 < nat (mSize demo_queue)" by code_simp
  then have "slot demo_queue (int 1) \<noteq> 4 + 0" using free by (metis order_refl zero_less_one)
  ultimately show ?thesis using r by simp
qed

end
