(* ===== verification/Handles.thy ===== *)
theory Handles
  imports Prelude
begin

text \<open>
  The registry of sensor handles of \<open>sensors/multihal.cpp\<close>: a sensor is identified
  inside the multihal by the index of its module and the handle its module gave it, and
  to the callers of the multihal by one global handle. The first part translates the
  struct and its accessors, the second gives the laws of the registry as a locale, proves
  what registering a list of sensors achieves from the laws, and interprets the locale.
\<close>

section \<open>The struct\<close>

datatype full_handle = FullHandle (moduleIndex: int) (localHandle: int)

text \<open>\<open>operator<\<close>, the order the map \<open>full_to_global\<close> is keyed by.\<close>

definition full_handle_less :: "full_handle \<Rightarrow> full_handle \<Rightarrow> bool" where
  "full_handle_less a that =
     (if moduleIndex a < moduleIndex that then True
      else if moduleIndex a > moduleIndex that then False
      else localHandle a < localHandle that)"

text \<open>\<open>operator==\<close>.\<close>

definition full_handle_eq :: "full_handle \<Rightarrow> full_handle \<Rightarrow> bool" where
  "full_handle_eq a that \<longleftrightarrow> moduleIndex a = moduleIndex that \<and> localHandle a = localHandle that"

lemma full_handle_eq_iff: "full_handle_eq a b \<longleftrightarrow> a = b"
  by (cases a; cases b) (simp add: full_handle_eq_def)

text \<open>
  A map keyed by the struct is only a map if the order is a strict linear one whose
  equivalence is equality, which is what the class \<open>linorder\<close> asks for.
\<close>

instantiation full_handle :: linorder
begin

definition less_full_handle :: "full_handle \<Rightarrow> full_handle \<Rightarrow> bool" where
  "less_full_handle a b = full_handle_less a b"

definition less_eq_full_handle :: "full_handle \<Rightarrow> full_handle \<Rightarrow> bool" where
  "less_eq_full_handle a b = (full_handle_less a b \<or> full_handle_eq a b)"

instance
proof
  fix x y z :: full_handle
  show "x < y \<longleftrightarrow> x \<le> y \<and> \<not> y \<le> x" and "x \<le> x" and "x \<le> y \<Longrightarrow> y \<le> x \<Longrightarrow> x = y"
    and "x \<le> y \<Longrightarrow> y \<le> z \<Longrightarrow> x \<le> z" and "x \<le> y \<or> y \<le> x"
    by (cases x; cases y; cases z;
        auto simp: less_full_handle_def less_eq_full_handle_def full_handle_less_def
          full_handle_eq_def split: if_splits)+
qed

end

section \<open>The registry\<close>

record handle_maps =
  global_to_full :: "int \<rightharpoonup> full_handle"
  full_to_global :: "full_handle \<rightharpoonup> int"
  next_global_handle :: int

definition initial_handles :: handle_maps where
  "initial_handles =
     \<lparr>global_to_full = Map.empty, full_to_global = Map.empty, next_global_handle = 1\<rparr>"

definition assign_global_handle :: "int \<Rightarrow> int \<Rightarrow> handle_maps \<Rightarrow> int \<times> handle_maps" where
  "assign_global_handle module_index local_handle s =
     (let global_handle = next_global_handle s;
          full_handle = FullHandle module_index local_handle
      in (global_handle,
          s\<lparr>next_global_handle := next_global_handle s + 1,
            full_to_global := (full_to_global s)(full_handle \<mapsto> global_handle),
            global_to_full := (global_to_full s)(global_handle \<mapsto> full_handle)\<rparr>))"

definition get_local_handle :: "handle_maps \<Rightarrow> int \<Rightarrow> int" where
  "get_local_handle s global_handle =
     (case global_to_full s global_handle of None \<Rightarrow> -1 | Some f \<Rightarrow> localHandle f)"

definition get_module_index :: "handle_maps \<Rightarrow> int \<Rightarrow> int" where
  "get_module_index s global_handle =
     (case global_to_full s global_handle of None \<Rightarrow> -1 | Some f \<Rightarrow> moduleIndex f)"

definition get_global_handle :: "handle_maps \<Rightarrow> full_handle \<Rightarrow> int" where
  "get_global_handle s full_handle =
     (case full_to_global s full_handle of None \<Rightarrow> -1 | Some g \<Rightarrow> g)"

section \<open>The invariant\<close>

text \<open>
  The global handles given out are \<open>1, 2, \<dots>\<close>; both maps talk about the same handles,
  and the second always points at a handle the first knows.
\<close>

definition handles_inv :: "handle_maps \<Rightarrow> bool" where
  "handles_inv s \<longleftrightarrow>
     1 \<le> next_global_handle s \<and>
     dom (global_to_full s) = {1..<next_global_handle s} \<and>
     dom (full_to_global s) = ran (global_to_full s) \<and>
     (\<forall>f g. full_to_global s f = Some g \<longrightarrow> global_to_full s g = Some f)"

lemma handles_inv_initial: "handles_inv initial_handles"
  by (simp add: handles_inv_def initial_handles_def)

lemma handles_inv_fresh: "handles_inv s \<Longrightarrow> global_to_full s (next_global_handle s) = None"
  by (auto simp: handles_inv_def dom_def set_eq_iff)

lemma assign_fields [registry_simps]:
  "fst (assign_global_handle m l s) = next_global_handle s"
  "next_global_handle (snd (assign_global_handle m l s)) = next_global_handle s + 1"
  "global_to_full (snd (assign_global_handle m l s)) =
     (global_to_full s)(next_global_handle s \<mapsto> FullHandle m l)"
  "full_to_global (snd (assign_global_handle m l s)) =
     (full_to_global s)(FullHandle m l \<mapsto> next_global_handle s)"
  by (simp_all add: assign_global_handle_def Let_def)

lemma handles_inv_assign:
  assumes "handles_inv s"
  shows "handles_inv (snd (assign_global_handle m l s))"
proof -
  note fresh = handles_inv_fresh [OF assms]
  have "ran ((global_to_full s)(next_global_handle s \<mapsto> FullHandle m l)) =
      insert (FullHandle m l) (ran (global_to_full s))"
    using fresh by (simp add: ran_map_upd)
  with assms fresh show ?thesis
    by (auto simp: handles_inv_def registry_simps)
qed

lemma handles_inv_backD:
  "handles_inv s \<Longrightarrow> full_to_global s f = Some g \<Longrightarrow> global_to_full s g = Some f"
  by (simp add: handles_inv_def)

lemma handles_inv_known:
  assumes "handles_inv s"
  shows "global_to_full s g \<noteq> None \<longleftrightarrow> 1 \<le> g \<and> g < next_global_handle s"
proof -
  have "g \<in> dom (global_to_full s) \<longleftrightarrow> g \<in> {1..<next_global_handle s}"
    using assms by (simp add: handles_inv_def)
  then show ?thesis by (simp add: domIff)
qed

text \<open>No handle is ever \<open>-1\<close>, the answer for an unknown sensor.\<close>

lemma get_global_handle_unknown:
  assumes "handles_inv s"
  shows "get_global_handle s f = -1 \<longleftrightarrow> (\<forall>g. global_to_full s g \<noteq> Some f)"
proof (cases "full_to_global s f")
  case None
  then have "f \<notin> ran (global_to_full s)"
    using assms by (auto simp: handles_inv_def)
  with None show ?thesis by (auto simp: get_global_handle_def ran_def)
next
  case (Some g)
  then have "global_to_full s g = Some f" by (rule handles_inv_backD [OF assms])
  moreover from this have "1 \<le> g" using handles_inv_known [OF assms, of g] by simp
  ultimately show ?thesis using Some by (auto simp: get_global_handle_def)
qed

section \<open>What the multihal relies on\<close>

text \<open>
  Registering the sensors of all modules is one pass of \<open>assign\<close> over the pairs of module
  index and local handle, in the order of the global list.
\<close>

fun assign_all :: "(int \<Rightarrow> int \<Rightarrow> 's \<Rightarrow> int \<times> 's) \<Rightarrow> (int \<times> int) list \<Rightarrow> 's \<Rightarrow> int list \<times> 's" where
  "assign_all assign [] s = ([], s)"
| "assign_all assign ((m, l) # ps) s =
     (let (g, s') = assign m l s; (gs, s'') = assign_all assign ps s' in (g # gs, s''))"

locale handle_registry =
  fixes inv :: "'s \<Rightarrow> bool"
    and owner :: "'s \<Rightarrow> int \<Rightarrow> full_handle option"
    and global_of :: "'s \<Rightarrow> full_handle \<Rightarrow> int"
    and next_of :: "'s \<Rightarrow> int"
    and assign :: "int \<Rightarrow> int \<Rightarrow> 's \<Rightarrow> int \<times> 's"
  assumes inv_assign: "inv s \<Longrightarrow> inv (snd (assign m l s))"
    and assign_next: "fst (assign m l s) = next_of s"
    and next_assign: "next_of (snd (assign m l s)) = next_of s + 1"
    and owner_assign:
      "owner (snd (assign m l s)) g = (if g = next_of s then Some (FullHandle m l) else owner s g)"
    and global_assign:
      "global_of (snd (assign m l s)) f = (if f = FullHandle m l then next_of s else global_of s f)"
    and owner_known: "inv s \<Longrightarrow> owner s g \<noteq> None \<longleftrightarrow> 1 \<le> g \<and> g < next_of s"
    and global_unknown: "inv s \<Longrightarrow> global_of s f = -1 \<longleftrightarrow> (\<forall>g. owner s g \<noteq> Some f)"
begin

lemma all_Cons:
  "fst (assign_all assign ((m, l) # ps) s) =
     next_of s # fst (assign_all assign ps (snd (assign m l s)))"
  "snd (assign_all assign ((m, l) # ps) s) = snd (assign_all assign ps (snd (assign m l s)))"
  using assign_next [of m l s] by (auto split: prod.splits)

lemma all_inv: "inv s \<Longrightarrow> inv (snd (assign_all assign ps s))"
proof (induction ps arbitrary: s)
  case (Cons p ps)
  obtain m l where "p = (m, l)" by fastforce
  with Cons show ?case by (simp only: all_Cons inv_assign)
qed simp

lemma all_next: "next_of (snd (assign_all assign ps s)) = next_of s + int (length ps)"
proof (induction ps arbitrary: s)
  case (Cons p ps)
  obtain m l where "p = (m, l)" by fastforce
  with Cons [of "snd (assign m l s)"] show ?case by (simp only: all_Cons next_assign) simp
qed simp

lemma all_handles:
  "fst (assign_all assign ps s) = map (\<lambda>i. next_of s + int i) [0..<length ps]"
proof (induction ps arbitrary: s)
  case (Cons p ps)
  obtain m l where "p = (m, l)" by fastforce
  then show ?case
    using Cons [of "snd (assign m l s)"]
    by (simp only: all_Cons next_assign length_Cons map_upt_Suc) simp
qed simp

lemma all_owner_old: "g < next_of s \<Longrightarrow> owner (snd (assign_all assign ps s)) g = owner s g"
proof (induction ps arbitrary: s)
  case (Cons p ps)
  obtain m l where "p = (m, l)" by fastforce
  with Cons.IH [of "snd (assign m l s)"] Cons.prems show ?case
    by (simp only: all_Cons next_assign owner_assign) simp
qed simp

lemma all_owner:
  "i < length ps \<Longrightarrow> owner (snd (assign_all assign ps s)) (next_of s + int i) =
     Some (FullHandle (fst (ps ! i)) (snd (ps ! i)))"
proof (induction ps arbitrary: s i)
  case (Cons p ps)
  obtain m l where p: "p = (m, l)" by fastforce
  show ?case
  proof (cases i)
    case 0
    have "owner (snd (assign_all assign ps (snd (assign m l s)))) (next_of s) =
        owner (snd (assign m l s)) (next_of s)"
      by (intro all_owner_old) (simp add: next_assign)
    with 0 p show ?thesis by (simp only: all_Cons) (simp add: owner_assign)
  next
    case (Suc j)
    with Cons.IH [of j "snd (assign m l s)"] Cons.prems p show ?thesis
      by (simp only: all_Cons next_assign) (simp add: algebra_simps)
  qed
qed simp

lemma all_global_other:
  "(\<And>p. p \<in> set ps \<Longrightarrow> f \<noteq> FullHandle (fst p) (snd p)) \<Longrightarrow>
     global_of (snd (assign_all assign ps s)) f = global_of s f"
proof (induction ps arbitrary: s)
  case (Cons p ps)
  obtain m l where p: "p = (m, l)" by fastforce
  have "f \<noteq> FullHandle m l" using Cons.prems [of p] p by simp
  moreover have "global_of (snd (assign_all assign ps (snd (assign m l s)))) f =
      global_of (snd (assign m l s)) f"
    using Cons.prems by (intro Cons.IH) simp
  ultimately show ?case using p by (simp only: all_Cons global_assign) simp
qed simp

lemma all_global:
  "distinct ps \<Longrightarrow> i < length ps \<Longrightarrow>
     global_of (snd (assign_all assign ps s)) (FullHandle (fst (ps ! i)) (snd (ps ! i))) =
     next_of s + int i"
proof (induction ps arbitrary: s i)
  case (Cons p ps)
  obtain m l where p: "p = (m, l)" by fastforce
  show ?case
  proof (cases i)
    case 0
    have "global_of (snd (assign_all assign ps (snd (assign m l s)))) (FullHandle m l) =
        global_of (snd (assign m l s)) (FullHandle m l)"
      using Cons.prems p by (intro all_global_other) auto
    with 0 p show ?thesis by (simp only: all_Cons) (simp add: global_assign)
  next
    case (Suc j)
    with Cons.IH [of j "snd (assign m l s)"] Cons.prems p show ?thesis
      by (simp only: all_Cons next_assign) (simp add: algebra_simps)
  qed
qed simp

end

interpretation reg: handle_registry handles_inv global_to_full get_global_handle
    next_global_handle assign_global_handle
proof (unfold_locales)
  fix s f m l and g :: int
  show "get_global_handle (snd (assign_global_handle m l s)) f =
      (if f = FullHandle m l then next_global_handle s else get_global_handle s f)"
    by (simp add: get_global_handle_def registry_simps)
  show "global_to_full s g \<noteq> None \<longleftrightarrow> 1 \<le> g \<and> g < next_global_handle s" if "handles_inv s"
    using that by (rule handles_inv_known)
qed (simp_all add: registry_simps handles_inv_assign get_global_handle_unknown)

end
