(* ===== verification/Hal.thy ===== *)
theory Hal
  imports EventQueue Handles
begin

text \<open>
  The data the multihal works on: the constants and structs it takes from the headers of
  the sensor HAL, the global variables of \<open>sensors/multihal.cpp\<close>, the polling context,
  and the environment (the linker, the configuration files, the sub-HALs) as parameters.
\<close>

unbundle bit_operations_syntax

section \<open>The headers\<close>

text \<open>
  The values of these constants are in headers outside the repository; the code only
  uses their names, so they are a parameter of the model.
\<close>

record hal_h =
  SENSOR_TYPE_META_DATA :: int
  SENSOR_TYPE_PROXIMITY :: int
  SENSOR_TYPE_TEMPERATURE :: int
  SENSOR_TYPE_LIGHT :: int
  SENSOR_FLAG_ON_CHANGE_MODE :: nat
  SENSOR_FLAG_WAKE_UP :: nat
  SENSORS_DEVICE_API_VERSION_1_0 :: int
  SENSORS_DEVICE_API_VERSION_1_1 :: int
  SENSORS_DEVICE_API_VERSION_1_2 :: int
  SENSORS_DEVICE_API_VERSION_1_3 :: int
  SENSORS_DEVICE_API_VERSION_1_4 :: int

text \<open>
  The fields of \<open>sensor_t\<close> and \<open>sensors_event_t\<close> the code reads or writes; the rest of
  the struct, which a \<open>memcpy\<close> carries along, is one opaque field. \<open>ev_meta_sensor\<close> is the
  word of the event's union where \<open>meta_data.sensor\<close> lies.
\<close>

record sensor =
  s_handle :: int
  s_type :: int
  s_flags :: nat
  s_minDelay :: int
  s_maxDelay :: int
  s_other :: "nat list"

record sensors_event =
  ev_sensor :: int
  ev_type :: int
  ev_meta_sensor :: int
  ev_other :: "nat list"

text \<open>A module and a device are known by their address; a device also has a version.\<close>

type_synonym hw_module = nat

record hw_device =
  dev_ptr :: nat
  dev_version :: int

section \<open>The state\<close>

record batch_data =
  bd_empty :: bool
  bd_handle :: int
  bd_flags :: int
  bd_period_ns :: int
  bd_timeout :: int

text \<open>The constructor sets one field; the others are as the allocator left them.\<close>

definition batch_data_init :: "batch_data \<Rightarrow> batch_data" where
  "batch_data_init mem = mem\<lparr>bd_empty := True\<rparr>"

text \<open>\<open>period_ns\<close> and \<open>timeout\<close> are parameters of type \<open>int\<close>.\<close>

definition update_batch_data ::
    "int \<Rightarrow> int \<Rightarrow> int \<Rightarrow> int \<Rightarrow> batch_data \<Rightarrow> batch_data" where
  "update_batch_data handle flags period_ns timeout b =
     \<lparr>bd_empty = False, bd_handle = handle, bd_flags = flags,
      bd_period_ns = to_int32 period_ns, bd_timeout = to_int32 timeout\<rparr>"

text \<open>
  The global variables. A null pointer is \<open>None\<close>; \<open>queue_mutex\<close> is whether the mutex is
  held. The two other mutexes are released by the function that takes them, on every
  path that returns.
\<close>

record hal_globals =
  sub_hw_modules :: "hw_module list option"
  sub_hw_versions :: "(hw_module \<rightharpoonup> int) option"
  handles :: handle_maps
  global_sensors_list :: "sensor list option"
  global_sensors_count :: int
  sensors_batch_list :: "batch_data list"
  sensors_enable_state :: "int list"
  queue_mutex :: bool

definition initial_globals :: hal_globals where
  "initial_globals =
     \<lparr>sub_hw_modules = None, sub_hw_versions = None, handles = initial_handles,
      global_sensors_list = None, global_sensors_count = -1, sensors_batch_list = [],
      sensors_enable_state = [], queue_mutex = False\<rparr>"

text \<open>A \<open>TaskContext\<close> names the queue by its index in \<open>queues\<close>.\<close>

record task_context =
  tc_device :: hw_device
  tc_queue :: nat

record poll_context =
  sub_hw_devices :: "hw_device list"
  queues :: "sensors_event event_queue list"
  threads :: "task_context list"
  nextReadIndex :: int

definition SENSOR_EVENT_QUEUE_CAPACITY :: int where
  "SENSOR_EVENT_QUEUE_CAPACITY = 36"

text \<open>
  How a call can end without a result: the exception of a checked access, the use of a
  null pointer, an access outside an array, a mutex that is already held.
\<close>

datatype hal_error = OutOfRange | NullPointer | OutOfBounds int | Deadlock

section \<open>The environment\<close>

text \<open>
  The calls a sub-HAL's device receives. The first address is that of the device whose
  function is called; it is also the \<open>dev\<close> argument of the call, but for
  \<open>InjectSensorData\<close>, whose second address is that argument.
\<close>

datatype dev_call =
    Activate nat int int
  | SetDelay nat int int
  | Batch nat int int int int
  | Flush nat int
  | InjectSensorData nat nat sensors_event
  | CloseDevice nat

type_synonym call_log = "dev_call list"

text \<open>
  What the code asks of its surroundings. \<open>env_get_sensors_list n m\<close> is the answer of
  module \<open>m\<close> to its \<open>n\<close>-th call, \<open>env_open\<close> the result code and the device of a module's
  \<open>open\<close>, \<open>env_call\<close> the result of a device call after the calls made so far;
  \<open>env_dlsym\<close> gives an error, a null symbol or a module.
\<close>

record hal_env =
  env_file :: "string \<Rightarrow> string option"
  env_dlopen :: "string \<Rightarrow> nat option"
  env_dlsym :: "nat \<Rightarrow> string + hw_module option"
  env_get_sensors_list :: "nat \<Rightarrow> hw_module \<Rightarrow> sensor list"
  env_open :: "hw_module \<Rightarrow> string \<Rightarrow> int \<times> hw_device"
  env_call :: "call_log \<Rightarrow> dev_call \<Rightarrow> int"
  env_heap_sensor :: "nat \<Rightarrow> sensor"
  env_heap_batch :: "nat \<Rightarrow> batch_data"
  env_heap_event :: "nat \<Rightarrow> sensors_event"

definition device_call :: "hal_env \<Rightarrow> dev_call \<Rightarrow> call_log \<Rightarrow> int \<times> call_log" where
  "device_call env c io = (env_call env io c, io @ [c])"

end
