(* ===== verification/Multihal.thy ===== *)
theory Multihal
  imports Hal
begin

text \<open>
  Start-up of \<open>sensors/multihal.cpp\<close>: reading the configuration, loading the sub-HALs,
  opening their devices, and building the global list of sensors with the registry of
  handles.
\<close>

unbundle bit_operations_syntax

section \<open>The configuration file\<close>

definition MULTI_HAL_CONFIG_FILE_PATH :: string where
  "MULTI_HAL_CONFIG_FILE_PATH = ''/vendor/etc/sensors/_hals.conf''"

definition DEPRECATED_MULTI_HAL_CONFIG_FILE_PATH :: string where
  "DEPRECATED_MULTI_HAL_CONFIG_FILE_PATH = ''/system/etc/sensors/_hals.conf''"

definition newline :: char where
  "newline = CHR 0x0A"

text \<open>
  The loop over \<open>std::getline\<close>: a line ends at a newline or at the end of the stream, and
  the end of the stream right after a newline is not a line.
\<close>

fun getlines :: "string \<Rightarrow> string list" where
  "getlines text =
     (if text = [] then []
      else takeWhile (\<lambda>c. c \<noteq> newline) text #
             getlines (drop (Suc (length (takeWhile (\<lambda>c. c \<noteq> newline) text))) text))"

declare getlines.simps [simp del]

text \<open>The first file of the list that can be opened, \<open>None\<close> where the loop runs out.\<close>

fun first_config :: "hal_env \<Rightarrow> string list \<Rightarrow> string option" where
  "first_config env [] = None"
| "first_config env (i # is) =
     (case env_file env i of Some text \<Rightarrow> Some text | None \<Rightarrow> first_config env is)"

text \<open>
  Without a file the stream is the default-constructed one, which has no error bit set, so
  \<open>!stream\<close> is false: the early return is not taken, and \<open>strcmp\<close> is called on the null
  \<open>path\<close>.
\<close>

definition get_so_paths :: "hal_env \<Rightarrow> string list \<Rightarrow> hal_error + string list" where
  "get_so_paths env so_paths =
     (case first_config env
        [MULTI_HAL_CONFIG_FILE_PATH, DEPRECATED_MULTI_HAL_CONFIG_FILE_PATH] of
        None \<Rightarrow> Inl NullPointer
      | Some text \<Rightarrow> Inr (so_paths @ getlines text))"

definition starts_with :: "string option \<Rightarrow> string option \<Rightarrow> bool" where
  "starts_with s prefix =
     (case (s, prefix) of
        (Some s', Some p) \<Rightarrow> length s' \<ge> length p \<and> take (length p) s' = p
      | _ \<Rightarrow> False)"

section \<open>Loading the sub-HALs\<close>

fun load_modules :: "hal_env \<Rightarrow> string list \<Rightarrow> hw_module list" where
  "load_modules env [] = []"
| "load_modules env (path # paths) =
     (case env_dlopen env path of
        None \<Rightarrow> load_modules env paths
      | Some lib_handle \<Rightarrow>
          (case env_dlsym env lib_handle of
             Inl error \<Rightarrow> load_modules env paths
           | Inr None \<Rightarrow> load_modules env paths
           | Inr (Some module) \<Rightarrow> module # load_modules env paths))"

definition lazy_init_modules :: "hal_env \<Rightarrow> hal_globals \<Rightarrow> hal_error + hal_globals" where
  "lazy_init_modules env g =
     (case sub_hw_modules g of
        Some _ \<Rightarrow> Inr g
      | None \<Rightarrow>
          (case get_so_paths env [] of
             Inl e \<Rightarrow> Inl e
           | Inr so_paths \<Rightarrow> Inr (g\<lparr>sub_hw_modules := Some (load_modules env so_paths)\<rparr>)))"

section \<open>The global list of sensors\<close>

definition fix_sensor_flags :: "hal_h \<Rightarrow> int \<Rightarrow> sensor \<Rightarrow> sensor" where
  "fix_sensor_flags K version s =
     (if version < SENSORS_DEVICE_API_VERSION_1_3 K then
        (if s_type s = SENSOR_TYPE_PROXIMITY K then
           s\<lparr>s_flags := (s_flags s OR SENSOR_FLAG_ON_CHANGE_MODE K) OR SENSOR_FLAG_WAKE_UP K\<rparr>
         else if s_type s = SENSOR_TYPE_TEMPERATURE K then
           s\<lparr>s_flags := s_flags s OR SENSOR_FLAG_ON_CHANGE_MODE K\<rparr>
         else if s_type s = SENSOR_TYPE_LIGHT K then
           s\<lparr>s_flags := s_flags s OR SENSOR_FLAG_ON_CHANGE_MODE K\<rparr>
         else s)
      else s)"

text \<open>The local variables of the copying loop and the registry it fills.\<close>

record list_build =
  lb_list :: "sensor list"
  lb_index :: nat
  lb_handles :: handle_maps

text \<open>The body of the inner loop, for one sensor of the module.\<close>

definition register_sensor :: "hal_h \<Rightarrow> (hw_module \<rightharpoonup> int) option \<Rightarrow> hw_module \<Rightarrow> int \<Rightarrow>
    sensor \<Rightarrow> list_build \<Rightarrow> hal_error + list_build" where
  "register_sensor K versions m module_index local_sensor b =
     (if \<not> lb_index b < length (lb_list b) then Inl (OutOfBounds (int (lb_index b)))
      else
        let (global_handle, h) =
              assign_global_handle module_index (s_handle local_sensor) (lb_handles b);
            entry = local_sensor\<lparr>s_handle := global_handle\<rparr>
        in case versions of
             None \<Rightarrow> Inl NullPointer
           | Some vs \<Rightarrow>
               (case vs m of
                  None \<Rightarrow> Inl OutOfRange
                | Some version \<Rightarrow>
                    Inr \<lparr>lb_list = (lb_list b)[lb_index b := fix_sensor_flags K version entry],
                         lb_index = Suc (lb_index b), lb_handles = h\<rparr>))"

text \<open>The inner loop, over the sensors of one module.\<close>

fun register_sensors :: "hal_h \<Rightarrow> (hw_module \<rightharpoonup> int) option \<Rightarrow> hw_module \<Rightarrow> int \<Rightarrow>
    sensor list \<Rightarrow> list_build \<Rightarrow> hal_error + list_build" where
  "register_sensors K versions m module_index [] b = Inr b"
| "register_sensors K versions m module_index (s # rest) b =
     (case register_sensor K versions m module_index s b of
        Inl e \<Rightarrow> Inl e
      | Inr b' \<Rightarrow> register_sensors K versions m module_index rest b')"

text \<open>The outer loop, over the modules.\<close>

fun register_modules :: "hal_env \<Rightarrow> hal_h \<Rightarrow> (hw_module \<rightharpoonup> int) option \<Rightarrow> int \<Rightarrow>
    hw_module list \<Rightarrow> list_build \<Rightarrow> hal_error + list_build" where
  "register_modules env K versions module_index [] b = Inr b"
| "register_modules env K versions module_index (m # ms) b =
     (case register_sensors K versions m module_index (env_get_sensors_list env 1 m) b of
        Inl e \<Rightarrow> Inl e
      | Inr b' \<Rightarrow> register_modules env K versions (module_index + 1) ms b')"

definition count_sensors :: "hal_env \<Rightarrow> hw_module list \<Rightarrow> nat" where
  "count_sensors env ms = sum_list (map (\<lambda>m. length (env_get_sensors_list env 0 m)) ms)"

definition lazy_init_sensors_list :: "hal_env \<Rightarrow> hal_h \<Rightarrow> hal_globals \<Rightarrow> hal_error + hal_globals" where
  "lazy_init_sensors_list env K g0 =
     (if global_sensors_list g0 \<noteq> None then Inr g0
      else
        (case lazy_init_modules env g0 of
           Inl e \<Rightarrow> Inl e
         | Inr g \<Rightarrow>
             let ms = (case sub_hw_modules g of Some ms \<Rightarrow> ms | None \<Rightarrow> []);
                 n = count_sensors env ms
             in case register_modules env K (sub_hw_versions g) 0 ms
                       \<lparr>lb_list = map (env_heap_sensor env) [0..<n], lb_index = 0,
                        lb_handles = handles g\<rparr> of
                  Inl e \<Rightarrow> Inl e
                | Inr b \<Rightarrow>
                    Inr (g\<lparr>global_sensors_count := int n,
                           sensors_batch_list :=
                             map (\<lambda>i. batch_data_init (env_heap_batch env i)) [0..<n],
                           sensors_enable_state := replicate n 0,
                           handles := lb_handles b,
                           global_sensors_list := Some (lb_list b),
                           sub_hw_versions := None,
                           queue_mutex := False\<rparr>)))"

definition module__get_sensors_list ::
    "hal_env \<Rightarrow> hal_h \<Rightarrow> hal_globals \<Rightarrow> hal_error + (int \<times> sensor list option) \<times> hal_globals" where
  "module__get_sensors_list env K g =
     (case lazy_init_sensors_list env K g of
        Inl e \<Rightarrow> Inl e
      | Inr g' \<Rightarrow> Inr ((global_sensors_count g', global_sensors_list g'), g'))"

definition module__set_operation_mode :: "int \<Rightarrow> int" where
  "module__set_operation_mode mode = mode"

section \<open>Opening\<close>

text \<open>\<open>apiNumToStr\<close>, for the log.\<close>

definition apiNumToStr :: "hal_h \<Rightarrow> int \<Rightarrow> string" where
  "apiNumToStr K version =
     (if version = SENSORS_DEVICE_API_VERSION_1_0 K then ''SENSORS_DEVICE_API_VERSION_1_0''
      else if version = SENSORS_DEVICE_API_VERSION_1_1 K then ''SENSORS_DEVICE_API_VERSION_1_1''
      else if version = SENSORS_DEVICE_API_VERSION_1_2 K then ''SENSORS_DEVICE_API_VERSION_1_2''
      else if version = SENSORS_DEVICE_API_VERSION_1_3 K then ''SENSORS_DEVICE_API_VERSION_1_3''
      else if version = SENSORS_DEVICE_API_VERSION_1_4 K then ''SENSORS_DEVICE_API_VERSION_1_4''
      else ''UNKNOWN'')"

definition addSubHwDevice :: "hal_env \<Rightarrow> hw_device \<Rightarrow> poll_context \<Rightarrow> poll_context" where
  "addSubHwDevice env sub_hw_device ctx =
     ctx\<lparr>sub_hw_devices := sub_hw_devices ctx @ [sub_hw_device],
         queues := queues ctx @
           [SensorEventQueue (env_heap_event env) SENSOR_EVENT_QUEUE_CAPACITY],
         threads := threads ctx @
           [\<lparr>tc_device = sub_hw_device, tc_queue = length (queues ctx)\<rparr>]\<rparr>"

text \<open>\<open>insert\<close> of a map keeps the value of a key that is already there.\<close>

definition map_insert :: "'k \<Rightarrow> 'v \<Rightarrow> ('k \<rightharpoonup> 'v) \<Rightarrow> ('k \<rightharpoonup> 'v)" where
  "map_insert k v m = (case m k of None \<Rightarrow> m(k \<mapsto> v) | Some _ \<Rightarrow> m)"

fun open_modules :: "hal_env \<Rightarrow> string \<Rightarrow> hw_module list \<Rightarrow> poll_context \<times> (hw_module \<rightharpoonup> int) \<Rightarrow>
    poll_context \<times> (hw_module \<rightharpoonup> int)" where
  "open_modules env name [] (dev, versions) = (dev, versions)"
| "open_modules env name (m # ms) (dev, versions) =
     (let (sub_open_result, sub_hw_device) = env_open env m name
      in if sub_open_result = 0
         then open_modules env name ms
                (addSubHwDevice env sub_hw_device dev,
                 map_insert m (dev_version sub_hw_device) versions)
         else open_modules env name ms (dev, versions))"

definition empty_context :: poll_context where
  "empty_context = \<lparr>sub_hw_devices = [], queues = [], threads = [], nextReadIndex = 0\<rparr>"

text \<open>The mutex is taken and not released: \<open>lazy_init_sensors_list\<close> does that.\<close>

definition open_sensors :: "hal_env \<Rightarrow> string \<Rightarrow> hal_globals \<Rightarrow> hal_error + poll_context \<times> hal_globals" where
  "open_sensors env name g0 =
     (case lazy_init_modules env g0 of
        Inl e \<Rightarrow> Inl e
      | Inr g \<Rightarrow>
          if queue_mutex g then Inl Deadlock
          else
            let ms = (case sub_hw_modules g of Some ms \<Rightarrow> ms | None \<Rightarrow> []);
                (dev, versions) = open_modules env name ms (empty_context, Map.empty)
            in Inr (dev, g\<lparr>queue_mutex := True, sub_hw_versions := Some versions\<rparr>))"

section \<open>Lemmas: the configuration\<close>

definition unlines :: "string list \<Rightarrow> string" where
  "unlines ls = concat (map (\<lambda>l. l @ [newline]) ls)"

lemma getlines_Nil [simp]: "getlines [] = []"
  by (simp add: getlines.simps)

lemma takeWhile_newline:
  "newline \<notin> set l \<Longrightarrow> takeWhile (\<lambda>c. c \<noteq> newline) (l @ newline # rest) = l"
  by (induction l) auto

lemma getlines_line:
  "newline \<notin> set l \<Longrightarrow> getlines (l @ newline # rest) = l # getlines rest"
  using takeWhile_newline [of l rest] by (subst getlines.simps) simp

lemma getlines_unlines_append:
  "(\<And>l. l \<in> set ls \<Longrightarrow> newline \<notin> set l) \<Longrightarrow> getlines (unlines ls @ rest) = ls @ getlines rest"
proof (induction ls)
  case Nil
  then show ?case by (simp add: unlines_def)
next
  case (Cons l ls)
  have "getlines (unlines (l # ls) @ rest) = l # getlines (unlines ls @ rest)"
    using Cons.prems getlines_line [of l "unlines ls @ rest"] by (simp add: unlines_def)
  with Cons show ?case by simp
qed

lemma getlines_last:
  "l \<noteq> [] \<Longrightarrow> newline \<notin> set l \<Longrightarrow> getlines l = [l]"
proof -
  assume l: "l \<noteq> []" "newline \<notin> set l"
  have whole: "takeWhile (\<lambda>c. c \<noteq> newline) l = l" using l(2) by (induction l) auto
  show "getlines l = [l]" by (subst getlines.simps, simp only: whole) (simp add: l(1))
qed

lemma lazy_init_modules_done:
  "sub_hw_modules g = Some ms \<Longrightarrow> lazy_init_modules env g = Inr g"
  by (simp add: lazy_init_modules_def)

section \<open>Lemmas: the list of sensors\<close>

text \<open>
  The two nested loops are one pass over the sensors of all modules, each with the index
  of its module.
\<close>

fun located :: "(hw_module \<Rightarrow> sensor list) \<Rightarrow> int \<Rightarrow> hw_module list \<Rightarrow> (int \<times> hw_module \<times> sensor) list" where
  "located sensors_of k [] = []"
| "located sensors_of k (m # ms) =
     map (\<lambda>s. (k, m, s)) (sensors_of m) @ located sensors_of (k + 1) ms"

fun register_all :: "hal_h \<Rightarrow> (hw_module \<rightharpoonup> int) option \<Rightarrow> (int \<times> hw_module \<times> sensor) list \<Rightarrow>
    list_build \<Rightarrow> hal_error + list_build" where
  "register_all K versions [] b = Inr b"
| "register_all K versions ((k, m, s) # ls) b =
     (case register_sensor K versions m k s b of
        Inl e \<Rightarrow> Inl e
      | Inr b' \<Rightarrow> register_all K versions ls b')"

lemma register_all_append:
  "register_all K versions (ls @ ls') b =
     (case register_all K versions ls b of Inl e \<Rightarrow> Inl e | Inr b' \<Rightarrow> register_all K versions ls' b')"
  by (induction K versions ls b rule: register_all.induct) (simp_all split: sum.splits)

lemma register_sensors_all:
  "register_sensors K versions m k ss b = register_all K versions (map (\<lambda>s. (k, m, s)) ss) b"
  by (induction ss arbitrary: b) (simp_all split: sum.splits)

lemma register_modules_all:
  "register_modules env K versions k ms b =
     register_all K versions (located (env_get_sensors_list env 1) k ms) b"
  by (induction ms arbitrary: k b)
     (simp_all add: register_sensors_all register_all_append split: sum.splits)

lemma length_located:
  "length (located sensors_of k ms) = sum_list (map (\<lambda>m. length (sensors_of m)) ms)"
  by (induction ms arbitrary: k) simp_all

lemma located_module:
  "(k, m, s) \<in> set (located sensors_of k0 ms) \<Longrightarrow>
     \<exists>j < length ms. k = k0 + int j \<and> m = ms ! j \<and> s \<in> set (sensors_of m)"
proof (induction ms arbitrary: k0)
  case (Cons m' ms)
  then consider "k = k0" "m = m'" "s \<in> set (sensors_of m)"
    | "(k, m, s) \<in> set (located sensors_of (k0 + 1) ms)" by auto
  then show ?case
  proof cases
    case 1
    then show ?thesis by (intro exI [of _ 0]) simp
  next
    case 2
    then obtain j where "j < length ms" "k = k0 + 1 + int j" "m = ms ! j" "s \<in> set (sensors_of m)"
      using Cons.IH by blast
    then show ?thesis by (intro exI [of _ "Suc j"]) simp
  qed
qed simp

lemma located_complete:
  "j < length ms \<Longrightarrow> s \<in> set (sensors_of (ms ! j)) \<Longrightarrow>
     (k0 + int j, ms ! j, s) \<in> set (located sensors_of k0 ms)"
proof (induction ms arbitrary: k0 j)
  case (Cons m' ms)
  show ?case
  proof (cases j)
    case 0
    with Cons.prems show ?thesis by auto
  next
    case (Suc i)
    with Cons.IH [of i "k0 + 1"] Cons.prems show ?thesis by (auto simp: algebra_simps)
  qed
qed simp

text \<open>What the entry of a sensor in the global list is.\<close>

definition global_entry :: "hal_h \<Rightarrow> (hw_module \<rightharpoonup> int) \<Rightarrow> int \<Rightarrow> hw_module \<times> sensor \<Rightarrow> sensor" where
  "global_entry K vs g = (\<lambda>(m, s). fix_sensor_flags K (the (vs m)) (s\<lparr>s_handle := g\<rparr>))"

definition handle_pairs :: "(int \<times> hw_module \<times> sensor) list \<Rightarrow> (int \<times> int) list" where
  "handle_pairs ls = map (\<lambda>(k, m, s). (k, s_handle s)) ls"

text \<open>
  With a version for every module that has sensors and an array that is long enough, the
  pass succeeds, and this is what it leaves.
\<close>

lemma register_sensor_ok:
  assumes "vs m = Some v" "lb_index b < length (lb_list b)"
  shows "register_sensor K (Some vs) m k s b =
    Inr \<lparr>lb_list = (lb_list b)[lb_index b :=
           global_entry K vs (next_global_handle (lb_handles b)) (m, s)],
         lb_index = Suc (lb_index b),
         lb_handles = snd (assign_global_handle k (s_handle s) (lb_handles b))\<rparr>"
  using assms by (simp add: register_sensor_def assign_global_handle_def global_entry_def Let_def)

lemma register_all_ok:
  assumes "\<forall>l \<in> set ls. vs (fst (snd l)) \<noteq> None"
    and "lb_index b + length ls \<le> length (lb_list b)"
  shows "\<exists>b'. register_all K (Some vs) ls b = Inr b' \<and>
    length (lb_list b') = length (lb_list b) \<and>
    lb_handles b' = snd (assign_all assign_global_handle (handle_pairs ls) (lb_handles b)) \<and>
    (\<forall>j < lb_index b. lb_list b' ! j = lb_list b ! j) \<and>
    (\<forall>i < length ls. lb_list b' ! (lb_index b + i) =
       global_entry K vs (next_global_handle (lb_handles b) + int i) (snd (ls ! i)))"
  using assms
proof (induction ls arbitrary: b)
  case Nil
  then show ?case by (simp add: handle_pairs_def)
next
  case (Cons l ls)
  obtain k m s where l: "l = (k, m, s)" by (cases l)
  then obtain v where v: "vs m = Some v" using Cons.prems(1) by auto
  let ?e = "global_entry K vs (next_global_handle (lb_handles b)) (m, s)"
  let ?b = "\<lparr>lb_list = (lb_list b)[lb_index b := ?e], lb_index = Suc (lb_index b),
    lb_handles = snd (assign_global_handle k (s_handle s) (lb_handles b))\<rparr>"
  have "\<exists>b'. register_all K (Some vs) ls ?b = Inr b' \<and>
    length (lb_list b') = length (lb_list ?b) \<and>
    lb_handles b' = snd (assign_all assign_global_handle (handle_pairs ls) (lb_handles ?b)) \<and>
    (\<forall>j < lb_index ?b. lb_list b' ! j = lb_list ?b ! j) \<and>
    (\<forall>i < length ls. lb_list b' ! (lb_index ?b + i) =
       global_entry K vs (next_global_handle (lb_handles ?b) + int i) (snd (ls ! i)))"
    using Cons.prems by (intro Cons.IH) simp_all
  then obtain b' where b': "register_all K (Some vs) ls ?b = Inr b'"
    "length (lb_list b') = length (lb_list b)"
    "lb_handles b' = snd (assign_all assign_global_handle (handle_pairs ls) (lb_handles ?b))"
    "\<forall>j < Suc (lb_index b). lb_list b' ! j = (lb_list b)[lb_index b := ?e] ! j"
    "\<forall>i < length ls. lb_list b' ! (Suc (lb_index b) + i) =
       global_entry K vs (next_global_handle (lb_handles b) + 1 + int i) (snd (ls ! i))"
    by (auto simp: registry_simps)
  have step: "register_sensor K (Some vs) m k s b = Inr ?b"
    using v Cons.prems(2) by (intro register_sensor_ok) auto
  have "lb_list b' ! (lb_index b + i) =
      global_entry K vs (next_global_handle (lb_handles b) + int i) (snd ((l # ls) ! i))"
    if "i < length (l # ls)" for i
  proof (cases i)
    case 0
    have "lb_list b' ! lb_index b = ?e" using b'(4) Cons.prems(2) by simp
    with 0 l show ?thesis by simp
  next
    case (Suc i')
    with that b'(5) show ?thesis by (auto simp: algebra_simps)
  qed
  moreover have "\<forall>j < lb_index b. lb_list b' ! j = lb_list b ! j"
    using b'(4) by simp
  moreover have "lb_handles b' =
      snd (assign_all assign_global_handle (handle_pairs (l # ls)) (lb_handles b))"
    using b'(3) by (simp add: handle_pairs_def l reg.all_Cons split: prod.splits)
  ultimately show ?case using b'(1,2) step l by auto
qed

text \<open>Without a version for some module that has sensors the pass throws.\<close>

lemma register_all_unversioned:
  assumes "lb_index b + length ls \<le> length (lb_list b)"
    and "\<exists>l \<in> set ls. vs (fst (snd l)) = None"
  shows "register_all K (Some vs) ls b = Inl OutOfRange"
  using assms
proof (induction ls arbitrary: b)
  case (Cons l ls)
  obtain k m s where l: "l = (k, m, s)" by (cases l)
  show ?case
  proof (cases "vs m")
    case None
    with Cons.prems l show ?thesis
      by (simp add: register_sensor_def assign_global_handle_def Let_def)
  next
    case (Some v)
    with Cons.prems l have later: "\<exists>l \<in> set ls. vs (fst (snd l)) = None" by auto
    with Some Cons.prems(1) show ?thesis unfolding l
      by (simp add: register_sensor_ok [where v = v] Cons.IH)
  qed
qed simp

text \<open>Without the versions at all, the pass follows a null pointer at the first sensor.\<close>

lemma register_all_null:
  assumes "ls \<noteq> []" "lb_index b < length (lb_list b)"
  shows "register_all K None ls b = Inl NullPointer"
  using assms by (cases ls) (auto simp: register_sensor_def assign_global_handle_def Let_def)

section \<open>Lemmas: opening\<close>

definition opens :: "hal_env \<Rightarrow> string \<Rightarrow> hw_module \<Rightarrow> bool" where
  "opens env name m \<longleftrightarrow> fst (env_open env m name) = 0"

definition device_of :: "hal_env \<Rightarrow> string \<Rightarrow> hw_module \<Rightarrow> hw_device" where
  "device_of env name m = snd (env_open env m name)"

lemma open_modules_Cons:
  "open_modules env name (m # ms) (dev, vs) =
     open_modules env name ms
       (if opens env name m
        then (addSubHwDevice env (device_of env name m) dev,
              map_insert m (dev_version (device_of env name m)) vs)
        else (dev, vs))"
  by (simp add: opens_def device_of_def split: prod.splits)

declare open_modules.simps(2) [simp del]

lemma open_modules_devices:
  "sub_hw_devices (fst (open_modules env name ms (dev, vs))) =
     sub_hw_devices dev @ map (device_of env name) (filter (opens env name) ms)"
  by (induction ms arbitrary: dev vs) (simp_all add: open_modules_Cons addSubHwDevice_def)

lemma open_modules_queues:
  "queues (fst (open_modules env name ms (dev, vs))) =
     queues dev @ map (\<lambda>_. SensorEventQueue (env_heap_event env) SENSOR_EVENT_QUEUE_CAPACITY)
       (filter (opens env name) ms)"
  by (induction ms arbitrary: dev vs) (simp_all add: open_modules_Cons addSubHwDevice_def)

lemma open_modules_next:
  "nextReadIndex (fst (open_modules env name ms (dev, vs))) = nextReadIndex dev"
  by (induction ms arbitrary: dev vs) (simp_all add: open_modules_Cons addSubHwDevice_def)

lemma open_modules_versions:
  "snd (open_modules env name ms (dev, vs)) m =
     (case vs m of
        Some v \<Rightarrow> Some v
      | None \<Rightarrow> if m \<in> set ms \<and> opens env name m
                then Some (dev_version (device_of env name m)) else None)"
  by (induction ms arbitrary: dev vs)
     (auto simp: open_modules_Cons map_insert_def split: option.splits)

text \<open>Each writer thread serves the queue that belongs to its device.\<close>

definition tasks_match :: "poll_context \<Rightarrow> bool" where
  "tasks_match ctx \<longleftrightarrow>
     length (queues ctx) = length (sub_hw_devices ctx) \<and>
     threads ctx = map (\<lambda>i. \<lparr>tc_device = sub_hw_devices ctx ! i, tc_queue = i\<rparr>)
                     [0..<length (sub_hw_devices ctx)]"

lemma tasks_match_add: "tasks_match ctx \<Longrightarrow> tasks_match (addSubHwDevice env d ctx)"
  by (simp add: tasks_match_def addSubHwDevice_def nth_append)

lemma open_modules_tasks:
  "tasks_match dev \<Longrightarrow> tasks_match (fst (open_modules env name ms (dev, vs)))"
  by (induction ms arbitrary: dev vs) (simp_all add: open_modules_Cons tasks_match_add)

section \<open>Start-up\<close>

text \<open>The modules the configuration leads to.\<close>

definition loaded :: "hal_env \<Rightarrow> hw_module list" where
  "loaded env = (case get_so_paths env [] of Inl e \<Rightarrow> [] | Inr so_paths \<Rightarrow> load_modules env so_paths)"

text \<open>
  A client opens the device and then asks for the list. All the properties of a running
  multihal are about the state these two calls leave.
\<close>

definition startup :: "hal_env \<Rightarrow> hal_h \<Rightarrow> string \<Rightarrow> hal_globals \<Rightarrow>
    hal_error + poll_context \<times> hal_globals" where
  "startup env K name g0 =
     (case open_sensors env name g0 of
        Inl e \<Rightarrow> Inl e
      | Inr (ctx, g) \<Rightarrow>
          (case module__get_sensors_list env K g of
             Inl e \<Rightarrow> Inl e
           | Inr (_, g') \<Rightarrow> Inr (ctx, g')))"

text \<open>
  What start-up needs of its environment: one of the configuration files can be opened,
  and a module answers the second request for its list as it answered the first.
\<close>

definition env_stable :: "hal_env \<Rightarrow> bool" where
  "env_stable env \<longleftrightarrow>
     (case get_so_paths env [] of Inl e \<Rightarrow> False | Inr so_paths \<Rightarrow> True) \<and>
     list_all (\<lambda>m. env_get_sensors_list env 1 m = env_get_sensors_list env 0 m) (loaded env)"

definition global_located :: "hal_env \<Rightarrow> (int \<times> hw_module \<times> sensor) list" where
  "global_located env = located (env_get_sensors_list env 1) 0 (loaded env)"

definition sensor_modules_open :: "hal_env \<Rightarrow> string \<Rightarrow> bool" where
  "sensor_modules_open env name \<longleftrightarrow>
     list_all (\<lambda>m. env_get_sensors_list env 1 m = [] \<or> opens env name m) (loaded env)"

definition opened_versions :: "hal_env \<Rightarrow> string \<Rightarrow> hw_module \<rightharpoonup> int" where
  "opened_versions env name m =
     (if m \<in> set (loaded env) \<and> opens env name m
      then Some (dev_version (device_of env name m)) else None)"

lemma lazy_init_modules_first:
  assumes "env_stable env" "sub_hw_modules g = None"
  shows "lazy_init_modules env g = Inr (g\<lparr>sub_hw_modules := Some (loaded env)\<rparr>)"
  using assms
  by (simp add: env_stable_def lazy_init_modules_def loaded_def split: sum.splits)

lemma open_sensors_initial:
  assumes "env_stable env"
  shows "open_sensors env name initial_globals =
     Inr (fst (open_modules env name (loaded env) (empty_context, Map.empty)),
          initial_globals\<lparr>sub_hw_modules := Some (loaded env), queue_mutex := True,
            sub_hw_versions := Some (opened_versions env name)\<rparr>)"
proof -
  have "snd (open_modules env name (loaded env) (empty_context, Map.empty)) =
      opened_versions env name"
    by (rule ext) (simp add: open_modules_versions opened_versions_def)
  then show ?thesis
    by (auto simp: open_sensors_def lazy_init_modules_first [OF assms] initial_globals_def Let_def
        split: prod.splits)
qed

lemma count_sensors_located:
  "env_stable env \<Longrightarrow> count_sensors env (loaded env) = length (global_located env)"
  unfolding env_stable_def count_sensors_def global_located_def length_located
  by (intro arg_cong [of _ _ sum_list] map_cong) (simp_all add: list_all_iff)

lemma located_versions:
  "sensor_modules_open env name \<longleftrightarrow>
     (\<forall>l \<in> set (global_located env). opened_versions env name (fst (snd l)) \<noteq> None)"
proof
  assume open_all: "sensor_modules_open env name"
  show "\<forall>l \<in> set (global_located env). opened_versions env name (fst (snd l)) \<noteq> None"
  proof
    fix l
    assume l: "l \<in> set (global_located env)"
    obtain k m s where kms: "l = (k, m, s)" by (cases l)
    with l have "m \<in> set (loaded env)" "s \<in> set (env_get_sensors_list env 1 m)"
      by (auto simp: global_located_def dest!: located_module)
    with open_all kms show "opened_versions env name (fst (snd l)) \<noteq> None"
      by (auto simp: sensor_modules_open_def list_all_iff opened_versions_def)
  qed
next
  assume versions: "\<forall>l \<in> set (global_located env). opened_versions env name (fst (snd l)) \<noteq> None"
  have "opens env name m" if m: "m \<in> set (loaded env)" "env_get_sensors_list env 1 m \<noteq> []" for m
  proof -
    obtain j where j: "j < length (loaded env)" "loaded env ! j = m"
      using m(1) by (auto simp: in_set_conv_nth)
    have "hd (env_get_sensors_list env 1 m) \<in> set (env_get_sensors_list env 1 (loaded env ! j))"
      using m(2) j by simp
    from located_complete [where sensors_of = "env_get_sensors_list env 1", OF j(1) this, of 0]
    have "opened_versions env name m \<noteq> None"
      using versions j by (auto simp: global_located_def)
    then show ?thesis by (simp add: opened_versions_def split: if_splits)
  qed
  then show "sensor_modules_open env name"
    by (auto simp: sensor_modules_open_def list_all_iff)
qed

text \<open>Start-up throws exactly when a module that reports sensors could not be opened.\<close>

definition started :: "hal_env \<Rightarrow> string \<Rightarrow> poll_context" where
  "started env name = fst (open_modules env name (loaded env) (empty_context, Map.empty))"

lemma register_modules_located:
  "register_modules env K versions 0 (loaded env) b =
     register_all K versions (global_located env) b"
  by (simp only: register_modules_all global_located_def)

lemma startup_register:
  assumes "env_stable env"
  shows "startup env K name initial_globals =
    (case register_all K (Some (opened_versions env name)) (global_located env)
            \<lparr>lb_list = map (env_heap_sensor env) [0..<length (global_located env)],
             lb_index = 0, lb_handles = initial_handles\<rparr> of
       Inl e \<Rightarrow> Inl e
     | Inr b \<Rightarrow> Inr (started env name,
         initial_globals\<lparr>sub_hw_modules := Some (loaded env),
           global_sensors_count := int (length (global_located env)),
           sensors_batch_list :=
             map (\<lambda>i. batch_data_init (env_heap_batch env i)) [0..<length (global_located env)],
           sensors_enable_state := replicate (length (global_located env)) 0,
           handles := lb_handles b, global_sensors_list := Some (lb_list b)\<rparr>))"
  unfolding startup_def open_sensors_initial [OF assms] module__get_sensors_list_def
    lazy_init_sensors_list_def
  by (simp add: lazy_init_modules_done initial_globals_def register_modules_located Let_def
      started_def count_sensors_located [OF assms] split: sum.splits)

lemma startup_throws:
  assumes "env_stable env" "\<not> sensor_modules_open env name"
  shows "startup env K name initial_globals = Inl OutOfRange"
  using assms located_versions [of env name]
  by (simp add: startup_register register_all_unversioned)

text \<open>The registry after start-up.\<close>

definition started_handles :: "hal_env \<Rightarrow> handle_maps" where
  "started_handles env =
     snd (assign_all assign_global_handle (handle_pairs (global_located env)) initial_handles)"

lemma startup_ok:
  assumes "env_stable env" "sensor_modules_open env name"
  shows "\<exists>g sl. startup env K name initial_globals = Inr (started env name, g) \<and>
    handles g = started_handles env \<and> queue_mutex g = False \<and> sub_hw_versions g = None \<and>
    global_sensors_count g = int (length (global_located env)) \<and>
    global_sensors_list g = Some sl \<and> length sl = length (global_located env) \<and>
    (\<forall>i < length (global_located env). sl ! i =
       global_entry K (opened_versions env name) (1 + int i) (snd (global_located env ! i))) \<and>
    sensors_enable_state g = replicate (length (global_located env)) 0 \<and>
    length (sensors_batch_list g) = length (global_located env) \<and>
    (\<forall>b \<in> set (sensors_batch_list g). bd_empty b)"
proof -
  let ?b = "\<lparr>lb_list = map (env_heap_sensor env) [0..<length (global_located env)],
    lb_index = 0, lb_handles = initial_handles\<rparr>"
  obtain b' where b':
    "register_all K (Some (opened_versions env name)) (global_located env) ?b = Inr b'"
    "length (lb_list b') = length (lb_list ?b)"
    "lb_handles b' =
       snd (assign_all assign_global_handle (handle_pairs (global_located env)) (lb_handles ?b))"
    "\<forall>i < length (global_located env). lb_list b' ! (lb_index ?b + i) =
       global_entry K (opened_versions env name) (next_global_handle (lb_handles ?b) + int i)
         (snd (global_located env ! i))"
    using register_all_ok [of "global_located env" "opened_versions env name" ?b K]
      assms(2) located_versions [of env name] by auto
  have "startup env K name initial_globals = Inr (started env name,
         initial_globals\<lparr>sub_hw_modules := Some (loaded env),
           global_sensors_count := int (length (global_located env)),
           sensors_batch_list :=
             map (\<lambda>i. batch_data_init (env_heap_batch env i)) [0..<length (global_located env)],
           sensors_enable_state := replicate (length (global_located env)) 0,
           handles := lb_handles b', global_sensors_list := Some (lb_list b')\<rparr>)"
    by (simp add: startup_register [OF assms(1)] b'(1))
  moreover have "next_global_handle initial_handles = 1" by (simp add: initial_handles_def)
  ultimately show ?thesis
    using b'(2-4) by (auto simp: started_handles_def initial_globals_def batch_data_init_def)
qed

lemma startup_iff:
  "env_stable env \<Longrightarrow>
     (\<exists>r. startup env K name initial_globals = Inr r) \<longleftrightarrow> sensor_modules_open env name"
  using startup_ok startup_throws by fastforce

text \<open>What a client may assume of the state start-up leaves.\<close>

lemma startupD:
  assumes "env_stable env" "startup env K name initial_globals = Inr (ctx, g)"
  shows "sensor_modules_open env name" "ctx = started env name" "handles g = started_handles env"
    "queue_mutex g = False" "global_sensors_count g = int (length (global_located env))"
    "length (sensors_enable_state g) = length (global_located env)"
    "length (sensors_batch_list g) = length (global_located env)"
proof -
  show opened: "sensor_modules_open env name"
    using startup_iff [OF assms(1), of K name] assms(2) by blast
  show "ctx = started env name" "handles g = started_handles env" "queue_mutex g = False"
    "global_sensors_count g = int (length (global_located env))"
    "length (sensors_enable_state g) = length (global_located env)"
    "length (sensors_batch_list g) = length (global_located env)"
    using startup_ok [OF assms(1) opened, of K] assms(2) by auto
qed

lemma startup_list:
  assumes "env_stable env" "startup env K name initial_globals = Inr (ctx, g)"
  shows "\<exists>sl. global_sensors_list g = Some sl \<and> length sl = length (global_located env) \<and>
    (\<forall>i < length (global_located env). sl ! i =
       global_entry K (opened_versions env name) (1 + int i) (snd (global_located env ! i)))"
  using startup_ok [OF assms(1) startupD(1) [OF assms], of K] assms(2) by auto

lemma startup_modules:
  assumes "env_stable env" "startup env K name initial_globals = Inr (ctx, g)"
  shows "sub_hw_modules g = Some (loaded env)"
  using assms by (auto simp: startup_register split: sum.splits)

lemma startup_off:
  assumes "env_stable env" "startup env K name initial_globals = Inr (ctx, g)"
  shows "sensors_enable_state g = replicate (length (global_located env)) 0"
  using startup_ok [OF assms(1) startupD(1) [OF assms], of K] assms(2) by auto

text \<open>The registry knows exactly the sensors of the list, in its order.\<close>

lemma started_handles_inv: "handles_inv (started_handles env)"
  unfolding started_handles_def by (rule reg.all_inv) (rule handles_inv_initial)

lemma started_next: "next_global_handle (started_handles env) = 1 + int (length (global_located env))"
  unfolding started_handles_def reg.all_next
  by (simp add: handle_pairs_def initial_handles_def)

lemma started_known:
  "global_to_full (started_handles env) g \<noteq> None \<longleftrightarrow>
     1 \<le> g \<and> g \<le> int (length (global_located env))"
  by (subst handles_inv_known [OF started_handles_inv]) (auto simp: started_next)

lemma started_owner:
  assumes "i < length (global_located env)" "global_located env ! i = (k, m, s)"
  shows "global_to_full (started_handles env) (1 + int i) = Some (FullHandle k (s_handle s))"
  using reg.all_owner [of i "handle_pairs (global_located env)" initial_handles] assms
  by (simp add: started_handles_def handle_pairs_def initial_handles_def)

lemma started_round_trip:
  assumes "distinct (handle_pairs (global_located env))"
    and "i < length (global_located env)" "global_located env ! i = (k, m, s)"
  shows "get_global_handle (started_handles env) (FullHandle k (s_handle s)) = 1 + int i"
  using reg.all_global [OF assms(1), of i initial_handles] assms(2,3)
  by (simp add: started_handles_def handle_pairs_def initial_handles_def)

lemma started_unknown:
  assumes "\<forall>(k, m, s) \<in> set (global_located env). f \<noteq> FullHandle k (s_handle s)"
  shows "get_global_handle (started_handles env) f = -1"
proof -
  have "get_global_handle (started_handles env) f = get_global_handle initial_handles f"
    unfolding started_handles_def
    by (rule reg.all_global_other) (use assms in \<open>auto simp: handle_pairs_def\<close>)
  then show ?thesis by (simp add: get_global_handle_def initial_handles_def)
qed

section \<open>A concrete environment\<close>

text \<open>
  Two sub-HALs, an old one with a proximity sensor and a current one with two sensors; a
  third path of the configuration leads to no library.
\<close>

definition demo_h :: hal_h where
  "demo_h = \<lparr>SENSOR_TYPE_META_DATA = 0, SENSOR_TYPE_PROXIMITY = 8, SENSOR_TYPE_TEMPERATURE = 7,
     SENSOR_TYPE_LIGHT = 5, SENSOR_FLAG_ON_CHANGE_MODE = 2, SENSOR_FLAG_WAKE_UP = 1,
     SENSORS_DEVICE_API_VERSION_1_0 = 0x01000001, SENSORS_DEVICE_API_VERSION_1_1 = 0x01010001,
     SENSORS_DEVICE_API_VERSION_1_2 = 0x01020001, SENSORS_DEVICE_API_VERSION_1_3 = 0x01030001,
     SENSORS_DEVICE_API_VERSION_1_4 = 0x01040001\<rparr>"

definition demo_sensor :: "int \<Rightarrow> int \<Rightarrow> sensor" where
  "demo_sensor handle type = \<lparr>s_handle = handle, s_type = type, s_flags = 0, s_minDelay = 10000,
     s_maxDelay = 200000, s_other = []\<rparr>"

definition demo_env :: hal_env where
  "demo_env = \<lparr>
     env_file = (\<lambda>p. if p = MULTI_HAL_CONFIG_FILE_PATH
                     then Some (unlines [''old.so'', ''gone.so''] @ ''new.so'') else None),
     env_dlopen = (\<lambda>p. if p = ''old.so'' then Some 1 else if p = ''new.so'' then Some 2 else None),
     env_dlsym = (\<lambda>l. Inr (Some (10 * l))),
     env_get_sensors_list = (\<lambda>n m. if m = 10 then [demo_sensor 5 8]
                                    else [demo_sensor 5 1, demo_sensor 7 5]),
     env_open = (\<lambda>m name. (0, \<lparr>dev_ptr = 10 * m,
                                dev_version = (if m = 10 then 0x01000001 else 0x01040001)\<rparr>)),
     env_call = (\<lambda>io c. 0),
     env_heap_sensor = (\<lambda>i. demo_sensor 0 0),
     env_heap_batch = (\<lambda>i. \<lparr>bd_empty = False, bd_handle = 0, bd_flags = 0, bd_period_ns = 0,
                             bd_timeout = 0\<rparr>),
     env_heap_event = (\<lambda>i. \<lparr>ev_sensor = 0, ev_type = 0, ev_meta_sensor = 0, ev_other = []\<rparr>)\<rparr>"

lemma demo_loaded: "loaded demo_env = [10, 20]"
  by code_simp

lemma demo_stable: "env_stable demo_env"
  by code_simp

lemma demo_open: "sensor_modules_open demo_env name"
  unfolding sensor_modules_open_def demo_loaded by (simp add: opens_def demo_env_def)

lemma demo_located:
  "global_located demo_env = [(0, 10, demo_sensor 5 8), (1, 20, demo_sensor 5 1), (1, 20, demo_sensor 7 5)]"
  by code_simp

lemma demo_started:
  "\<exists>g. startup demo_env demo_h ''poll'' initial_globals = Inr (started demo_env ''poll'', g)"
  using startup_ok [OF demo_stable demo_open] by blast

section \<open>Properties\<close>

text \<open>
  C4. The paths of the sub-HALs are exactly the lines of the configuration file: of the
  vendor file if it can be opened, of the deprecated system file otherwise. A last line
  counts whether or not a newline ends it; empty lines in between are kept. With neither
  file the function does not return without paths, as its warning means it to: it follows
  a null pointer.
\<close>

theorem so_paths_are_the_lines:
  assumes "\<forall>l \<in> set ls. newline \<notin> set l" "newline \<notin> set rest"
  shows "(env_file env MULTI_HAL_CONFIG_FILE_PATH = Some (unlines ls @ rest) \<longrightarrow>
      get_so_paths env [] = Inr (ls @ (if rest = [] then [] else [rest]))) \<and>
    (env_file env MULTI_HAL_CONFIG_FILE_PATH = None \<and>
     env_file env DEPRECATED_MULTI_HAL_CONFIG_FILE_PATH = Some (unlines ls @ rest) \<longrightarrow>
      get_so_paths env [] = Inr (ls @ (if rest = [] then [] else [rest]))) \<and>
    (env_file env MULTI_HAL_CONFIG_FILE_PATH = None \<and>
     env_file env DEPRECATED_MULTI_HAL_CONFIG_FILE_PATH = None \<longrightarrow>
      get_so_paths env [] = Inl NullPointer)"
proof -
  have "getlines (unlines ls @ rest) = ls @ (if rest = [] then [] else [rest])"
    using assms getlines_last [of rest] by (auto simp: getlines_unlines_append)
  then show ?thesis by (simp add: get_so_paths_def)
qed

theorem so_paths_are_the_lines_witness:
  "get_so_paths demo_env [] = Inr [''old.so'', ''gone.so'', ''new.so'']"
proof -
  have "\<forall>l \<in> set [''old.so'', ''gone.so'']. newline \<notin> set l" "newline \<notin> set ''new.so''"
    by code_simp+
  from so_paths_are_the_lines [OF this, of demo_env] show ?thesis by (simp add: demo_env_def)
qed

text \<open>
  C5. If there is a configuration file and every module gives the same list of sensors
  when it is asked twice, opening the multihal and asking it for its list succeeds exactly
  when every module that reports sensors could be opened. Otherwise building the list throws \<open>std::out_of_range\<close> at the
  first sensor of a module without a device; it never writes outside the list.
\<close>

theorem startup_succeeds_iff_opened:
  assumes "env_stable env"
  shows "(sensor_modules_open env name \<longleftrightarrow>
      (\<exists>ctx g. startup env K name initial_globals = Inr (ctx, g))) \<and>
    (\<not> sensor_modules_open env name \<longrightarrow>
      startup env K name initial_globals = Inl OutOfRange)"
  using startup_iff [OF assms, of K name] startup_throws [OF assms, of name K] by auto

theorem startup_succeeds_iff_opened_witness:
  "\<exists>ctx g. startup demo_env demo_h ''poll'' initial_globals = Inr (ctx, g)"
  using startup_succeeds_iff_opened [OF demo_stable, of "''poll''" demo_h] demo_open by blast

text \<open>
  C6. After start-up the global list holds the sensors of all modules, module by module in
  the order of the configuration. The sensor at position \<open>i\<close> is the module's own record
  with the handle replaced by \<open>1 + i\<close> and with the flags corrected for the version of the
  device that was opened for its module; the count is the length of the list, the tables
  of legacy sensors have the same length, every sensor starts disabled with no saved
  batch, and the queue mutex that opening took is free again.
\<close>

theorem global_list_after_startup:
  assumes "env_stable env" "startup env K name initial_globals = Inr (ctx, g)"
  shows "\<exists>sl. global_sensors_list g = Some sl \<and> global_sensors_count g = int (length sl) \<and>
    length sl = length (global_located env) \<and>
    (\<forall>i < length sl. case global_located env ! i of (k, m, s) \<Rightarrow>
       sl ! i = fix_sensor_flags K (dev_version (device_of env name m)) (s\<lparr>s_handle := 1 + int i\<rparr>)) \<and>
    sensors_enable_state g = replicate (length sl) 0 \<and>
    length (sensors_batch_list g) = length sl \<and> (\<forall>b \<in> set (sensors_batch_list g). bd_empty b) \<and>
    queue_mutex g = False"
proof -
  have opened: "sensor_modules_open env name" by (rule startupD(1) [OF assms])
  have versions: "the (opened_versions env name m) = dev_version (device_of env name m)"
    if "(k, m, s) \<in> set (global_located env)" for k m s
  proof -
    have "opened_versions env name m \<noteq> None"
      using opened that by (fastforce simp: located_versions)
    then show ?thesis by (auto simp: opened_versions_def split: if_splits)
  qed
  obtain sl where "global_sensors_list g = Some sl" "length sl = length (global_located env)"
    "\<forall>i < length (global_located env). sl ! i =
       global_entry K (opened_versions env name) (1 + int i) (snd (global_located env ! i))"
    "sensors_enable_state g = replicate (length (global_located env)) 0"
    "\<forall>b \<in> set (sensors_batch_list g). bd_empty b"
    using startup_ok [OF assms(1) opened, of K] assms(2) by auto
  moreover have "case global_located env ! i of (k, m, s) \<Rightarrow>
      global_entry K (opened_versions env name) (1 + int i) (snd (global_located env ! i)) =
      fix_sensor_flags K (dev_version (device_of env name m)) (s\<lparr>s_handle := 1 + int i\<rparr>)"
    if "i < length (global_located env)" for i
    using nth_mem [OF that] versions by (auto simp: global_entry_def)
  ultimately show ?thesis
    using startupD [OF assms] by (intro exI [of _ sl]) auto
qed

theorem global_list_after_startup_witness:
  "\<exists>ctx g sl. startup demo_env demo_h ''poll'' initial_globals = Inr (ctx, g) \<and>
     global_sensors_list g = Some sl \<and> length sl = 3 \<and>
     sl ! 0 = (demo_sensor 1 8)\<lparr>s_flags := 3\<rparr> \<and> sl ! 2 = demo_sensor 3 5"
proof -
  obtain g where g: "startup demo_env demo_h ''poll'' initial_globals = Inr (started demo_env ''poll'', g)"
    using demo_started by blast
  obtain sl where sl: "global_sensors_list g = Some sl" "length sl = 3"
    "\<forall>i < length sl. case global_located demo_env ! i of (k, m, s) \<Rightarrow>
       sl ! i = fix_sensor_flags demo_h (dev_version (device_of demo_env ''poll'' m))
         (s\<lparr>s_handle := 1 + int i\<rparr>)"
    using global_list_after_startup [OF demo_stable g] by (auto simp: demo_located)
  have "fix_sensor_flags demo_h (dev_version (device_of demo_env ''poll'' 10))
      ((demo_sensor 5 8)\<lparr>s_handle := 1\<rparr>) = (demo_sensor 1 8)\<lparr>s_flags := 3\<rparr>"
    "fix_sensor_flags demo_h (dev_version (device_of demo_env ''poll'' 20))
      ((demo_sensor 7 5)\<lparr>s_handle := 3\<rparr>) = demo_sensor 3 5"
    by code_simp+
  then have "sl ! 0 = (demo_sensor 1 8)\<lparr>s_flags := 3\<rparr>" "sl ! 2 = demo_sensor 3 5"
    using sl(2) sl(3) [rule_format, of 0] sl(3) [rule_format, of 2] by (auto simp: demo_located)
  with g sl show ?thesis by blast
qed

text \<open>
  C7. The registry of a started multihal is a bijection, if no module gives one local
  handle to two sensors: the global handles are \<open>1\<close> to the count, each belongs to the module
  index and the local handle of the sensor at its position, and asking for the global
  handle of that pair gives it back; any other handle or pair is answered with \<open>-1\<close>.
\<close>

theorem registry_is_a_bijection:
  assumes "env_stable env" "startup env K name initial_globals = Inr (ctx, g)"
    and "distinct (handle_pairs (global_located env))"
  shows "(\<forall>i < length (global_located env). case global_located env ! i of (k, m, s) \<Rightarrow>
      get_module_index (handles g) (1 + int i) = k \<and>
      get_local_handle (handles g) (1 + int i) = s_handle s \<and>
      get_global_handle (handles g) (FullHandle k (s_handle s)) = 1 + int i) \<and>
    (\<forall>h. h < 1 \<or> int (length (global_located env)) < h \<longrightarrow>
      get_module_index (handles g) h = -1 \<and> get_local_handle (handles g) h = -1) \<and>
    (\<forall>f. (\<forall>(k, m, s) \<in> set (global_located env). f \<noteq> FullHandle k (s_handle s)) \<longrightarrow>
      get_global_handle (handles g) f = -1)"
proof (intro conjI allI impI)
  have g: "handles g = started_handles env" by (rule startupD(3) [OF assms(1,2)])
  fix i
  assume i: "i < length (global_located env)"
  obtain k m s where kms: "global_located env ! i = (k, m, s)" by (cases "global_located env ! i")
  show "case global_located env ! i of (k, m, s) \<Rightarrow>
      get_module_index (handles g) (1 + int i) = k \<and>
      get_local_handle (handles g) (1 + int i) = s_handle s \<and>
      get_global_handle (handles g) (FullHandle k (s_handle s)) = 1 + int i"
    using started_owner [OF i kms] started_round_trip [OF assms(3) i kms] kms g
    by (simp add: get_module_index_def get_local_handle_def)
next
  have g: "handles g = started_handles env" by (rule startupD(3) [OF assms(1,2)])
  fix h
  assume "h < 1 \<or> int (length (global_located env)) < h"
  then have "global_to_full (handles g) h = None" using started_known [of env h] g by auto
  then show "get_module_index (handles g) h = -1" "get_local_handle (handles g) h = -1"
    by (simp_all add: get_module_index_def get_local_handle_def)
next
  have g: "handles g = started_handles env" by (rule startupD(3) [OF assms(1,2)])
  fix f
  assume "\<forall>(k, m, s) \<in> set (global_located env). f \<noteq> FullHandle k (s_handle s)"
  then show "get_global_handle (handles g) f = -1" using g started_unknown by simp
qed

theorem registry_is_a_bijection_witness:
  "\<exists>ctx g. startup demo_env demo_h ''poll'' initial_globals = Inr (ctx, g) \<and>
     get_module_index (handles g) 3 = 1 \<and> get_local_handle (handles g) 3 = 7 \<and>
     get_global_handle (handles g) (FullHandle 1 7) = 3 \<and> get_local_handle (handles g) 4 = -1"
proof -
  obtain g where g: "startup demo_env demo_h ''poll'' initial_globals = Inr (started demo_env ''poll'', g)"
    using demo_started by blast
  have d: "distinct (handle_pairs (global_located demo_env))"
    by (simp add: demo_located handle_pairs_def demo_sensor_def)
  note b = registry_is_a_bijection [OF demo_stable g d, unfolded demo_located]
  from b have "get_module_index (handles g) 3 = 1 \<and> get_local_handle (handles g) 3 = 7 \<and>
      get_global_handle (handles g) (FullHandle 1 7) = 3 \<and> get_local_handle (handles g) 4 = -1"
    by (auto dest: spec [of _ 2] simp: demo_sensor_def)
  with g show ?thesis by blast
qed

text \<open>
  The list cannot be asked for before the device is opened, although the comments
  allow either to come first: if any module reports a sensor, the first call of
  \<open>get_sensors_list\<close> follows the null pointer \<open>sub_hw_versions\<close>.
\<close>

theorem list_before_open_is_null:
  assumes "env_stable env" "global_located env \<noteq> []"
  shows "module__get_sensors_list env K initial_globals = Inl NullPointer"
proof -
  have "register_all K None (global_located env)
      \<lparr>lb_list = map (env_heap_sensor env) [0..<length (global_located env)], lb_index = 0,
       lb_handles = initial_handles\<rparr> = Inl NullPointer"
    using assms(2) by (intro register_all_null) auto
  then show ?thesis
    by (simp add: module__get_sensors_list_def lazy_init_sensors_list_def
        lazy_init_modules_first [OF assms(1)] initial_globals_def register_modules_located
        count_sensors_located [OF assms(1)] Let_def)
qed

theorem list_before_open_is_null_witness:
  "module__get_sensors_list demo_env demo_h initial_globals = Inl NullPointer"
  by (rule list_before_open_is_null [OF demo_stable]) (simp add: demo_located)

text \<open>
  C9. The queue mutex is released only by the call that builds the list. When a client
  opens a started multihal a second time, the mutex stays held: asking for the list
  again returns the old list and leaves it held, and a further open blocks for ever.
\<close>

theorem reopening_keeps_the_mutex:
  assumes "env_stable env" "startup env K name initial_globals = Inr (ctx, g)"
  shows "\<exists>ctx2 g2. open_sensors env name g = Inr (ctx2, g2) \<and> queue_mutex g2 \<and>
    module__get_sensors_list env K g2 =
      Inr ((global_sensors_count g, global_sensors_list g), g2) \<and>
    open_sensors env name g2 = Inl Deadlock"
proof -
  obtain sl where sl: "global_sensors_list g = Some sl"
    using startup_list [OF assms] by blast
  have free: "\<not> queue_mutex g" using startupD(4) [OF assms] by simp
  obtain ms where ms: "sub_hw_modules g = Some ms" using startup_modules [OF assms] by blast
  obtain ctx2 versions where "open_sensors env name g = Inr (ctx2,
      g\<lparr>queue_mutex := True, sub_hw_versions := Some versions\<rparr>)"
    using free by (fastforce simp: open_sensors_def lazy_init_modules_done [OF ms] Let_def
        split: prod.splits)
  moreover have "open_sensors env name h = Inl Deadlock"
    if "queue_mutex h" "sub_hw_modules h = Some ms" for h
    using that by (simp add: open_sensors_def lazy_init_modules_done)
  moreover have "module__get_sensors_list env K h =
      Inr ((global_sensors_count h, global_sensors_list h), h)" if "global_sensors_list h \<noteq> None" for h
    using that by (simp add: module__get_sensors_list_def lazy_init_sensors_list_def)
  ultimately show ?thesis using sl ms by (intro exI conjI) (assumption | simp)+
qed

theorem reopening_keeps_the_mutex_witness:
  "\<exists>ctx g ctx2 g2. startup demo_env demo_h ''poll'' initial_globals = Inr (ctx, g) \<and>
     open_sensors demo_env ''poll'' g = Inr (ctx2, g2) \<and> queue_mutex g2"
  using demo_started reopening_keeps_the_mutex [OF demo_stable] by metis

end
