(* ===== verification/Dispatch.thy ===== *)
theory Dispatch
  imports Multihal
begin

text \<open>
  The calls of a running multihal in \<open>sensors/multihal.cpp\<close>: each looks up the module and
  the local handle behind a global handle and calls the sub-HAL's device, and the
  \<open>device__\<close> functions add the work-around for sub-HALs without \<open>batch\<close>. A call
  takes the log of device calls and returns it extended.
\<close>

section \<open>Looking up the device\<close>

definition get_v0_device_by_handle :: "hal_globals \<Rightarrow> poll_context \<Rightarrow> int \<Rightarrow> hw_device option" where
  "get_v0_device_by_handle g ctx global_handle =
     (let sub_index = get_module_index (handles g) global_handle
      in if sub_index < 0 \<or> sub_index \<ge> int (length (sub_hw_devices ctx)) then None
         else Some (sub_hw_devices ctx ! nat sub_index))"

definition get_v1_device_by_handle :: "hal_globals \<Rightarrow> poll_context \<Rightarrow> int \<Rightarrow> hw_device option" where
  "get_v1_device_by_handle g ctx global_handle =
     (let sub_index = get_module_index (handles g) global_handle
      in if sub_index < 0 \<or> sub_index \<ge> int (length (sub_hw_devices ctx)) then None
         else Some (sub_hw_devices ctx ! nat sub_index))"

definition get_device_version_by_handle :: "hal_globals \<Rightarrow> poll_context \<Rightarrow> int \<Rightarrow> int" where
  "get_device_version_by_handle g ctx handle =
     (case get_v0_device_by_handle g ctx handle of
        Some v0 \<Rightarrow> dev_version v0
      | None \<Rightarrow> -1)"

definition halIsAPILevelCompliant :: "hal_globals \<Rightarrow> poll_context \<Rightarrow> int \<Rightarrow> int \<Rightarrow> bool" where
  "halIsAPILevelCompliant g ctx handle level =
     (let version = get_device_version_by_handle g ctx handle
      in version \<noteq> -1 \<and> version \<ge> level)"

section \<open>The operations of the context\<close>

definition activate :: "hal_env \<Rightarrow> hal_globals \<Rightarrow> poll_context \<Rightarrow> int \<Rightarrow> int \<Rightarrow> call_log \<Rightarrow>
    int \<times> call_log" where
  "activate env g ctx handle enabled io =
     (let local_handle = get_local_handle (handles g) handle
      in case get_v0_device_by_handle g ctx handle of
           Some v0 \<Rightarrow>
             if local_handle \<ge> 0 then device_call env (Activate (dev_ptr v0) local_handle enabled) io
             else (- EINVAL, io)
         | None \<Rightarrow> (- EINVAL, io))"

definition setDelay :: "hal_env \<Rightarrow> hal_globals \<Rightarrow> poll_context \<Rightarrow> int \<Rightarrow> int \<Rightarrow> call_log \<Rightarrow>
    int \<times> call_log" where
  "setDelay env g ctx handle ns io =
     (let local_handle = get_local_handle (handles g) handle
      in case get_v0_device_by_handle g ctx handle of
           Some v0 \<Rightarrow>
             if local_handle \<ge> 0 then device_call env (SetDelay (dev_ptr v0) local_handle ns) io
             else (- EINVAL, io)
         | None \<Rightarrow> (- EINVAL, io))"

text \<open>
  The fallback of \<open>batch\<close> clamps the period to the limits it reads at the module index in
  the global list, and passes on the global handle.
\<close>

definition batch :: "hal_env \<Rightarrow> hal_h \<Rightarrow> hal_globals \<Rightarrow> poll_context \<Rightarrow> int \<Rightarrow> int \<Rightarrow> int \<Rightarrow> int \<Rightarrow>
    call_log \<Rightarrow> hal_error + int \<times> call_log" where
  "batch env K g ctx handle flags period_ns timeout io =
     (let local_handle = get_local_handle (handles g) handle
      in case get_v1_device_by_handle g ctx handle of
           None \<Rightarrow> Inr (- EINVAL, io)
         | Some v1 \<Rightarrow>
             if local_handle < 0 then Inr (- EINVAL, io)
             else if halIsAPILevelCompliant g ctx handle (SENSORS_DEVICE_API_VERSION_1_1 K) then
               Inr (device_call env (Batch (dev_ptr v1) local_handle flags period_ns timeout) io)
             else if period_ns < 0 \<or> timeout < 0 then Inr (- EINVAL, io)
             else
               (let sub_index = get_module_index (handles g) handle
                in case global_sensors_list g of
                     None \<Rightarrow> Inl NullPointer
                   | Some sl \<Rightarrow>
                       if sub_index < 0 \<or> sub_index \<ge> int (length sl) then Inl (OutOfBounds sub_index)
                       else
                         let maxDelay = s_maxDelay (sl ! nat sub_index);
                             minDelay = s_minDelay (sl ! nat sub_index);
                             period = (if period_ns < minDelay then minDelay
                                       else if period_ns > maxDelay then maxDelay
                                       else period_ns)
                         in Inr (device_call env (SetDelay (dev_ptr v1) handle period) io)))"

definition flush :: "hal_env \<Rightarrow> hal_h \<Rightarrow> hal_globals \<Rightarrow> poll_context \<Rightarrow> int \<Rightarrow> call_log \<Rightarrow>
    int \<times> call_log" where
  "flush env K g ctx handle io =
     (let local_handle = get_local_handle (handles g) handle
      in case get_v1_device_by_handle g ctx handle of
           Some v1 \<Rightarrow>
             if local_handle \<ge> 0 then
               (if halIsAPILevelCompliant g ctx handle (SENSORS_DEVICE_API_VERSION_1_1 K)
                then device_call env (Flush (dev_ptr v1) local_handle) io
                else (- EINVAL, io))
             else (- EINVAL, io)
         | None \<Rightarrow> (- EINVAL, io))"

text \<open>The sub-HAL gets the \<open>dev\<close> of the caller, and the event as it is.\<close>

definition inject_sensor_data :: "hal_env \<Rightarrow> hal_h \<Rightarrow> hal_globals \<Rightarrow> poll_context \<Rightarrow> nat \<Rightarrow>
    sensors_event \<Rightarrow> call_log \<Rightarrow> int \<times> call_log" where
  "inject_sensor_data env K g ctx dev data io =
     (let local_handle = get_local_handle (handles g) (ev_sensor data)
      in case get_v1_device_by_handle g ctx (ev_sensor data) of
           Some v1 \<Rightarrow>
             if halIsAPILevelCompliant g ctx (ev_sensor data) (SENSORS_DEVICE_API_VERSION_1_4 K) \<and>
                local_handle \<ge> 0
             then device_call env (InjectSensorData (dev_ptr v1) dev data) io
             else (- EINVAL, io)
         | None \<Rightarrow> (- EINVAL, io))"

fun close_devices :: "hal_env \<Rightarrow> hw_device list \<Rightarrow> call_log \<Rightarrow> call_log" where
  "close_devices env [] io = io"
| "close_devices env (dev # devs) io =
     close_devices env devs (snd (device_call env (CloseDevice (dev_ptr dev)) io))"

definition close_context :: "hal_env \<Rightarrow> poll_context \<Rightarrow> call_log \<Rightarrow> int \<times> call_log" where
  "close_context env ctx io = (0, close_devices env (sub_hw_devices ctx) io)"

section \<open>The entry points\<close>

definition device__close :: "hal_env \<Rightarrow> poll_context option \<Rightarrow> call_log \<Rightarrow> int \<times> call_log" where
  "device__close env dev io =
     (case dev of
        Some ctx \<Rightarrow> (0, snd (close_context env ctx io))
      | None \<Rightarrow> (0, io))"

text \<open>A checked access to one of the two tables of legacy sensors.\<close>

definition in_table :: "'a list \<Rightarrow> int \<Rightarrow> bool" where
  "in_table xs i \<longleftrightarrow> 0 \<le> i \<and> i < int (length xs)"

definition device__activate :: "hal_env \<Rightarrow> hal_h \<Rightarrow> hal_globals \<Rightarrow> poll_context \<Rightarrow> int \<Rightarrow> int \<Rightarrow>
    call_log \<Rightarrow> hal_error + int \<times> hal_globals \<times> call_log" where
  "device__activate env K g ctx handle enabled io =
     (let (activate_retval, io1) = activate env g ctx handle enabled io
      in if \<not> halIsAPILevelCompliant g ctx handle (SENSORS_DEVICE_API_VERSION_1_1 K) then
           (let index = handle - 1
            in if \<not> in_table (sensors_enable_state g) index then Inl (OutOfBounds index)
               else
                 let g1 = g\<lparr>sensors_enable_state := (sensors_enable_state g)[nat index := enabled]\<rparr>
                 in if enabled = 0 then Inr (activate_retval, g1, io1)
                    else if \<not> in_table (sensors_batch_list g) index then Inl (OutOfBounds index)
                    else if \<not> bd_empty (sensors_batch_list g ! nat index) then
                      (let b = sensors_batch_list g ! nat index;
                           (delay_retval, io2) = setDelay env g1 ctx handle (bd_period_ns b) io1;
                           g2 = g1\<lparr>sensors_batch_list :=
                                     (sensors_batch_list g)[nat index := b\<lparr>bd_empty := True\<rparr>]\<rparr>
                       in Inr (c_bool (delay_retval \<noteq> 0 \<or> activate_retval \<noteq> 0), g2, io2))
                    else Inr (activate_retval, g1, io1))
         else Inr (activate_retval, g, io1))"

definition device__setDelay :: "hal_env \<Rightarrow> hal_globals \<Rightarrow> poll_context \<Rightarrow> int \<Rightarrow> int \<Rightarrow> call_log \<Rightarrow>
    int \<times> call_log" where
  "device__setDelay env g ctx handle ns io = setDelay env g ctx handle ns io"

text \<open>
  The address of an element is never null, so the branch that logs a failure to save
  is not taken.
\<close>

definition device__batch :: "hal_env \<Rightarrow> hal_h \<Rightarrow> hal_globals \<Rightarrow> poll_context \<Rightarrow> int \<Rightarrow> int \<Rightarrow> int \<Rightarrow>
    int \<Rightarrow> call_log \<Rightarrow> hal_error + int \<times> hal_globals \<times> call_log" where
  "device__batch env K g ctx handle flags period_ns timeout io =
     (if halIsAPILevelCompliant g ctx handle (SENSORS_DEVICE_API_VERSION_1_1 K) then
        (case batch env K g ctx handle flags period_ns timeout io of
           Inl e \<Rightarrow> Inl e
         | Inr (r, io1) \<Rightarrow> Inr (r, g, io1))
      else
        (let index = handle - 1
         in if \<not> in_table (sensors_enable_state g) index then Inl (OutOfBounds index)
            else if sensors_enable_state g ! nat index = 0 then
              (if \<not> in_table (sensors_batch_list g) index then Inl (OutOfBounds index)
               else
                 Inr (0, g\<lparr>sensors_batch_list := (sensors_batch_list g)[nat index :=
                          update_batch_data handle flags period_ns timeout
                            (sensors_batch_list g ! nat index)]\<rparr>, io))
            else
              (let (r, io1) = setDelay env g ctx handle period_ns io in Inr (r, g, io1))))"

definition device__flush :: "hal_env \<Rightarrow> hal_h \<Rightarrow> hal_globals \<Rightarrow> poll_context \<Rightarrow> int \<Rightarrow> call_log \<Rightarrow>
    int \<times> call_log" where
  "device__flush env K g ctx handle io = flush env K g ctx handle io"

definition device__inject_sensor_data :: "hal_env \<Rightarrow> hal_h \<Rightarrow> hal_globals \<Rightarrow> poll_context \<Rightarrow>
    nat \<Rightarrow> sensors_event \<Rightarrow> call_log \<Rightarrow> int \<times> call_log" where
  "device__inject_sensor_data env K g ctx dev data io = inject_sensor_data env K g ctx dev data io"

section \<open>Lemmas: the lookups\<close>

text \<open>
  A multihal state a client can be in: the registry is well formed and the two tables of
  legacy sensors have one entry for every handle that was given out.
\<close>

definition hal_inv :: "hal_globals \<Rightarrow> bool" where
  "hal_inv g \<longleftrightarrow>
     handles_inv (handles g) \<and>
     int (length (sensors_enable_state g)) = next_global_handle (handles g) - 1 \<and>
     length (sensors_batch_list g) = length (sensors_enable_state g)"

definition known :: "hal_globals \<Rightarrow> int \<Rightarrow> bool" where
  "known g handle \<longleftrightarrow> global_to_full (handles g) handle \<noteq> None"

lemma known_iff:
  "hal_inv g \<Longrightarrow> known g handle \<longleftrightarrow> in_table (sensors_enable_state g) (handle - 1)"
  unfolding known_def in_table_def
  by (subst handles_inv_known) (auto simp: hal_inv_def)

lemma in_table_batch:
  "hal_inv g \<Longrightarrow> in_table (sensors_batch_list g) i \<longleftrightarrow> in_table (sensors_enable_state g) i"
  by (simp add: hal_inv_def in_table_def)

lemma get_v1_v0 [dispatch_simps]: "get_v1_device_by_handle = get_v0_device_by_handle"
  by (simp add: fun_eq_iff get_v1_device_by_handle_def get_v0_device_by_handle_def)

lemma unknown_lookups [dispatch_simps]:
  assumes "\<not> known g handle"
  shows "get_local_handle (handles g) handle = -1" "get_module_index (handles g) handle = -1"
    "get_v0_device_by_handle g ctx handle = None" "get_device_version_by_handle g ctx handle = -1"
    "halIsAPILevelCompliant g ctx handle level \<longleftrightarrow> False"
  using assms
  by (simp_all add: known_def get_local_handle_def get_module_index_def get_v0_device_by_handle_def
      get_device_version_by_handle_def halIsAPILevelCompliant_def)

lemma compliant_device:
  "halIsAPILevelCompliant g ctx handle level \<Longrightarrow>
     \<exists>d. get_v0_device_by_handle g ctx handle = Some d \<and> level \<le> dev_version d"
  by (auto simp: halIsAPILevelCompliant_def get_device_version_by_handle_def Let_def
      split: option.splits)

lemma owner_lookups:
  assumes "global_to_full (handles g) handle = Some (FullHandle k l)"
    and "0 \<le> k" "k < int (length (sub_hw_devices ctx))"
  shows "get_local_handle (handles g) handle = l"
    "get_v0_device_by_handle g ctx handle = Some (sub_hw_devices ctx ! nat k)"
  using assms
  by (simp_all add: get_local_handle_def get_module_index_def get_v0_device_by_handle_def)

section \<open>Lemmas: the calls\<close>

text \<open>The device and the local handle a call on a global handle reaches, if it reaches one.\<close>

definition target :: "hal_globals \<Rightarrow> poll_context \<Rightarrow> int \<Rightarrow> (hw_device \<times> int) option" where
  "target g ctx handle =
     (case get_v0_device_by_handle g ctx handle of
        Some d \<Rightarrow> if get_local_handle (handles g) handle \<ge> 0
                  then Some (d, get_local_handle (handles g) handle) else None
      | None \<Rightarrow> None)"

lemma activate_target [dispatch_simps]:
  "activate env g ctx handle enabled io =
     (case target g ctx handle of
        Some (d, l) \<Rightarrow> device_call env (Activate (dev_ptr d) l enabled) io
      | None \<Rightarrow> (- EINVAL, io))"
  by (simp add: activate_def target_def Let_def split: option.splits)

lemma setDelay_target [dispatch_simps]:
  "setDelay env g ctx handle ns io =
     (case target g ctx handle of
        Some (d, l) \<Rightarrow> device_call env (SetDelay (dev_ptr d) l ns) io
      | None \<Rightarrow> (- EINVAL, io))"
  by (simp add: setDelay_def target_def Let_def split: option.splits)

lemma flush_target [dispatch_simps]:
  "flush env K g ctx handle io =
     (case target g ctx handle of
        Some (d, l) \<Rightarrow>
          if halIsAPILevelCompliant g ctx handle (SENSORS_DEVICE_API_VERSION_1_1 K)
          then device_call env (Flush (dev_ptr d) l) io else (- EINVAL, io)
      | None \<Rightarrow> (- EINVAL, io))"
  by (simp add: flush_def target_def get_v1_v0 Let_def split: option.splits)

lemma inject_target [dispatch_simps]:
  "inject_sensor_data env K g ctx dev data io =
     (case target g ctx (ev_sensor data) of
        Some (d, l) \<Rightarrow>
          if halIsAPILevelCompliant g ctx (ev_sensor data) (SENSORS_DEVICE_API_VERSION_1_4 K)
          then device_call env (InjectSensorData (dev_ptr d) dev data) io else (- EINVAL, io)
      | None \<Rightarrow> (- EINVAL, io))"
  by (simp add: inject_sensor_data_def target_def get_v1_v0 Let_def split: option.splits)

lemma target_device: "target g ctx handle = Some (d, l) \<Longrightarrow> d \<in> set (sub_hw_devices ctx)"
  by (auto simp: target_def get_v0_device_by_handle_def Let_def split: option.splits if_splits)

lemma target_unknown: "\<not> known g handle \<Longrightarrow> target g ctx handle = None"
  by (simp add: target_def dispatch_simps)

lemma target_frame [simp]:
  "target (g\<lparr>sensors_enable_state := es\<rparr>) ctx handle = target g ctx handle"
  "target (g\<lparr>sensors_batch_list := bs\<rparr>) ctx handle = target g ctx handle"
  "halIsAPILevelCompliant (g\<lparr>sensors_enable_state := es\<rparr>) ctx handle v =
     halIsAPILevelCompliant g ctx handle v"
  "halIsAPILevelCompliant (g\<lparr>sensors_batch_list := bs\<rparr>) ctx handle v =
     halIsAPILevelCompliant g ctx handle v"
  by (simp_all add: target_def get_v0_device_by_handle_def halIsAPILevelCompliant_def
      get_device_version_by_handle_def split: option.split)

text \<open>Through \<open>device__batch\<close>, \<open>batch\<close> never reaches its fallback.\<close>

lemma batch_compliant:
  assumes "halIsAPILevelCompliant g ctx handle (SENSORS_DEVICE_API_VERSION_1_1 K)"
  shows "batch env K g ctx handle flags period_ns timeout io =
     Inr (case target g ctx handle of
            Some (d, l) \<Rightarrow> device_call env (Batch (dev_ptr d) l flags period_ns timeout) io
          | None \<Rightarrow> (- EINVAL, io))"
  using assms by (simp add: batch_def target_def get_v1_v0 Let_def split: option.splits)

lemma device__batch_compliant:
  assumes "halIsAPILevelCompliant g ctx handle (SENSORS_DEVICE_API_VERSION_1_1 K)"
  shows "device__batch env K g ctx handle flags period_ns timeout io =
     (let (r, io1) = (case target g ctx handle of
            Some (d, l) \<Rightarrow> device_call env (Batch (dev_ptr d) l flags period_ns timeout) io
          | None \<Rightarrow> (- EINVAL, io)) in Inr (r, g, io1))"
  using assms by (simp add: device__batch_def batch_compliant split: prod.splits)

section \<open>Lemmas: safety of the tables\<close>

text \<open>The calls of a client, as data, and one call as a step of the multihal.\<close>

datatype client_call =
    CActivate int int
  | CSetDelay int int
  | CBatch int int int int
  | CFlush int
  | CInject nat sensors_event

fun call_handle :: "client_call \<Rightarrow> int" where
  "call_handle (CActivate h _) = h"
| "call_handle (CSetDelay h _) = h"
| "call_handle (CBatch h _ _ _) = h"
| "call_handle (CFlush h) = h"
| "call_handle (CInject _ e) = ev_sensor e"

fun client_step :: "hal_env \<Rightarrow> hal_h \<Rightarrow> poll_context \<Rightarrow> client_call \<Rightarrow> hal_globals \<times> call_log \<Rightarrow>
    hal_error + int \<times> hal_globals \<times> call_log" where
  "client_step env K ctx (CActivate h e) (g, io) = device__activate env K g ctx h e io"
| "client_step env K ctx (CSetDelay h ns) (g, io) =
     (let (r, io') = device__setDelay env g ctx h ns io in Inr (r, g, io'))"
| "client_step env K ctx (CBatch h f p t) (g, io) = device__batch env K g ctx h f p t io"
| "client_step env K ctx (CFlush h) (g, io) =
     (let (r, io') = device__flush env K g ctx h io in Inr (r, g, io'))"
| "client_step env K ctx (CInject dev e) (g, io) =
     (let (r, io') = device__inject_sensor_data env K g ctx dev e io in Inr (r, g, io'))"

fun client_run :: "hal_env \<Rightarrow> hal_h \<Rightarrow> poll_context \<Rightarrow> client_call list \<Rightarrow> hal_globals \<times> call_log \<Rightarrow>
    hal_error + hal_globals \<times> call_log" where
  "client_run env K ctx [] st = Inr st"
| "client_run env K ctx (c # cs) st =
     (case client_step env K ctx c st of
        Inl e \<Rightarrow> Inl e
      | Inr (r, st') \<Rightarrow> client_run env K ctx cs st')"

lemma device__activate_known:
  assumes "hal_inv g" "known g handle"
  shows "\<exists>r g' io'. device__activate env K g ctx handle enabled io = Inr (r, g', io') \<and>
    hal_inv g' \<and> handles g' = handles g"
proof -
  have "in_table (sensors_enable_state g) (handle - 1)" "in_table (sensors_batch_list g) (handle - 1)"
    using assms known_iff in_table_batch by auto
  with assms(1) show ?thesis
    by (auto simp: device__activate_def Let_def hal_inv_def split: prod.splits)
qed

lemma device__activate_unknown:
  assumes "hal_inv g" "\<not> known g handle"
  shows "device__activate env K g ctx handle enabled io = Inl (OutOfBounds (handle - 1))"
  using assms known_iff [OF assms(1), of handle]
  by (simp add: device__activate_def dispatch_simps target_unknown)

lemma device__batch_known:
  assumes "hal_inv g" "known g handle"
  shows "\<exists>r g' io'. device__batch env K g ctx handle flags period_ns timeout io = Inr (r, g', io') \<and>
    hal_inv g' \<and> handles g' = handles g"
proof (cases "halIsAPILevelCompliant g ctx handle (SENSORS_DEVICE_API_VERSION_1_1 K)")
  case True
  with assms(1) show ?thesis by (auto simp: device__batch_compliant Let_def split: prod.splits)
next
  case False
  have "in_table (sensors_enable_state g) (handle - 1)" "in_table (sensors_batch_list g) (handle - 1)"
    using assms known_iff in_table_batch by auto
  with False assms(1) show ?thesis
    by (auto simp: device__batch_def Let_def hal_inv_def split: prod.splits)
qed

lemma device__batch_unknown:
  assumes "hal_inv g" "\<not> known g handle"
  shows "device__batch env K g ctx handle flags period_ns timeout io = Inl (OutOfBounds (handle - 1))"
  using assms known_iff [OF assms(1), of handle]
  by (simp add: device__batch_def dispatch_simps)

lemma client_step_known:
  assumes "hal_inv g" "known g (call_handle c)"
  shows "\<exists>r g' io'. client_step env K ctx c (g, io) = Inr (r, g', io') \<and>
    hal_inv g' \<and> handles g' = handles g"
  using assms device__activate_known device__batch_known
  by (cases c) (auto simp: Let_def split: prod.splits)

lemma client_run_known:
  assumes "hal_inv g" "\<forall>c \<in> set cs. known g (call_handle c)"
  shows "\<exists>g' io'. client_run env K ctx cs (g, io) = Inr (g', io') \<and>
    hal_inv g' \<and> handles g' = handles g"
  using assms
proof (induction cs arbitrary: g io)
  case (Cons c cs)
  obtain r g1 io1 where 1: "client_step env K ctx c (g, io) = Inr (r, g1, io1)"
    "hal_inv g1" "handles g1 = handles g"
    using client_step_known Cons.prems by (metis list.set_intros(1))
  moreover have "\<forall>c \<in> set cs. known g1 (call_handle c)"
    using Cons.prems(2) 1(3) by (simp add: known_def)
  ultimately show ?case using Cons.IH [of g1 io1] by simp
qed simp

section \<open>Lemmas: which devices are called\<close>

definition call_device :: "dev_call \<Rightarrow> nat" where
  "call_device c =
     (case c of
        Activate d _ _ \<Rightarrow> d
      | SetDelay d _ _ \<Rightarrow> d
      | Batch d _ _ _ _ \<Rightarrow> d
      | Flush d _ \<Rightarrow> d
      | InjectSensorData d _ _ \<Rightarrow> d
      | CloseDevice d \<Rightarrow> d)"

text \<open>Whatever a client asks, only devices of the context are called.\<close>

lemma client_step_devices:
  assumes "client_step env K ctx c (g, io) = Inr (r, g', io')"
  shows "\<exists>cs. io' = io @ cs \<and> call_device ` set cs \<subseteq> dev_ptr ` set (sub_hw_devices ctx)"
proof (cases c)
  case (CActivate h e)
  with assms show ?thesis
    by (auto simp: device__activate_def dispatch_simps device_call_def Let_def call_device_def
        dest!: target_device split: if_splits prod.splits option.splits)
next
  case (CSetDelay h ns)
  with assms show ?thesis
    by (auto simp: device__setDelay_def setDelay_target device_call_def call_device_def
        dest!: target_device split: option.splits)
next
  case (CBatch h f p t)
  show ?thesis
  proof (cases "halIsAPILevelCompliant g ctx h (SENSORS_DEVICE_API_VERSION_1_1 K)")
    case True
    with assms CBatch show ?thesis
      by (auto simp: device__batch_compliant device_call_def call_device_def
          dest!: target_device split: option.splits)
  next
    case False
    with assms CBatch show ?thesis
      by (auto simp: device__batch_def setDelay_target device_call_def call_device_def Let_def
          dest!: target_device split: if_splits option.splits prod.splits)
  qed
next
  case (CFlush h)
  with assms show ?thesis
    by (auto simp: device__flush_def flush_target device_call_def call_device_def
        dest!: target_device split: option.splits if_splits)
next
  case (CInject dev e)
  with assms show ?thesis
    by (auto simp: device__inject_sensor_data_def inject_target device_call_def call_device_def
        dest!: target_device split: option.splits if_splits)
qed

lemma client_run_devices:
  assumes "client_run env K ctx cs (g, io) = Inr (g', io')"
  shows "\<exists>cs. io' = io @ cs \<and> call_device ` set cs \<subseteq> dev_ptr ` set (sub_hw_devices ctx)"
  using assms
proof (induction cs arbitrary: g io)
  case (Cons c cs)
  then obtain r g1 io1 where 1: "client_step env K ctx c (g, io) = Inr (r, g1, io1)"
    "client_run env K ctx cs (g1, io1) = Inr (g', io')"
    by (auto split: sum.splits)
  from client_step_devices [OF 1(1)] Cons.IH [OF 1(2)] show ?case
    by (metis append.assoc image_Un set_append Un_least)
qed simp

section \<open>Lemmas: after start-up\<close>

lemma startup_inv:
  assumes "env_stable env" "startup env K name initial_globals = Inr (ctx, g)"
  shows "hal_inv g"
  using startupD [OF assms] by (simp add: hal_inv_def started_handles_inv started_next)

lemma startup_known:
  assumes "env_stable env" "startup env K name initial_globals = Inr (ctx, g)"
  shows "known g handle \<longleftrightarrow> 1 \<le> handle \<and> handle \<le> global_sensors_count g"
  unfolding known_def startupD(3) [OF assms] startupD(5) [OF assms] by (rule started_known)

definition opened_devices :: "hal_env \<Rightarrow> string \<Rightarrow> hw_device list" where
  "opened_devices env name = map (device_of env name) (filter (opens env name) (loaded env))"

lemma started_devices: "sub_hw_devices (started env name) = opened_devices env name"
  by (simp add: started_def open_modules_devices empty_context_def opened_devices_def)

text \<open>The module index counts all modules, the device index only those that opened.\<close>

lemma startup_lookups:
  assumes "env_stable env" "startup env K name initial_globals = Inr (ctx, g)"
    and "i < length (global_located env)" "global_located env ! i = (k, m, s)"
  shows "0 \<le> k" "get_local_handle (handles g) (1 + int i) = s_handle s"
    "get_v0_device_by_handle g ctx (1 + int i) =
       (if k < int (length (opened_devices env name)) then Some (opened_devices env name ! nat k) else None)"
proof -
  have own: "global_to_full (handles g) (1 + int i) = Some (FullHandle k (s_handle s))"
    using started_owner [OF assms(3,4)] startupD(3) [OF assms(1,2)] by simp
  have "(k, m, s) \<in> set (global_located env)" using assms(3,4) by (metis nth_mem)
  then show "0 \<le> k" by (auto simp: global_located_def dest!: located_module)
  moreover have "sub_hw_devices ctx = opened_devices env name"
    using startupD(2) [OF assms(1,2)] by (simp add: started_devices)
  ultimately show "get_local_handle (handles g) (1 + int i) = s_handle s"
    "get_v0_device_by_handle g ctx (1 + int i) =
       (if k < int (length (opened_devices env name)) then Some (opened_devices env name ! nat k) else None)"
    using own by (simp_all add: get_local_handle_def get_module_index_def get_v0_device_by_handle_def)
qed

text \<open>A call reaches a device if the device is there and the local handle is not negative.\<close>

lemma startup_target:
  assumes "env_stable env" "startup env K name initial_globals = Inr (ctx, g)"
    and "i < length (global_located env)" "global_located env ! i = (k, m, s)"
  shows "target g ctx (1 + int i) =
    (if k < int (length (opened_devices env name)) \<and> 0 \<le> s_handle s
     then Some (opened_devices env name ! nat k, s_handle s) else None)"
  using startup_lookups [OF assms] by (simp add: target_def)

text \<open>If the module and all the modules before it opened, the two indices agree.\<close>

lemma opened_devices_nth:
  assumes "j < length (loaded env)" "list_all (opens env name) (take (Suc j) (loaded env))"
  shows "j < length (opened_devices env name) \<and>
    opened_devices env name ! j = device_of env name (loaded env ! j)"
proof -
  let ?ms = "take (Suc j) (loaded env)"
  have "filter (opens env name) ?ms = ?ms"
    using assms(2) by (simp add: list_all_iff filter_id_conv)
  then have "filter (opens env name) (loaded env) =
      ?ms @ filter (opens env name) (drop (Suc j) (loaded env))"
    by (metis append_take_drop_id filter_append)
  moreover have "length ?ms = Suc j" using assms(1) by simp
  ultimately show ?thesis using assms(1) by (simp add: opened_devices_def nth_append)
qed

lemma startup_device_right:
  assumes "env_stable env" "startup env K name initial_globals = Inr (ctx, g)"
    and "i < length (global_located env)" "global_located env ! i = (k, m, s)"
    and "list_all (opens env name) (take (Suc (nat k)) (loaded env))"
  shows "k < int (length (opened_devices env name)) \<and> opened_devices env name ! nat k = device_of env name m"
proof -
  have "(k, m, s) \<in> set (global_located env)" using assms(3,4) by (metis nth_mem)
  then obtain j where j: "j < length (loaded env)" "k = int j" "m = loaded env ! j"
    by (auto simp: global_located_def dest!: located_module)
  with opened_devices_nth [OF j(1), of name] assms(5) show ?thesis by simp
qed

lemma startup_target_right:
  assumes "env_stable env" "startup env K name initial_globals = Inr (ctx, g)"
    and "i < length (global_located env)" "global_located env ! i = (k, m, s)" "0 \<le> s_handle s"
    and "list_all (opens env name) (take (Suc (nat k)) (loaded env))"
  shows "target g ctx (1 + int i) = Some (device_of env name m, s_handle s)"
  using startup_target [OF assms(1-4)] startup_device_right [OF assms(1-4,6)] assms(5) by simp

section \<open>Lemmas: sub-HALs without batch\<close>

text \<open>
  A period asked for while such a sensor is off is kept, as an \<open>int\<close>, and set once the
  sensor has been switched on.
\<close>

lemma legacy_batch_off:
  assumes "hal_inv g" "known g handle"
    and "\<not> halIsAPILevelCompliant g ctx handle (SENSORS_DEVICE_API_VERSION_1_1 K)"
    and "sensors_enable_state g ! nat (handle - 1) = 0"
  shows "device__batch env K g ctx handle flags period_ns timeout io =
    Inr (0, g\<lparr>sensors_batch_list := (sensors_batch_list g)[nat (handle - 1) :=
               update_batch_data handle flags period_ns timeout
                 (sensors_batch_list g ! nat (handle - 1))]\<rparr>, io)"
  using assms known_iff [OF assms(1), of handle] in_table_batch [OF assms(1), of "handle - 1"]
  by (simp add: device__batch_def Let_def)

lemma legacy_activate_on:
  assumes "hal_inv g" "known g handle"
    and "\<not> halIsAPILevelCompliant g ctx handle (SENSORS_DEVICE_API_VERSION_1_1 K)"
    and "target g ctx handle = Some (d, l)" "enabled \<noteq> 0"
    and "\<not> bd_empty (sensors_batch_list g ! nat (handle - 1))"
  shows "\<exists>r g'. device__activate env K g ctx handle enabled io =
      Inr (r, g', io @ [Activate (dev_ptr d) l enabled,
                        SetDelay (dev_ptr d) l
                          (bd_period_ns (sensors_batch_list g ! nat (handle - 1)))]) \<and>
    bd_empty (sensors_batch_list g' ! nat (handle - 1)) \<and>
    sensors_enable_state g' = (sensors_enable_state g)[nat (handle - 1) := enabled] \<and>
    handles g' = handles g \<and> hal_inv g'"
proof -
  have t: "in_table (sensors_enable_state g) (handle - 1)" "in_table (sensors_batch_list g) (handle - 1)"
    using assms(1,2) known_iff in_table_batch by auto
  then have "nat (handle - 1) < length (sensors_batch_list g)" by (auto simp: in_table_def)
  with t assms show ?thesis
    by (auto simp: device__activate_def dispatch_simps device_call_def hal_inv_def Let_def)
qed

lemma legacy_activate_empty:
  assumes "hal_inv g" "known g handle"
    and "\<not> halIsAPILevelCompliant g ctx handle (SENSORS_DEVICE_API_VERSION_1_1 K)"
    and "target g ctx handle = Some (d, l)"
    and "enabled = 0 \<or> bd_empty (sensors_batch_list g ! nat (handle - 1))"
  shows "\<exists>r g'. device__activate env K g ctx handle enabled io =
      Inr (r, g', io @ [Activate (dev_ptr d) l enabled]) \<and>
    sensors_batch_list g' = sensors_batch_list g \<and>
    sensors_enable_state g' = (sensors_enable_state g)[nat (handle - 1) := enabled] \<and>
    handles g' = handles g \<and> hal_inv g'"
proof -
  have t: "in_table (sensors_enable_state g) (handle - 1)" "in_table (sensors_batch_list g) (handle - 1)"
    using assms(1,2) known_iff in_table_batch by auto
  with assms show ?thesis
    by (auto simp: device__activate_def dispatch_simps device_call_def hal_inv_def Let_def)
qed


text \<open>The lookups read nothing but the registry.\<close>

lemma lookups_cong:
  assumes "handles h = handles g"
  shows "known h = known g" "target h = target g"
    "halIsAPILevelCompliant h = halIsAPILevelCompliant g"
  unfolding fun_eq_iff known_def target_def get_v0_device_by_handle_def
    halIsAPILevelCompliant_def get_device_version_by_handle_def assms
  by simp_all

text \<open>When a device counts as compliant: the error value \<open>-1\<close> does not.\<close>

lemma target_compliant:
  "target g ctx handle = Some (d, l) \<Longrightarrow>
     halIsAPILevelCompliant g ctx handle level \<longleftrightarrow> dev_version d \<noteq> -1 \<and> dev_version d \<ge> level"
  by (auto simp: target_def halIsAPILevelCompliant_def get_device_version_by_handle_def
      Let_def split: option.splits if_splits)

lemma modern_calls:
  assumes "target g ctx handle = Some (d, l)" "dev_version d \<noteq> -1"
    and "dev_version d \<ge> SENSORS_DEVICE_API_VERSION_1_1 K"
  shows "device__activate env K g ctx handle enabled io =
      Inr (env_call env io (Activate (dev_ptr d) l enabled), g, io @ [Activate (dev_ptr d) l enabled])"
    and "device__batch env K g ctx handle flags period_ns timeout io =
      Inr (env_call env io (Batch (dev_ptr d) l flags period_ns timeout), g,
           io @ [Batch (dev_ptr d) l flags period_ns timeout])"
    and "device__flush env K g ctx handle io =
      (env_call env io (Flush (dev_ptr d) l), io @ [Flush (dev_ptr d) l])"
  using assms target_compliant [OF assms(1), of "SENSORS_DEVICE_API_VERSION_1_1 K"]
  by (simp_all add: device__activate_def device__batch_compliant device__flush_def
      activate_target flush_target device_call_def)

text \<open>With a negative local handle every call is refused.\<close>

lemma refused_calls:
  assumes "get_v0_device_by_handle g ctx handle = Some d" "get_local_handle (handles g) handle < 0"
    "dev_version d \<noteq> -1" "dev_version d \<ge> SENSORS_DEVICE_API_VERSION_1_1 K"
  shows "device__activate env K g ctx handle enabled io = Inr (- EINVAL, g, io)"
    "device__batch env K g ctx handle flags period_ns timeout io = Inr (- EINVAL, g, io)"
    "device__flush env K g ctx handle io = (- EINVAL, io)"
  using assms
  by (simp_all add: device__activate_def activate_def device__batch_def batch_def device__flush_def flush_def
      get_v1_v0 halIsAPILevelCompliant_def get_device_version_by_handle_def)

text \<open>What each call does in any state, by the device and the local handle its handle leads to.\<close>

definition modern :: "hal_h \<Rightarrow> hw_device \<Rightarrow> bool" where
  "modern K d \<longleftrightarrow> dev_version d \<noteq> -1 \<and> dev_version d \<ge> SENSORS_DEVICE_API_VERSION_1_1 K"

lemma calls_by_target:
  assumes "hal_inv g" "known g handle"
  shows "target g ctx handle = None \<Longrightarrow>
      device__setDelay env g ctx handle ns io = (- EINVAL, io) \<and>
      device__flush env K g ctx handle io = (- EINVAL, io) \<and>
      (\<exists>r g'. device__activate env K g ctx handle enabled io = Inr (r, g', io)) \<and>
      (\<exists>r g'. device__batch env K g ctx handle flags period timeout io = Inr (r, g', io))"
    and "target g ctx handle = Some (d, l) \<Longrightarrow>
      device__setDelay env g ctx handle ns io = device_call env (SetDelay (dev_ptr d) l ns) io \<and>
      device__flush env K g ctx handle io =
        (if modern K d then device_call env (Flush (dev_ptr d) l) io else (- EINVAL, io)) \<and>
      (\<exists>r g' more. device__activate env K g ctx handle enabled io =
          Inr (r, g', io @ Activate (dev_ptr d) l enabled # more) \<and>
        (more = [] \<or> \<not> modern K d \<and> (\<exists>p. more = [SetDelay (dev_ptr d) l p]))) \<and>
      (\<exists>r g'. device__batch env K g ctx handle flags period timeout io =
         Inr (r, g', io @ (if modern K d then [Batch (dev_ptr d) l flags period timeout]
           else if sensors_enable_state g ! nat (handle - 1) = 0 then []
           else [SetDelay (dev_ptr d) l period])))"
proof -
  have t: "in_table (sensors_enable_state g) (handle - 1)" "in_table (sensors_batch_list g) (handle - 1)"
    using assms known_iff in_table_batch by auto
  show "target g ctx handle = None \<Longrightarrow>
      device__setDelay env g ctx handle ns io = (- EINVAL, io) \<and>
      device__flush env K g ctx handle io = (- EINVAL, io) \<and>
      (\<exists>r g'. device__activate env K g ctx handle enabled io = Inr (r, g', io)) \<and>
      (\<exists>r g'. device__batch env K g ctx handle flags period timeout io = Inr (r, g', io))"
    using t by (auto simp: device__setDelay_def device__flush_def device__activate_def device__batch_def
        batch_compliant dispatch_simps flush_target Let_def)
  assume target: "target g ctx handle = Some (d, l)"
  have compliant: "halIsAPILevelCompliant g ctx handle (SENSORS_DEVICE_API_VERSION_1_1 K) \<longleftrightarrow> modern K d"
    by (simp add: target_compliant [OF target] modern_def)
  show "device__setDelay env g ctx handle ns io = device_call env (SetDelay (dev_ptr d) l ns) io \<and>
      device__flush env K g ctx handle io =
        (if modern K d then device_call env (Flush (dev_ptr d) l) io else (- EINVAL, io)) \<and>
      (\<exists>r g' more. device__activate env K g ctx handle enabled io =
          Inr (r, g', io @ Activate (dev_ptr d) l enabled # more) \<and>
        (more = [] \<or> \<not> modern K d \<and> (\<exists>p. more = [SetDelay (dev_ptr d) l p]))) \<and>
      (\<exists>r g'. device__batch env K g ctx handle flags period timeout io =
         Inr (r, g', io @ (if modern K d then [Batch (dev_ptr d) l flags period timeout]
           else if sensors_enable_state g ! nat (handle - 1) = 0 then []
           else [SetDelay (dev_ptr d) l period])))"
    using t target by (auto simp: device__setDelay_def device__flush_def device__activate_def device__batch_def
        batch_compliant dispatch_simps flush_target device_call_def compliant Let_def)
qed

text \<open>The calls of a client keep the registry and the lengths of the tables.\<close>

lemma client_step_keeps:
  assumes "hal_inv g" "client_step env K ctx c (g, io) = Inr (r, g', io')"
  shows "hal_inv g' \<and> handles g' = handles g"
proof (cases "known g (call_handle c)")
  case True
  with client_step_known [OF assms(1), of c env K ctx io] assms(2) show ?thesis by auto
next
  case False
  with assms device__activate_unknown [OF assms(1)] device__batch_unknown [OF assms(1)] show ?thesis
    by (cases c) (auto simp: Let_def split: prod.splits)
qed

lemma client_run_keeps:
  assumes "hal_inv g" "client_run env K ctx cs (g, io) = Inr (g', io')"
  shows "hal_inv g' \<and> handles g' = handles g"
  using assms
proof (induction cs arbitrary: g io)
  case (Cons c cs)
  then obtain r g1 io1 where 1: "client_step env K ctx c (g, io) = Inr (r, g1, io1)"
    "client_run env K ctx cs (g1, io1) = Inr (g', io')"
    by (auto split: sum.splits)
  with client_step_keeps [OF Cons.prems(1) 1(1)] Cons.IH [of g1 io1] show ?case by simp
qed simp

text \<open>
  An environment whose first module reports no sensors and cannot be opened; two more
  modules with one sensor each follow.
\<close>

definition gap_env :: hal_env where
  "gap_env = demo_env
     \<lparr>env_file := (\<lambda>p. Some (unlines [''a.so'', ''b.so''] @ ''c.so'')),
      env_dlopen := (\<lambda>p. if p = ''a.so'' then Some 1 else if p = ''b.so'' then Some 2 else Some 3),
      env_get_sensors_list := (\<lambda>n m. if m = 10 then [] else [demo_sensor (int m) 1]),
      env_open := (\<lambda>m name. (if m = 10 then -1 else 0,
                             \<lparr>dev_ptr = 10 * m, dev_version = 0x01040001\<rparr>))\<rparr>"

lemma gap_stable: "env_stable gap_env"
  by code_simp

lemma gap_located: "global_located gap_env = [(1, 20, demo_sensor 20 1), (2, 30, demo_sensor 30 1)]"
  by code_simp

lemma gap_devices:
  "opened_devices gap_env name =
     [\<lparr>dev_ptr = 200, dev_version = 0x01040001\<rparr>, \<lparr>dev_ptr = 300, dev_version = 0x01040001\<rparr>]"
proof -
  have "loaded gap_env = [10, 20, 30]" by code_simp
  then show ?thesis by (simp add: opened_devices_def opens_def device_of_def gap_env_def)
qed

lemma gap_started:
  "\<exists>g. startup gap_env demo_h name initial_globals = Inr (started gap_env name, g)"
proof -
  have "loaded gap_env = [10, 20, 30]" by code_simp
  then have "sensor_modules_open gap_env name"
    by (simp add: sensor_modules_open_def opens_def gap_env_def)
  from startup_ok [OF gap_stable this] show ?thesis by blast
qed

section \<open>Properties\<close>

text \<open>
  C10. Calls go to the right sub-HAL. After start-up, take the sensor at position \<open>i\<close>, from
  module \<open>m\<close> at index \<open>k\<close>, and let that module and all before it have opened. If the sensor's own
  handle is not negative, a call on the handle \<open>1 + i\<close> is one call of the device of \<open>m\<close> with the
  sensor's own handle: for \<open>setDelay\<close> with any device, and for \<open>activate\<close>, \<open>batch\<close> and \<open>flush\<close> with one
  of version 1.1 or later, which then change nothing else and return what the device returns. A
  sensor whose own handle is negative is listed too, but the same calls on it are all refused
  with \<open>- EINVAL\<close>, change nothing and call no device.
\<close>

theorem calls_reach_their_sensor:
  assumes "env_stable env" "startup env K name initial_globals = Inr (ctx, g)"
    and "i < length (global_located env)" "global_located env ! i = (k, m, s)"
    and "list_all (opens env name) (take (Suc (nat k)) (loaded env))"
    and "d = device_of env name m" "v11 = SENSORS_DEVICE_API_VERSION_1_1 K" "0 < v11"
  shows "(0 \<le> s_handle s \<longrightarrow>
      device__setDelay env g ctx (1 + int i) ns io =
        device_call env (SetDelay (dev_ptr d) (s_handle s) ns) io \<and>
      (dev_version d \<ge> v11 \<longrightarrow>
        device__activate env K g ctx (1 + int i) enabled io =
          (let (r, io') = device_call env (Activate (dev_ptr d) (s_handle s) enabled) io
           in Inr (r, g, io')) \<and>
        device__batch env K g ctx (1 + int i) flags period_ns timeout io =
          (let (r, io') = device_call env (Batch (dev_ptr d) (s_handle s) flags period_ns timeout) io
           in Inr (r, g, io')) \<and>
        device__flush env K g ctx (1 + int i) io =
          device_call env (Flush (dev_ptr d) (s_handle s)) io)) \<and>
    (s_handle s < 0 \<longrightarrow>
      device__setDelay env g ctx (1 + int i) ns io = (- EINVAL, io) \<and>
      (dev_version d \<ge> v11 \<longrightarrow>
        device__activate env K g ctx (1 + int i) enabled io = Inr (- EINVAL, g, io) \<and>
        device__batch env K g ctx (1 + int i) flags period_ns timeout io = Inr (- EINVAL, g, io) \<and>
        device__flush env K g ctx (1 + int i) io = (- EINVAL, io)))"
proof -
  have v: "dev_version d \<noteq> -1" "dev_version d \<ge> SENSORS_DEVICE_API_VERSION_1_1 K" if "dev_version d \<ge> v11"
    using that assms(7,8) by auto
  note t = startup_target [OF assms(1-4)] and right = startup_device_right [OF assms(1-5)]
  have delay: "device__setDelay env g ctx (1 + int i) ns io =
      (if 0 \<le> s_handle s then device_call env (SetDelay (dev_ptr d) (s_handle s) ns) io else (- EINVAL, io))"
    using t right by (simp add: device__setDelay_def setDelay_target assms(6))
  have "target g ctx (1 + int i) = Some (d, s_handle s)" if "0 \<le> s_handle s"
    using t right that by (simp add: assms(6))
  note calls = modern_calls [OF this]
  have "get_v0_device_by_handle g ctx (1 + int i) = Some d"
    using startup_lookups(3) [OF assms(1-4)] right by (simp add: assms(6))
  note refused = refused_calls [OF this, unfolded startup_lookups(2) [OF assms(1-4)]]
  show ?thesis using delay calls refused v by (simp add: device_call_def)
qed

theorem calls_reach_their_sensor_witness:
  "\<exists>ctx g. startup demo_env demo_h ''poll'' initial_globals = Inr (ctx, g) \<and>
     device__activate demo_env demo_h g ctx 3 1 [] = Inr (0, g, [Activate 200 7 1]) \<and>
     device__setDelay demo_env g ctx 1 20 [] = (0, [SetDelay 100 5 20])"
proof -
  obtain g where g: "startup demo_env demo_h ''poll'' initial_globals = Inr (started demo_env ''poll'', g)"
    using demo_started by blast
  have dev: "device_of demo_env ''poll'' 10 = \<lparr>dev_ptr = 100, dev_version = 0x01000001\<rparr>"
    "device_of demo_env ''poll'' 20 = \<lparr>dev_ptr = 200, dev_version = 0x01040001\<rparr>"
    by code_simp+
  have call: "device_call demo_env c [] = (0, [c])" for c
    by (simp add: device_call_def demo_env_def)
  have v: "SENSORS_DEVICE_API_VERSION_1_1 demo_h = 0x01010001" by (simp add: demo_h_def)
  have opened: "list_all (opens demo_env ''poll'') (take n (loaded demo_env))" for n
    by (simp add: list_all_iff opens_def demo_env_def)
  note at = calls_reach_their_sensor [OF demo_stable g _ _ opened refl refl]
  have "device__activate demo_env demo_h g (started demo_env ''poll'') 3 1 [] = Inr (0, g, [Activate 200 7 1])"
    using at [of 2 1 20 "demo_sensor 7 5"] by (simp add: demo_located demo_sensor_def dev call v)
  moreover have "device__setDelay demo_env g (started demo_env ''poll'') 1 20 [] = (0, [SetDelay 100 5 20])"
    using at [of 0 0 10 "demo_sensor 5 8"] by (simp add: demo_located demo_sensor_def dev call v)
  ultimately show ?thesis using g by blast
qed

text \<open>
  C11. The vector of devices is parallel to the vector of modules only while all modules
  open. In general, after any calls of the client, each of \<open>setDelay\<close>, \<open>activate\<close>, \<open>batch\<close> and \<open>flush\<close> on a
  sensor of the module at index \<open>k\<close> goes to the \<open>k\<close>-th device that opened, with the sensor's own
  handle, and to no other: after a module without sensors that failed to open, it is another
  module's device. No device is called, and \<open>setDelay\<close> and \<open>flush\<close> return \<open>- EINVAL\<close>, if there are not so
  many devices or the sensor's own handle is negative. (\<open>flush\<close> is refused by a device before version
  1.1, on which \<open>batch\<close> becomes \<open>setDelay\<close>, or nothing while the sensor is off.)
\<close>

theorem calls_after_a_failed_open:
  assumes "env_stable env" "startup env K name initial_globals = Inr (ctx, g0)"
    and "client_run env K ctx cs (g0, io0) = Inr (g, io)"
    and "i < length (global_located env)" "global_located env ! i = (k, m, s)"
  shows "if k < int (length (opened_devices env name)) \<and> 0 \<le> s_handle s then
      let d = opened_devices env name ! nat k; l = s_handle s in
        device__setDelay env g ctx (1 + int i) ns io = device_call env (SetDelay (dev_ptr d) l ns) io \<and>
        device__flush env K g ctx (1 + int i) io =
          (if modern K d then device_call env (Flush (dev_ptr d) l) io else (- EINVAL, io)) \<and>
        (\<exists>r g' more. device__activate env K g ctx (1 + int i) enabled io =
            Inr (r, g', io @ Activate (dev_ptr d) l enabled # more) \<and>
          (more = [] \<or> \<not> modern K d \<and> (\<exists>p. more = [SetDelay (dev_ptr d) l p]))) \<and>
        (\<exists>r g'. device__batch env K g ctx (1 + int i) flags period timeout io =
           Inr (r, g', io @ (if modern K d then [Batch (dev_ptr d) l flags period timeout]
             else if sensors_enable_state g ! i = 0 then []
             else [SetDelay (dev_ptr d) l period])))
    else
      device__setDelay env g ctx (1 + int i) ns io = (- EINVAL, io) \<and>
      device__flush env K g ctx (1 + int i) io = (- EINVAL, io) \<and>
      (\<exists>r g'. device__activate env K g ctx (1 + int i) enabled io = Inr (r, g', io)) \<and>
      (\<exists>r g'. device__batch env K g ctx (1 + int i) flags period timeout io = Inr (r, g', io))"
proof -
  have inv: "hal_inv g" and h: "handles g = handles g0"
    using client_run_keeps [OF startup_inv [OF assms(1,2)] assms(3)] by auto
  have "known g0 (1 + int i)"
    using startup_known [OF assms(1,2)] startupD(5) [OF assms(1,2)] assms(4) by simp
  then have known: "known g (1 + int i)" by (simp add: lookups_cong [OF h])
  have "target g ctx (1 + int i) =
      (if k < int (length (opened_devices env name)) \<and> 0 \<le> s_handle s
       then Some (opened_devices env name ! nat k, s_handle s) else None)"
    unfolding lookups_cong(2) [OF h] by (rule startup_target [OF assms(1,2,4,5)])
  note target = this
  have "nat (1 + int i - 1) = i" by simp
  note calls = calls_by_target [OF inv known, of ctx, unfolded this]
  show ?thesis
  proof (cases "k < int (length (opened_devices env name)) \<and> 0 \<le> s_handle s")
    case True
    then show ?thesis
      using calls(2) [OF trans [OF target if_P]] by (simp add: Let_def)
  next
    case False
    then show ?thesis
      using calls(1) [OF trans [OF target if_not_P]] by (simp only: if_False not_False_eq_True simp_thms)
  qed
qed

theorem calls_after_a_failed_open_witness:
  "\<exists>ctx g. startup gap_env demo_h ''poll'' initial_globals = Inr (ctx, g) \<and>
     global_located gap_env ! 0 = (1, 20, demo_sensor 20 1) \<and>
     dev_ptr (device_of gap_env ''poll'' 20) = 200 \<and>
     device__setDelay gap_env g ctx 1 5 [] = (0, [SetDelay 300 20 5]) \<and>
     device__setDelay gap_env g ctx 2 5 [] = (- EINVAL, [])"
proof -
  obtain g where g: "startup gap_env demo_h ''poll'' initial_globals = Inr (started gap_env ''poll'', g)"
    using gap_started by blast
  have run: "client_run gap_env demo_h (started gap_env ''poll'') [] (g, []) = Inr (g, [])" by simp
  note at = calls_after_a_failed_open [OF gap_stable g run]
  have "device_call gap_env c [] = (0, [c])" for c
    by (simp add: device_call_def gap_env_def demo_env_def)
  then have "device__setDelay gap_env g (started gap_env ''poll'') 1 5 [] = (0, [SetDelay 300 20 5])"
    using at [of 0 1 20 "demo_sensor 20 1" 5]
    by (simp add: gap_located gap_devices demo_sensor_def Let_def)
  moreover have "device__setDelay gap_env g (started gap_env ''poll'') 2 5 [] = (- EINVAL, [])"
    using at [of 1 2 30 "demo_sensor 30 1" 5]
    by (simp add: gap_located gap_devices demo_sensor_def)
  moreover have "dev_ptr (device_of gap_env ''poll'' 20) = 200"
    by (simp add: device_of_def gap_env_def)
  ultimately show ?thesis using g gap_located by auto
qed

text \<open>
  C12. A client that keeps to the handles it was given cannot do harm: whatever sequence
  of calls it makes on handles between \<open>1\<close> and the count of the list, each call returns, the
  tables of legacy sensors keep their length, the registry is unchanged, and every device
  that is called is one that was opened.
\<close>

theorem known_handles_are_safe:
  assumes "env_stable env" "startup env K name initial_globals = Inr (ctx, g)"
    and "\<forall>c \<in> set cs. 1 \<le> call_handle c \<and> call_handle c \<le> global_sensors_count g"
  shows "\<exists>g' calls. client_run env K ctx cs (g, []) = Inr (g', calls) \<and>
    hal_inv g' \<and> handles g' = handles g \<and>
    call_device ` set calls \<subseteq> dev_ptr ` set (opened_devices env name)"
proof -
  have "\<forall>c \<in> set cs. known g (call_handle c)"
    using assms(3) startup_known [OF assms(1,2)] by blast
  from client_run_known [OF startup_inv [OF assms(1,2)] this]
  obtain g' calls where run: "client_run env K ctx cs (g, []) = Inr (g', calls)"
    "hal_inv g'" "handles g' = handles g"
    by blast
  with client_run_devices [OF run(1)] startupD(2) [OF assms(1,2)] show ?thesis
    by (auto simp: started_devices)
qed

theorem known_handles_are_safe_witness:
  "\<exists>ctx g g' calls. startup demo_env demo_h ''poll'' initial_globals = Inr (ctx, g) \<and>
     client_run demo_env demo_h ctx [CBatch 1 0 5 0, CActivate 1 1, CFlush 3, CActivate 2 1] (g, []) =
       Inr (g', calls) \<and> hal_inv g'"
proof -
  obtain g where g: "startup demo_env demo_h ''poll'' initial_globals = Inr (started demo_env ''poll'', g)"
    using demo_started by blast
  have "global_sensors_count g = 3" using startupD(5) [OF demo_stable g] by (simp add: demo_located)
  then have "\<forall>c \<in> set [CBatch 1 0 5 0, CActivate 1 1, CFlush 3, CActivate 2 1].
      1 \<le> call_handle c \<and> call_handle c \<le> global_sensors_count g"
    by simp
  from known_handles_are_safe [OF demo_stable g this] g show ?thesis by blast
qed

text \<open>
  C13. Other handles are not checked before they index the tables of legacy sensors:
  \<open>activate\<close> and \<open>batch\<close> then access them out of bounds, at the position one below the handle.
  The remaining calls refuse such a handle and call no device.
\<close>

theorem unknown_handles:
  assumes "env_stable env" "startup env K name initial_globals = Inr (ctx, g)"
    and "handle < 1 \<or> global_sensors_count g < handle"
  shows "device__activate env K g ctx handle enabled io = Inl (OutOfBounds (handle - 1)) \<and>
    device__batch env K g ctx handle flags period_ns timeout io = Inl (OutOfBounds (handle - 1)) \<and>
    device__setDelay env g ctx handle ns io = (- EINVAL, io) \<and>
    device__flush env K g ctx handle io = (- EINVAL, io) \<and>
    (ev_sensor data = handle \<longrightarrow>
      device__inject_sensor_data env K g ctx dev data io = (- EINVAL, io))"
proof -
  have u: "\<not> known g handle" using assms(3) startup_known [OF assms(1,2)] by auto
  then have "target g ctx handle = None" by (rule target_unknown)
  then show ?thesis
    using device__activate_unknown [OF startup_inv [OF assms(1,2)] u]
      device__batch_unknown [OF startup_inv [OF assms(1,2)] u]
    by (simp add: device__setDelay_def device__flush_def device__inject_sensor_data_def
        setDelay_target flush_target inject_target)
qed

theorem unknown_handles_witness:
  "\<exists>ctx g. startup demo_env demo_h ''poll'' initial_globals = Inr (ctx, g) \<and>
     device__activate demo_env demo_h g ctx 4 1 [] = Inl (OutOfBounds 3) \<and>
     device__flush demo_env demo_h g ctx 0 [] = (- EINVAL, [])"
proof -
  obtain g where g: "startup demo_env demo_h ''poll'' initial_globals = Inr (started demo_env ''poll'', g)"
    using demo_started by blast
  have "global_sensors_count g = 3" using startupD(5) [OF demo_stable g] by (simp add: demo_located)
  with g unknown_handles [OF demo_stable g, of 4 1 "[]"] unknown_handles [OF demo_stable g, of 0 1 "[]"]
  show ?thesis by auto
qed

text \<open>
  C14. The work-around for sub-HALs without \<open>batch\<close>. A sensor of such a sub-HAL that is off
  gets no call when its period is set, any number of times; switching it on then makes two
  calls, which switch it on and set the last period, converted to a C \<open>int\<close>, so that it is
  the requested one exactly if that fits; switching it on once more sets no period. While
  it is on, a period is set at once and unconverted.
\<close>

theorem legacy_period_is_deferred:
  assumes "hal_inv g" "known g handle"
    and "\<not> halIsAPILevelCompliant g ctx handle (SENSORS_DEVICE_API_VERSION_1_1 K)"
    and "target g ctx handle = Some (d, l)" "enabled \<noteq> 0"
    and "sensors_enable_state g ! nat (handle - 1) = 0"
  shows "\<exists>g1 g2 r3 g3 r4 g4.
    device__batch env K g ctx handle flags' period' timeout' io = Inr (0, g1, io) \<and>
    device__batch env K g1 ctx handle flags period timeout io = Inr (0, g2, io) \<and>
    device__activate env K g2 ctx handle enabled io =
      Inr (r3, g3, io @ [Activate (dev_ptr d) l enabled, SetDelay (dev_ptr d) l (to_int32 period)]) \<and>
    (to_int32 period = period \<longleftrightarrow> int32_range period) \<and>
    device__activate env K g3 ctx handle enabled io' =
      Inr (r4, g4, io' @ [Activate (dev_ptr d) l enabled]) \<and>
    device__batch env K g3 ctx handle flags period timeout io' =
      Inr (env_call env io' (SetDelay (dev_ptr d) l period), g3,
           io' @ [SetDelay (dev_ptr d) l period])"
proof -
  let ?i = "nat (handle - 1)" and ?old = "sensors_batch_list g ! nat (handle - 1)"
  let ?b1 = "update_batch_data handle flags' period' timeout' ?old"
  let ?b2 = "update_batch_data handle flags period timeout ?b1"
  let ?g1 = "g\<lparr>sensors_batch_list := (sensors_batch_list g)[?i := ?b1]\<rparr>"
  let ?g2 = "g\<lparr>sensors_batch_list := (sensors_batch_list g)[?i := ?b2]\<rparr>"
  have i: "?i < length (sensors_batch_list g)" "?i < length (sensors_enable_state g)"
    "in_table (sensors_enable_state g) (handle - 1)"
    using assms(1,2) known_iff by (auto simp: in_table_def hal_inv_def)
  have inv: "hal_inv ?g1" "hal_inv ?g2" using assms(1) by (simp_all add: hal_inv_def)
  have known: "known h handle" "target h ctx handle = Some (d, l)"
    "\<not> halIsAPILevelCompliant h ctx handle (SENSORS_DEVICE_API_VERSION_1_1 K)"
    if "handles h = handles g" for h
    using assms(2-4) lookups_cong [OF that] by simp_all
  have 1: "device__batch env K g ctx handle flags' period' timeout' io = Inr (0, ?g1, io)"
    by (rule legacy_batch_off [OF assms(1-3,6)])
  have 2: "device__batch env K ?g1 ctx handle flags period timeout io = Inr (0, ?g2, io)"
    using legacy_batch_off [OF inv(1) known(1,3)] assms(6) i
    by simp
  have "\<not> bd_empty (sensors_batch_list ?g2 ! ?i)" "bd_period_ns (sensors_batch_list ?g2 ! ?i) = to_int32 period"
    using i by (simp_all add: update_batch_data_def)
  then obtain r3 g3 where 3: "device__activate env K ?g2 ctx handle enabled io =
      Inr (r3, g3, io @ [Activate (dev_ptr d) l enabled, SetDelay (dev_ptr d) l (to_int32 period)])"
    "bd_empty (sensors_batch_list g3 ! ?i)" "handles g3 = handles g" "hal_inv g3"
    "sensors_enable_state g3 = (sensors_enable_state g)[?i := enabled]"
    using legacy_activate_on [OF inv(2) known(1,3,2) assms(5), where env = env and io = io] by auto
  obtain r4 g4 where 4: "device__activate env K g3 ctx handle enabled io' =
      Inr (r4, g4, io' @ [Activate (dev_ptr d) l enabled])"
    using legacy_activate_empty [OF 3(4) known(1,3,2) disjI2, where env = env and io = io' and
        enabled = enabled] 3(2,3) by auto
  have 5: "device__batch env K g3 ctx handle flags period timeout io' =
      Inr (env_call env io' (SetDelay (dev_ptr d) l period), g3, io' @ [SetDelay (dev_ptr d) l period])"
    using known [OF 3(3)] 3(5) i assms(5)
    by (simp add: device__batch_def in_table_def setDelay_target device_call_def)
  from 1 2 3(1) 4 5 to_int32_eq_iff show ?thesis by blast
qed

theorem legacy_period_is_deferred_witness:
  "\<exists>ctx g g1 g2 r3 g3. startup demo_env demo_h ''poll'' initial_globals = Inr (ctx, g) \<and>
     device__batch demo_env demo_h g ctx 1 0 1 0 [] = Inr (0, g1, []) \<and>
     device__batch demo_env demo_h g1 ctx 1 0 5000000000 0 [] = Inr (0, g2, []) \<and>
     device__activate demo_env demo_h g2 ctx 1 1 [] =
       Inr (r3, g3, [Activate 100 5 1, SetDelay 100 5 705032704])"
proof -
  obtain g where g: "startup demo_env demo_h ''poll'' initial_globals = Inr (started demo_env ''poll'', g)"
    using demo_started by blast
  let ?ctx = "started demo_env ''poll''"
  have dev: "device_of demo_env ''poll'' 10 = \<lparr>dev_ptr = 100, dev_version = 0x01000001\<rparr>"
    by code_simp
  have "list_all (opens demo_env ''poll'') (take (Suc (nat 0)) (loaded demo_env))"
    by (simp add: list_all_iff opens_def demo_env_def)
  from startup_target_right [OF demo_stable g _ _ _ this, of 0 10 "demo_sensor 5 8"]
  have t: "target g ?ctx 1 = Some (\<lparr>dev_ptr = 100, dev_version = 0x01000001\<rparr>, 5)"
    by (simp add: demo_located demo_sensor_def dev)
  have known: "known g 1"
    using startup_known [OF demo_stable g] startupD(5) [OF demo_stable g] by (simp add: demo_located)
  have legacy: "\<not> halIsAPILevelCompliant g ?ctx 1 (SENSORS_DEVICE_API_VERSION_1_1 demo_h)"
    by (simp add: target_compliant [OF t] demo_h_def)
  have "sensors_enable_state g ! nat (1 - 1) = 0"
    using startup_off [OF demo_stable g] startupD(6) [OF demo_stable g] by (simp add: demo_located)
  from legacy_period_is_deferred [OF startup_inv [OF demo_stable g] known legacy t _ this,
      where enabled = 1 and io = "[]" and io' = "[]" and env = demo_env and flags' = 0 and period' = 1 and
        timeout' = 0 and flags = 0 and period = 5000000000 and timeout = 0]
  obtain g1 g2 r3 g3 where "device__batch demo_env demo_h g ?ctx 1 0 1 0 [] = Inr (0, g1, [])"
    "device__batch demo_env demo_h g1 ?ctx 1 0 5000000000 0 [] = Inr (0, g2, [])"
    "device__activate demo_env demo_h g2 ?ctx 1 1 [] =
       Inr (r3, g3, [Activate 100 5 1, SetDelay 100 5 (to_int32 5000000000)])"
    by auto
  moreover have "to_int32 5000000000 = 705032704" by (simp add: to_int32_def)
  ultimately show ?thesis using g by auto
qed

end
