(* ===== verification/Poll.thy ===== *)
theory Poll
  imports Dispatch "HOL-Library.While_Combinator"
begin

text \<open>
  The reading side of \<open>sensors_poll_context_t::poll\<close> in \<open>sensors/multihal.cpp\<close>: the scan
  over the queues of all sub-HALs that a caller makes while it holds the queue mutex. The
  waiting around the scan, where other threads run, is in the theory Threads.
\<close>

section \<open>One event\<close>

definition copy_event_remap_handle :: "hal_h \<Rightarrow> handle_maps \<Rightarrow> sensors_event \<Rightarrow> int \<Rightarrow> sensors_event" where
  "copy_event_remap_handle K h src sub_index =
     (if ev_type src = SENSOR_TYPE_META_DATA K
      then src\<lparr>ev_meta_sensor := get_global_handle h (FullHandle sub_index (ev_meta_sensor src))\<rparr>
      else src\<lparr>ev_sensor := get_global_handle h (FullHandle sub_index (ev_sensor src))\<rparr>)"

section \<open>The scan\<close>

text \<open>
  The variables of \<open>poll\<close> with the queues and the caller's buffer. \<open>sc_broadcast\<close> lists the
  queues whose condition variable \<open>dequeue\<close> broadcast; \<open>sc_taken\<close> is a history of the
  records that were dequeued, each with the index of its queue, which no step reads.
\<close>

record scan =
  sc_queues :: "sensors_event event_queue list"
  sc_next :: int
  sc_empties :: int
  sc_read :: int
  sc_data :: "sensors_event list"
  sc_broadcast :: "nat list"
  sc_taken :: "(nat \<times> sensors_event) list"

text \<open>\<open>at\<close> throws for an index outside the vector, also for a negative one.\<close>

definition poll_body :: "hal_h \<Rightarrow> handle_maps \<Rightarrow> scan \<Rightarrow> hal_error + scan" where
  "poll_body K h s =
     (let queueCount = int (length (sc_queues s)); i = sc_next s
      in if \<not> in_table (sc_queues s) i then Inl OutOfRange
         else
           let queue = sc_queues s ! nat i; nextReadIndex' = (i + 1) smod queueCount
           in case peek queue of
                None \<Rightarrow> Inr (s\<lparr>sc_empties := sc_empties s + 1, sc_next := nextReadIndex'\<rparr>)
              | Some event \<Rightarrow>
                  if \<not> in_table (sc_data s) (sc_read s) then Inl (OutOfBounds (sc_read s))
                  else
                    let e = copy_event_remap_handle K h event i;
                        (queue', broadcast) = dequeue queue
                    in Inr (s\<lparr>sc_empties := 0,
                              sc_data := (sc_data s)[nat (sc_read s) := e],
                              sc_read := (if ev_sensor e = -1 then sc_read s else sc_read s + 1),
                              sc_queues := (sc_queues s)[nat i := queue'],
                              sc_broadcast := (if broadcast then sc_broadcast s @ [nat i]
                                               else sc_broadcast s),
                              sc_taken := sc_taken s @ [(nat i, event)],
                              sc_next := nextReadIndex'\<rparr>))"

definition scan_more :: "int \<Rightarrow> scan \<Rightarrow> bool" where
  "scan_more maxReads s \<longleftrightarrow>
     sc_empties s < int (length (sc_queues s)) \<and> sc_read s < maxReads"

text \<open>The inner loop; \<open>None\<close> is a loop that does not end.\<close>

definition poll_scan :: "hal_h \<Rightarrow> handle_maps \<Rightarrow> int \<Rightarrow> scan \<Rightarrow> (hal_error + scan) option" where
  "poll_scan K h maxReads s =
     while_option (\<lambda>r. case r of Inl e \<Rightarrow> False | Inr s \<Rightarrow> scan_more maxReads s)
       (\<lambda>r. case r of Inl e \<Rightarrow> Inl e | Inr s \<Rightarrow> poll_body K h s) (Inr s)"

definition scan_start :: "sensors_event event_queue list \<Rightarrow> int \<Rightarrow> sensors_event list \<Rightarrow> scan" where
  "scan_start qs next data =
     \<lparr>sc_queues = qs, sc_next = next, sc_empties = 0, sc_read = 0, sc_data = data,
      sc_broadcast = [], sc_taken = []\<rparr>"

section \<open>Lemmas: one step\<close>

definition queues_ok :: "sensors_event event_queue list \<Rightarrow> bool" where
  "queues_ok qs \<longleftrightarrow> (\<forall>q \<in> set qs. queue_inv q)"

lemma queues_okD: "queues_ok qs \<Longrightarrow> i < length qs \<Longrightarrow> queue_inv (qs ! i)"
  by (simp add: queues_ok_def)

lemma queues_ok_update: "queues_ok qs \<Longrightarrow> queue_inv q \<Longrightarrow> queues_ok (qs[i := q])"
  by (auto simp: queues_ok_def dest!: set_update_subset_insert [THEN subsetD])

text \<open>The records of one queue among those that were taken.\<close>

definition of_queue :: "nat \<Rightarrow> (nat \<times> 'e) list \<Rightarrow> 'e list" where
  "of_queue i taken = map snd (filter (\<lambda>p. fst p = i) taken)"

lemma of_queue_simps [simp]:
  "of_queue i [] = []"
  "of_queue i (xs @ ys) = of_queue i xs @ of_queue i ys"
  "of_queue i ((j, e) # xs) = (if j = i then e # of_queue i xs else of_queue i xs)"
  by (simp_all add: of_queue_def)

text \<open>What the caller gets of the records that were taken.\<close>

definition delivered :: "hal_h \<Rightarrow> handle_maps \<Rightarrow> (nat \<times> sensors_event) list \<Rightarrow> sensors_event list" where
  "delivered K h taken =
     filter (\<lambda>e. ev_sensor e \<noteq> -1) (map (\<lambda>(i, e). copy_event_remap_handle K h e (int i)) taken)"

lemma delivered_simps [simp]:
  "delivered K h [] = []"
  "delivered K h (xs @ ys) = delivered K h xs @ delivered K h ys"
  "delivered K h ((i, e) # xs) =
     (if ev_sensor (copy_event_remap_handle K h e (int i)) = -1 then delivered K h xs
      else copy_event_remap_handle K h e (int i) # delivered K h xs)"
  by (simp_all add: delivered_def)

text \<open>The queue that was looked at \<open>k\<close> steps ago.\<close>

definition behind :: "int \<Rightarrow> int \<Rightarrow> int \<Rightarrow> nat" where
  "behind n next k = nat ((next - 1 - k) mod n)"

lemma behind_Suc:
  assumes "0 \<le> i" "i < n"
  shows "behind n ((i + 1) smod n) k = (if k = 0 then nat i else behind n i (k - 1))"
proof -
  have "((i + 1) smod n - 1 - k) mod n = ((i + 1) mod n - (1 + k)) mod n"
    using assms by (simp add: smod_eq_mod algebra_simps)
  also have "\<dots> = (i - k) mod n"
    by (simp add: mod_diff_left_eq)
  finally show ?thesis using assms by (simp add: behind_def algebra_simps)
qed

lemma behind_all:
  assumes "0 < n" "j < nat n"
  shows "\<exists>k. 0 \<le> k \<and> k < n \<and> behind n next k = j"
proof (intro exI conjI)
  let ?k = "(next - 1 - int j) mod n"
  show "0 \<le> ?k" "?k < n" using assms(1) by simp_all
  have "(next - 1 - ?k) mod n = (next - 1 - (next - 1 - int j)) mod n"
    by (rule mod_diff_right_eq)
  then show "behind n next ?k = j" using assms by (simp add: behind_def)
qed

text \<open>What a writer relies on while it fills its region outside the lock.\<close>

definition writer_view :: "'e event_queue \<Rightarrow> int \<times> int \<times> 'e list" where
  "writer_view q = (mCapacity q, firstWritable q, mData q)"

lemma writer_view_dequeue:
  "queue_inv q \<Longrightarrow> contents q \<noteq> [] \<Longrightarrow> writer_view (fst (dequeue q)) = writer_view q"
  using firstWritable_dequeue [of q]
  by (simp add: writer_view_def capacity_dequeue data_dequeue contents_eq_Nil)

lemma dequeue_broadcast: "mSize q \<noteq> 0 \<Longrightarrow> snd (dequeue q) \<longleftrightarrow> waitForSpace_blocks q"
  by (simp add: dequeue_def waitForSpace_blocks_def)

text \<open>The invariant of the scan from the queues \<open>qs\<close> and a buffer of \<open>len\<close> records.\<close>

definition scan_inv :: "hal_h \<Rightarrow> handle_maps \<Rightarrow> int \<Rightarrow> sensors_event event_queue list \<Rightarrow> nat \<Rightarrow> scan \<Rightarrow> bool" where
  "scan_inv K h maxReads qs len s \<longleftrightarrow>
     length (sc_queues s) = length qs \<and> queues_ok (sc_queues s) \<and>
     in_table qs (sc_next s) \<and>
     0 \<le> sc_empties s \<and> sc_empties s \<le> int (length qs) \<and>
     0 \<le> sc_read s \<and> sc_read s \<le> maxReads \<and> length (sc_data s) = len \<and>
     (\<forall>i < length qs. contents (qs ! i) = of_queue i (sc_taken s) @ contents (sc_queues s ! i)) \<and>
     (\<forall>i < length qs. writer_view (sc_queues s ! i) = writer_view (qs ! i)) \<and>
     (\<forall>i < length qs. waitForSpace_blocks (qs ! i) \<longrightarrow>
        waitForSpace_blocks (sc_queues s ! i) \<or> i \<in> set (sc_broadcast s)) \<and>
     (\<forall>(i, e) \<in> set (sc_taken s). i < length qs) \<and>
     take (nat (sc_read s)) (sc_data s) = delivered K h (sc_taken s) \<and>
     (\<forall>k. 0 \<le> k \<and> k < sc_empties s \<longrightarrow>
        contents (sc_queues s ! behind (int (length qs)) (sc_next s) k) = [])"

lemma scan_inv_start:
  "queues_ok qs \<Longrightarrow> in_table qs next \<Longrightarrow> 0 \<le> maxReads \<Longrightarrow>
     scan_inv K h maxReads qs (length data) (scan_start qs next data)"
  by (auto simp: scan_inv_def scan_start_def)

text \<open>The two branches of the body under the invariant.\<close>

lemma in_table_next: "in_table xs i \<Longrightarrow> in_table xs ((i + 1) smod int (length xs))"
  using smod_int_compares [of "i + 1" "int (length xs)"]
  by (cases "xs = []") (simp_all add: in_table_def)

lemma poll_body_empty:
  assumes "scan_inv K h maxReads qs len s" "scan_more maxReads s"
    and "contents (sc_queues s ! nat (sc_next s)) = []"
  shows "\<exists>s'. poll_body K h s = Inr s' \<and> scan_inv K h maxReads qs len s' \<and>
    sc_queues s' = sc_queues s \<and> sc_empties s' = sc_empties s + 1 \<and>
    sc_next s' = (sc_next s + 1) smod int (length qs) \<and> sc_taken s' = sc_taken s"
proof -
  let ?n = "int (length qs)" and ?i = "sc_next s"
  have i: "in_table (sc_queues s) ?i" "0 \<le> ?i" "?i < ?n"
    using assms(1) by (auto simp: scan_inv_def in_table_def)
  have "queue_inv (sc_queues s ! nat ?i)"
    using assms(1) i by (intro queues_okD) (auto simp: scan_inv_def)
  then have "peek (sc_queues s ! nat ?i) = None"
    using assms(3) by (simp add: peek_contents)
  with i have body: "poll_body K h s =
      Inr (s\<lparr>sc_empties := sc_empties s + 1, sc_next := (?i + 1) smod ?n\<rparr>)"
    using assms(1) by (simp add: poll_body_def Let_def scan_inv_def)
  have "contents (sc_queues s ! behind ?n ((?i + 1) smod ?n) k) = []"
    if "0 \<le> k" "k < sc_empties s + 1" for k
    using that assms(1,3) unfolding behind_Suc [OF i(2,3)] by (auto simp: scan_inv_def)
  moreover have "sc_empties s + 1 \<le> ?n"
    using assms(1,2) by (simp add: scan_inv_def scan_more_def)
  ultimately have "scan_inv K h maxReads qs len
      (s\<lparr>sc_empties := sc_empties s + 1, sc_next := (?i + 1) smod ?n\<rparr>)"
    using assms(1) in_table_next [of qs ?i] by (simp add: scan_inv_def)
  with body show ?thesis by auto
qed

lemma poll_body_take:
  assumes "scan_inv K h maxReads qs len s" "scan_more maxReads s" "maxReads \<le> int len"
    and "contents (sc_queues s ! nat (sc_next s)) = e # es"
  shows "\<exists>s'. poll_body K h s = Inr s' \<and> scan_inv K h maxReads qs len s' \<and>
    sc_queues s' = (sc_queues s)[nat (sc_next s) :=
      fst (dequeue (sc_queues s ! nat (sc_next s)))] \<and> sc_empties s' = 0 \<and>
    sc_next s' = (sc_next s + 1) smod int (length qs) \<and>
    sc_taken s' = sc_taken s @ [(nat (sc_next s), e)]"
proof -
  let ?n = "int (length qs)" and ?i = "sc_next s"
  let ?q = "sc_queues s ! nat ?i" and ?e = "copy_event_remap_handle K h e ?i"
  have i: "in_table (sc_queues s) ?i" "0 \<le> ?i" "?i < ?n" "nat ?i < length qs"
    using assms(1) by (auto simp: scan_inv_def in_table_def)
  have q: "queue_inv ?q"
    using assms(1) i by (intro queues_okD) (auto simp: scan_inv_def)
  have peek: "peek ?q = Some e" using q assms(4) by (simp add: peek_contents)
  have room: "in_table (sc_data s) (sc_read s)"
    using assms(1-3) by (auto simp: scan_inv_def scan_more_def in_table_def)
  let ?s = "s\<lparr>sc_empties := 0, sc_data := (sc_data s)[nat (sc_read s) := ?e],
    sc_read := (if ev_sensor ?e = -1 then sc_read s else sc_read s + 1),
    sc_queues := (sc_queues s)[nat ?i := fst (dequeue ?q)],
    sc_broadcast := (if snd (dequeue ?q) then sc_broadcast s @ [nat ?i] else sc_broadcast s),
    sc_taken := sc_taken s @ [(nat ?i, e)], sc_next := (?i + 1) smod ?n\<rparr>"
  have body: "poll_body K h s = Inr ?s"
    using i room peek assms(1) by (simp add: poll_body_def Let_def scan_inv_def split: prod.split)
  have data: "take (nat (sc_read ?s)) (sc_data ?s) = delivered K h (sc_taken ?s)"
  proof -
    have "nat (sc_read s) < length (sc_data s)" using room by (auto simp: in_table_def)
    moreover have "take (nat (sc_read s)) (sc_data s) = delivered K h (sc_taken s)" "0 \<le> sc_read s"
      using assms(1) by (simp_all add: scan_inv_def)
    ultimately show ?thesis
      using i(2) by (simp add: take_Suc_conv_app_nth nat_add_distrib)
  qed
  have queues: "contents (qs ! j) = of_queue j (sc_taken ?s) @ contents (sc_queues ?s ! j)"
    if "j < length qs" for j
    using that assms(1,4) i q by (cases "j = nat ?i") (auto simp: scan_inv_def contents_dequeue)
  have views: "writer_view (sc_queues ?s ! j) = writer_view (qs ! j)" if "j < length qs" for j
    using that assms(1,4) i q
    by (cases "j = nat ?i") (auto simp: scan_inv_def writer_view_dequeue)
  have "mSize ?q \<noteq> 0" using q assms(4) contents_eq_Nil [of ?q] by auto
  then have blocked: "waitForSpace_blocks (sc_queues ?s ! j) \<or> j \<in> set (sc_broadcast ?s)"
    if "j < length qs" "waitForSpace_blocks (qs ! j)" for j
    using that assms(1) i dequeue_broadcast [of ?q]
    by (cases "j = nat ?i") (auto simp: scan_inv_def)
  have "queues_ok (sc_queues ?s)"
    using assms(1) q by (auto simp: scan_inv_def intro!: queues_ok_update queue_inv_dequeue)
  moreover have "sc_read ?s \<le> maxReads" "0 \<le> sc_read ?s"
    using assms(1,2) by (auto simp: scan_inv_def scan_more_def)
  ultimately have "scan_inv K h maxReads qs len ?s"
    using assms(1) data queues views blocked in_table_next [of qs ?i] i(4)
    unfolding scan_inv_def by simp auto
  with body show ?thesis by auto
qed

section \<open>Lemmas: turns of the queues\<close>

text \<open>
  How often a round over \<open>n\<close> queues that begins at \<open>first\<close> has looked at queue \<open>i\<close> after
  \<open>t\<close> steps.
\<close>

definition visits :: "int \<Rightarrow> int \<Rightarrow> int \<Rightarrow> int \<Rightarrow> int" where
  "visits n first t i = (t + n - 1 - (i - first) mod n) div n"

lemma visits_Suc:
  assumes "0 < n" "0 \<le> i" "i < n"
  shows "visits n first (t + 1) i = visits n first t i + (if i = (first + t) mod n then 1 else 0)"
proof -
  have "(t + n - (i - first) mod n) mod n = ((t + n) - (i - first)) mod n"
    by (rule mod_diff_right_eq)
  also have "\<dots> = (first + t - i) mod n"
    using mod_add_self2 [of "first + t - i" n] by (simp add: algebra_simps)
  finally have "(t + n - (i - first) mod n) mod n = (first + t - i) mod n" .
  moreover have "(first + t) mod n = i mod n \<longleftrightarrow> (first + t - i) mod n = 0"
    by (simp add: mod_eq_dvd_iff dvd_eq_mod_eq_0)
  ultimately have "(t + n - (i - first) mod n) mod n = 0 \<longleftrightarrow> i = (first + t) mod n"
    using assms by auto
  then show ?thesis
    using div_add_one [OF assms(1), of "t + n - 1 - (i - first) mod n"]
    by (simp add: visits_def algebra_simps)
qed

lemma visits_start:
  assumes "0 < n"
  shows "visits n first 0 i = 0"
proof -
  have "0 \<le> n - 1 - (i - first) mod n" "n - 1 - (i - first) mod n < n"
    using pos_mod_sign [OF assms, of "i - first"] pos_mod_bound [OF assms, of "i - first"] by linarith+
  then show ?thesis by (simp add: visits_def)
qed

lemma visits_close:
  assumes "0 < n"
  shows "visits n first t i \<le> visits n first t j + 1"
proof -
  have "t + n - 1 - (i - first) mod n \<le> (t + n - 1 - (j - first) mod n) + n"
    using pos_mod_sign [OF assms, of "i - first"] pos_mod_bound [OF assms, of "j - first"] by linarith
  then have "visits n first t i \<le> ((t + n - 1 - (j - first) mod n) + n) div n"
    unfolding visits_def using assms by (intro zdiv_mono1)
  also have "\<dots> = visits n first t j + 1"
    unfolding visits_def using assms by (intro div_add_self2) simp
  finally show ?thesis .
qed
text \<open>
  In a round that began at \<open>first\<close>, a queue that still has records gave one at every visit.
\<close>

definition scan_fair :: "int \<Rightarrow> scan \<Rightarrow> bool" where
  "scan_fair first s \<longleftrightarrow>
     (\<exists>t. sc_next s = (first + t) mod int (length (sc_queues s)) \<and>
       (\<forall>i < length (sc_queues s).
          int (length (of_queue i (sc_taken s))) \<le> visits (int (length (sc_queues s))) first t (int i) \<and>
          (contents (sc_queues s ! i) \<noteq> [] \<longrightarrow>
           int (length (of_queue i (sc_taken s))) = visits (int (length (sc_queues s))) first t (int i))))"

lemma scan_fair_start: "in_table qs next \<Longrightarrow> scan_fair next (scan_start qs next data)"
proof -
  assume next_ok: "in_table qs next"
  then have "visits (int (length qs)) next 0 i = 0" for i
    by (intro visits_start) (auto simp: in_table_def)
  with next_ok show ?thesis
    unfolding scan_fair_def by (intro exI [of _ 0]) (auto simp: scan_start_def in_table_def)
qed

lemma scan_fair_step:
  assumes "scan_fair first s" "in_table (sc_queues s) (sc_next s)"
    and "length (sc_queues s') = length (sc_queues s)"
    and "sc_next s' = (sc_next s + 1) smod int (length (sc_queues s))"
    and "\<And>i. i \<noteq> nat (sc_next s) \<Longrightarrow> sc_queues s' ! i = sc_queues s ! i"
    and "\<And>i. i \<noteq> nat (sc_next s) \<Longrightarrow> of_queue i (sc_taken s') = of_queue i (sc_taken s)"
    and "length (of_queue (nat (sc_next s)) (sc_taken s')) =
      length (of_queue (nat (sc_next s)) (sc_taken s)) +
      (if contents (sc_queues s ! nat (sc_next s)) = [] then 0 else 1)"
    and "contents (sc_queues s ! nat (sc_next s)) = [] \<Longrightarrow> contents (sc_queues s' ! nat (sc_next s)) = []"
  shows "scan_fair first s'"
proof -
  let ?n = "int (length (sc_queues s))"
  have n: "0 < ?n" using assms(2) by (auto simp: in_table_def)
  obtain t where t: "sc_next s = (first + t) mod ?n"
    "\<And>i. i < length (sc_queues s) \<Longrightarrow>
       int (length (of_queue i (sc_taken s))) \<le> visits ?n first t (int i) \<and>
       (contents (sc_queues s ! i) \<noteq> [] \<longrightarrow>
        int (length (of_queue i (sc_taken s))) = visits ?n first t (int i))"
    using assms(1) by (auto simp: scan_fair_def)
  have "sc_next s' = (first + (t + 1)) mod ?n"
    using assms(2,4) t(1) n by (simp add: smod_eq_mod in_table_def mod_simps add.assoc)
  moreover have "int (length (of_queue i (sc_taken s'))) \<le> visits ?n first (t + 1) (int i) \<and>
      (contents (sc_queues s' ! i) \<noteq> [] \<longrightarrow>
       int (length (of_queue i (sc_taken s'))) = visits ?n first (t + 1) (int i))"
    if i: "i < length (sc_queues s)" for i
  proof -
    have "visits ?n first (t + 1) (int i) =
        visits ?n first t (int i) + (if i = nat (sc_next s) then 1 else 0)"
      using visits_Suc [OF n, of "int i" first t] i t(1) assms(2) by (auto simp: in_table_def)
    with t(2) [OF i] assms(5-8) show ?thesis by (cases "i = nat (sc_next s)") auto
  qed
  ultimately show ?thesis using assms(3) unfolding scan_fair_def by auto
qed

lemma scan_fair_bound:
  assumes "scan_fair first s" "i < length (sc_queues s)" "j < length (sc_queues s)"
    and "contents (sc_queues s ! j) \<noteq> []"
  shows "length (of_queue i (sc_taken s)) \<le> length (of_queue j (sc_taken s)) + 1"
proof -
  let ?n = "int (length (sc_queues s))"
  obtain t where "int (length (of_queue i (sc_taken s))) \<le> visits ?n first t (int i)"
    "int (length (of_queue j (sc_taken s))) = visits ?n first t (int j)"
    using assms by (auto simp: scan_fair_def)
  moreover have "visits ?n first t (int i) \<le> visits ?n first t (int j) + 1"
    using assms(2) by (intro visits_close) auto
  ultimately show ?thesis by linarith
qed

section \<open>Lemmas: the loop\<close>

text \<open>
  Every turn either takes a record, of which there are finitely many, or adds to the
  number of empty queues seen in a row, which is bounded.
\<close>

definition scan_measure :: "hal_error + scan \<Rightarrow> nat" where
  "scan_measure r =
     (case r of
        Inl e \<Rightarrow> 0
      | Inr s \<Rightarrow> sum_list (map (length \<circ> contents) (sc_queues s)) * Suc (length (sc_queues s)) +
          nat (int (length (sc_queues s)) - sc_empties s))"

lemma sum_list_update_less:
  "i < length xs \<Longrightarrow> f x < (f (xs ! i) :: nat) \<Longrightarrow> sum_list (map f (xs[i := x])) < sum_list (map f xs)"
  by (induction xs arbitrary: i) (auto split: nat.splits simp: nth_Cons')

lemma measure_take: "a < a' \<Longrightarrow> a * Suc n + n < a' * Suc n + k" for a :: nat
proof -
  assume "a < a'"
  then have "Suc a * Suc n \<le> a' * Suc n" by (intro mult_le_mono1) simp
  then show ?thesis by simp
qed

lemma poll_body_progress:
  assumes "scan_inv K h maxReads qs len s" "scan_more maxReads s" "maxReads \<le> int len"
    and "scan_fair first s"
  shows "\<exists>s'. poll_body K h s = Inr s' \<and> scan_inv K h maxReads qs len s' \<and> scan_fair first s' \<and>
    scan_measure (Inr s') < scan_measure (Inr s)"
proof (cases "contents (sc_queues s ! nat (sc_next s))")
  case Nil
  then obtain s' where s': "poll_body K h s = Inr s'" "scan_inv K h maxReads qs len s'"
    "sc_queues s' = sc_queues s" "sc_empties s' = sc_empties s + 1"
    "sc_next s' = (sc_next s + 1) smod int (length qs)" "sc_taken s' = sc_taken s"
    using poll_body_empty [OF assms(1,2)] by blast
  moreover have "sc_empties s < int (length (sc_queues s))"
    using assms(2) by (simp add: scan_more_def)
  moreover have "scan_fair first s'"
    using assms(1) Nil s' by (intro scan_fair_step [OF assms(4)]) (auto simp: scan_inv_def in_table_def)
  ultimately show ?thesis by (simp add: scan_measure_def)
next
  case (Cons e es)
  let ?i = "nat (sc_next s)"
  obtain s' where s': "poll_body K h s = Inr s'" "scan_inv K h maxReads qs len s'"
    "sc_queues s' = (sc_queues s)[?i := fst (dequeue (sc_queues s ! ?i))]" "sc_empties s' = 0"
    "sc_next s' = (sc_next s + 1) smod int (length qs)" "sc_taken s' = sc_taken s @ [(?i, e)]"
    using poll_body_take [OF assms(1-3) Cons] by blast
  have i: "?i < length (sc_queues s)" using assms(1) by (auto simp: scan_inv_def in_table_def)
  then have "queue_inv (sc_queues s ! ?i)"
    using assms(1) by (intro queues_okD) (auto simp: scan_inv_def)
  then have "(length \<circ> contents) (fst (dequeue (sc_queues s ! ?i))) <
      (length \<circ> contents) (sc_queues s ! ?i)"
    using Cons by (simp add: contents_dequeue)
  from sum_list_update_less [where f = "length \<circ> contents", OF i this]
  have "scan_measure (Inr s') < scan_measure (Inr s)"
    unfolding scan_measure_def using s' by (simp add: measure_take del: mult_Suc_right)
  moreover have "scan_fair first s'"
    using assms(1) Cons s'
    by (intro scan_fair_step [OF assms(4)]) (auto simp: scan_inv_def in_table_def)
  ultimately show ?thesis using s' by blast
qed

text \<open>The scan ends without an error, and this is what it leaves.\<close>

lemma poll_scan_ends:
  assumes "queues_ok qs" "in_table qs next" "0 \<le> maxReads" "maxReads \<le> int (length data)"
  shows "\<exists>s. poll_scan K h maxReads (scan_start qs next data) = Some (Inr s) \<and>
    scan_inv K h maxReads qs (length data) s \<and> scan_fair next s \<and> \<not> scan_more maxReads s"
proof -
  let ?b = "\<lambda>r. case r of Inl e \<Rightarrow> False | Inr s \<Rightarrow> scan_more maxReads s"
  let ?c = "\<lambda>r. case r of Inl e \<Rightarrow> Inl e | Inr s \<Rightarrow> poll_body K h s"
  let ?P = "\<lambda>r. \<exists>s. r = Inr s \<and> scan_inv K h maxReads qs (length data) s \<and> scan_fair next s"
  have start: "?P (Inr (scan_start qs next data))"
    using scan_inv_start [OF assms(1,2,3)] scan_fair_start [OF assms(2)] by simp
  have step: "?P (?c r) \<and> scan_measure (?c r) < scan_measure r" if "?P r" "?b r" for r
    using that poll_body_progress assms(4) by fastforce
  obtain t where t: "while_option ?b ?c (Inr (scan_start qs next data)) = Some t"
    using measure_while_option_Some [of ?P ?b ?c scan_measure, OF step start] by auto
  have "?P t" by (rule while_option_rule [where P = ?P, OF _ t start]) (use step in blast)
  moreover have "\<not> ?b t" by (rule while_option_stop [OF t])
  ultimately show ?thesis using t by (auto simp: poll_scan_def)
qed

text \<open>A scan that stops short of the buffer has emptied every queue.\<close>

lemma scan_exhausted:
  assumes "scan_inv K h maxReads qs len s" "\<not> scan_more maxReads s" "sc_read s < maxReads"
    and "i < length qs"
  shows "contents (sc_queues s ! i) = []"
proof -
  have n: "sc_empties s = int (length qs)"
    using assms(1-3) by (auto simp: scan_inv_def scan_more_def)
  have "0 < int (length qs)" "i < nat (int (length qs))" using assms(4) by auto
  from behind_all [OF this, of "sc_next s"]
  obtain k where "0 \<le> k" "k < int (length qs)" "behind (int (length qs)) (sc_next s) k = i"
    by blast
  with n assms(1) show ?thesis by (auto simp: scan_inv_def)
qed

section \<open>Lemmas: whose events are reported\<close>


















section \<open>Properties\<close>

text \<open>
  Two queues for the witnesses: the first holds two records, the second one record, of
  sensors the registry of the demo environment knows.
\<close>

definition demo_event :: "int \<Rightarrow> int \<Rightarrow> sensors_event" where
  "demo_event handle x = \<lparr>ev_sensor = handle, ev_type = 1, ev_meta_sensor = x, ev_other = []\<rparr>"

definition demo_queues :: "sensors_event event_queue list" where
  "demo_queues =
     [\<lparr>mCapacity = 3, mStart = 2, mSize = 2,
       mData = [demo_event 5 2, demo_event 0 0, demo_event 5 1]\<rparr>,
      \<lparr>mCapacity = 3, mStart = 1, mSize = 1,
       mData = [demo_event 0 0, demo_event 7 3, demo_event 0 0]\<rparr>]"

lemma demo_queues_ok: "queues_ok demo_queues"
  by code_simp

lemma demo_scan:
  "poll_scan demo_h (started_handles demo_env) 2
      (scan_start demo_queues 0 [demo_event 0 0, demo_event 0 0]) =
   Some (Inr \<lparr>sc_queues = [(demo_queues ! 0)\<lparr>mStart := 0, mSize := 1\<rparr>, (demo_queues ! 1)\<lparr>mStart := 2, mSize := 0\<rparr>],
     sc_next = 0, sc_empties = 0, sc_read = 2, sc_data = [demo_event 1 1, demo_event 3 3],
     sc_broadcast = [], sc_taken = [(0, demo_event 5 1), (1, demo_event 7 3)]\<rparr>)"
  by code_simp

text \<open>
  C15. A scan always ends without an error, whatever the queues hold, given a buffer of
  at least \<open>maxReads\<close> records and an index in range. What it took from a queue is a prefix
  of what was in it, in order, and the rest is still there; the buffer starts with
  exactly the taken records that have a global handle, translated, in the order they
  were taken, and there are at most \<open>maxReads\<close>; if there are fewer, every queue is empty.
\<close>

theorem scan_ends:
  assumes "queues_ok qs" "in_table qs next" "0 \<le> maxReads" "maxReads \<le> int (length data)"
  shows "\<exists>s. poll_scan K h maxReads (scan_start qs next data) = Some (Inr s) \<and>
    queues_ok (sc_queues s) \<and> length (sc_queues s) = length qs \<and> in_table qs (sc_next s) \<and>
    (\<forall>i < length qs. contents (qs ! i) = of_queue i (sc_taken s) @ contents (sc_queues s ! i)) \<and>
    length (sc_data s) = length data \<and> 0 \<le> sc_read s \<and> sc_read s \<le> maxReads \<and>
    take (nat (sc_read s)) (sc_data s) = delivered K h (sc_taken s) \<and>
    (sc_read s < maxReads \<longrightarrow> (\<forall>i < length qs. contents (sc_queues s ! i) = []))"
proof -
  obtain s where s: "poll_scan K h maxReads (scan_start qs next data) = Some (Inr s)"
    "scan_inv K h maxReads qs (length data) s" "\<not> scan_more maxReads s"
    using poll_scan_ends [OF assms] by blast
  with scan_exhausted [OF s(2,3)] show ?thesis
    by (intro exI [of _ s]) (simp add: scan_inv_def)
qed

theorem scan_ends_witness:
  "\<exists>s. poll_scan demo_h (started_handles demo_env) 2
      (scan_start demo_queues 0 [demo_event 0 0, demo_event 0 0]) = Some (Inr s) \<and>
     take (nat (sc_read s)) (sc_data s) = [demo_event 1 1, demo_event 3 3] \<and>
     contents (demo_queues ! 0) = [demo_event 5 1] @ contents (sc_queues s ! 0)"
proof -
  have "in_table demo_queues 0" "(0::int) \<le> 2" "2 \<le> int (length [demo_event 0 0, demo_event 0 0])"
    by (simp_all add: in_table_def demo_queues_def)
  from scan_ends [OF demo_queues_ok this, of demo_h "started_handles demo_env"]
  obtain s where s: "poll_scan demo_h (started_handles demo_env) 2
      (scan_start demo_queues 0 [demo_event 0 0, demo_event 0 0]) = Some (Inr s)"
    "\<forall>i < length demo_queues.
       contents (demo_queues ! i) = of_queue i (sc_taken s) @ contents (sc_queues s ! i)"
    by blast
  have "0 < length demo_queues" by (simp add: demo_queues_def)
  with s(2) have "contents (demo_queues ! 0) = of_queue 0 (sc_taken s) @ contents (sc_queues s ! 0)"
    by blast
  with s(1) demo_scan show ?thesis by auto
qed

text \<open>
  C16. The round over the queues is fair: when a scan leaves records in a queue, it has
  taken at most one record more from any other queue than from that one.
\<close>

theorem scan_is_fair:
  assumes "queues_ok qs" "in_table qs next" "0 \<le> maxReads" "maxReads \<le> int (length data)"
    and "poll_scan K h maxReads (scan_start qs next data) = Some (Inr s)"
    and "i < length qs" "j < length qs" "contents (sc_queues s ! j) \<noteq> []"
  shows "length (of_queue i (sc_taken s)) \<le> length (of_queue j (sc_taken s)) + 1"
proof -
  have "scan_inv K h maxReads qs (length data) s" "scan_fair next s"
    using poll_scan_ends [OF assms(1-4), of K h] assms(5) by auto
  with scan_fair_bound assms(6-8) show ?thesis by (auto simp: scan_inv_def)
qed

theorem scan_is_fair_witness:
  "contents ((demo_queues ! 0)\<lparr>mStart := 0, mSize := 1\<rparr>) \<noteq> [] \<and>
   length (of_queue 1 [(0, demo_event 5 1), (1, demo_event 7 3)]) \<le>
     length (of_queue 0 [(0, demo_event 5 1), (1, demo_event 7 3)]) + 1"
proof -
  have "in_table demo_queues 0" "(0::int) \<le> 2" "2 \<le> int (length [demo_event 0 0, demo_event 0 0])"
    "1 < length demo_queues" "0 < length demo_queues"
    by (simp_all add: in_table_def demo_queues_def)
  moreover have left: "contents ((demo_queues ! 0)\<lparr>mStart := 0, mSize := 1\<rparr>) \<noteq> []" by code_simp
  ultimately show ?thesis
    using scan_is_fair [OF demo_queues_ok _ _ _ demo_scan, of 1 0] by simp
qed



end
