(* ===== verification/Threads.thy ===== *)
theory Threads
  imports Poll
begin

text \<open>
  The threads of a running multihal (\<open>writerTask\<close> and \<open>poll\<close> of \<open>sensors/multihal.cpp\<close>)
  as a transition system. One writer per sub-HAL fills its queue; one caller reads. A
  stretch of code that holds \<open>queue_mutex\<close> from taking it to releasing it or to waiting on
  a condition variable is one step; what a writer's device stores into its region happens
  outside the mutex, one record at a time, between the steps of the others.
\<close>

section \<open>The state\<close>

text \<open>
  A writer is about to take the mutex at the top of its loop, asleep in \<open>waitForSpace\<close>,
  inside the device's \<open>poll\<close> with a region of the array (offset and length), or back from
  it with a positive number of events and about to take the mutex to mark them.
\<close>

datatype writer_pc =
    WLock
  | WAsleep
  | WPolling int int
  | WPolled int int

text \<open>
  The reader is outside \<open>poll\<close>, asleep on \<open>data_available_cond\<close>, or woken and about to get
  the mutex back. Inside \<open>poll\<close> it has \<open>maxReads\<close> and the caller's buffer.
\<close>

datatype reader_pc =
    ROutside
  | RAsleep int "sensors_event list"
  | RWoken int "sensors_event list"

record system =
  sys_queues :: "sensors_event event_queue list"
  sys_next :: int
  sys_writers :: "writer_pc list"
  sys_reader :: reader_pc
  waiting_for_data :: bool

text \<open>
  What an observer sees: events marked as written, and a scan, with the \<open>maxReads\<close> and the buffer
  of the caller that makes it, the records it took and what the call returns, if it does.
\<close>

datatype label =
    Silent
  | Wrote nat "sensors_event list"
  | Scanned int "sensors_event list" "(nat \<times> sensors_event) list" "sensors_event list option"

section \<open>The steps\<close>

text \<open>A broadcast on the condition variable of a queue wakes the writer that sleeps on it.\<close>

definition wake_writers :: "nat list \<Rightarrow> writer_pc list \<Rightarrow> writer_pc list" where
  "wake_writers bs ws =
     map (\<lambda>i. if i \<in> set bs \<and> ws ! i = WAsleep then WLock else ws ! i) [0..<length ws]"

definition wake_reader :: "bool \<Rightarrow> reader_pc \<Rightarrow> reader_pc" where
  "wake_reader waiting r =
     (if waiting then (case r of RAsleep m data \<Rightarrow> RWoken m data | _ \<Rightarrow> r) else r)"

text \<open>
  The end of a scan: with events the call returns them, without it sets the flag and
  sleeps. The buffer keeps what the scan left in it.
\<close>

definition after_scan :: "int \<Rightarrow> scan \<Rightarrow> system \<Rightarrow> system" where
  "after_scan maxReads sc s =
     s\<lparr>sys_queues := sc_queues sc, sys_next := sc_next sc,
       sys_writers := wake_writers (sc_broadcast sc) (sys_writers s),
       sys_reader := (if sc_read sc = 0 then RAsleep maxReads (sc_data sc) else ROutside),
       waiting_for_data := (sc_read sc = 0)\<rparr>"

definition scan_result :: "scan \<Rightarrow> sensors_event list option" where
  "scan_result sc =
     (if sc_read sc = 0 then None else Some (take (nat (sc_read sc)) (sc_data sc)))"

inductive sys_step :: "hal_h \<Rightarrow> handle_maps \<Rightarrow> system \<Rightarrow> label \<Rightarrow> system \<Rightarrow> bool" for K h where
  writer_full:
    "i < length (sys_writers s) \<Longrightarrow> sys_writers s ! i = WLock \<Longrightarrow>
     waitForSpace_blocks (sys_queues s ! i) \<Longrightarrow>
     sys_step K h s Silent (s\<lparr>sys_writers := (sys_writers s)[i := WAsleep]\<rparr>)"
| writer_wakes:
    "i < length (sys_writers s) \<Longrightarrow> sys_writers s ! i = WAsleep \<Longrightarrow>
     sys_step K h s Silent (s\<lparr>sys_writers := (sys_writers s)[i := WLock]\<rparr>)"
| writer_region:
    "i < length (sys_writers s) \<Longrightarrow> sys_writers s ! i = WLock \<Longrightarrow>
     \<not> waitForSpace_blocks (sys_queues s ! i) \<Longrightarrow>
     getWritableRegion (sys_queues s ! i) SENSOR_EVENT_QUEUE_CAPACITY = (bufferSize, Some buffer) \<Longrightarrow>
     sys_step K h s Silent (s\<lparr>sys_writers := (sys_writers s)[i := WPolling buffer bufferSize]\<rparr>)"
| device_stores:
    "i < length (sys_writers s) \<Longrightarrow> sys_writers s ! i = WPolling buffer bufferSize \<Longrightarrow>
     0 \<le> k \<Longrightarrow> k < bufferSize \<Longrightarrow>
     sys_step K h s Silent
       (s\<lparr>sys_queues := (sys_queues s)[i := store (buffer + k) e (sys_queues s ! i)]\<rparr>)"
| device_nothing:
    "i < length (sys_writers s) \<Longrightarrow> sys_writers s ! i = WPolling buffer bufferSize \<Longrightarrow>
     sys_step K h s Silent (s\<lparr>sys_writers := (sys_writers s)[i := WLock]\<rparr>)"
| device_returns:
    "i < length (sys_writers s) \<Longrightarrow> sys_writers s ! i = WPolling buffer bufferSize \<Longrightarrow>
     0 < eventsPolled \<Longrightarrow> eventsPolled \<le> bufferSize \<Longrightarrow>
     sys_step K h s Silent (s\<lparr>sys_writers := (sys_writers s)[i := WPolled buffer eventsPolled]\<rparr>)"
| writer_marks:
    "i < length (sys_writers s) \<Longrightarrow> sys_writers s ! i = WPolled buffer eventsPolled \<Longrightarrow>
     sys_step K h s
       (Wrote i (map (\<lambda>k. mData (sys_queues s ! i) ! nat (buffer + int k)) [0..<nat eventsPolled]))
       (s\<lparr>sys_queues := (sys_queues s)[i := markAsWritten eventsPolled (sys_queues s ! i)],
          sys_writers := (sys_writers s)[i := WLock],
          sys_reader := wake_reader (waiting_for_data s) (sys_reader s)\<rparr>)"
| reader_calls:
    "sys_reader s = ROutside \<Longrightarrow> 0 < maxReads \<Longrightarrow> maxReads \<le> int (length data) \<Longrightarrow>
     poll_scan K h maxReads (scan_start (sys_queues s) (sys_next s) data) = Some (Inr sc) \<Longrightarrow>
     sys_step K h s (Scanned maxReads data (sc_taken sc) (scan_result sc)) (after_scan maxReads sc s)"
| reader_spurious:
    "sys_reader s = RAsleep maxReads data \<Longrightarrow>
     sys_step K h s Silent (s\<lparr>sys_reader := RWoken maxReads data\<rparr>)"
| reader_rescans:
    "sys_reader s = RWoken maxReads data \<Longrightarrow>
     poll_scan K h maxReads (scan_start (sys_queues s) (sys_next s) data) = Some (Inr sc) \<Longrightarrow>
     sys_step K h s (Scanned maxReads data (sc_taken sc) (scan_result sc)) (after_scan maxReads sc s)"

inductive sys_run :: "hal_h \<Rightarrow> handle_maps \<Rightarrow> system \<Rightarrow> label list \<Rightarrow> system \<Rightarrow> bool" for K h where
  run_refl: "sys_run K h s [] s"
| run_step: "sys_run K h s tr t \<Longrightarrow> sys_step K h t l u \<Longrightarrow> sys_run K h s (tr @ [l]) u"

text \<open>The threads of a context as \<open>open_sensors\<close> leaves it.\<close>

definition system_of :: "poll_context \<Rightarrow> system" where
  "system_of ctx =
     \<lparr>sys_queues = queues ctx, sys_next = nextReadIndex ctx,
      sys_writers = map (\<lambda>_. WLock) (threads ctx), sys_reader = ROutside,
      waiting_for_data = False\<rparr>"

section \<open>The invariant\<close>

text \<open>
  A sleeping writer sleeps on a full queue; the region of a polling writer is still the
  free one of its queue; a sleeping reader has set the flag and sleeps on empty queues.
\<close>

fun writer_ok :: "writer_pc \<Rightarrow> sensors_event event_queue \<Rightarrow> bool" where
  "writer_ok WLock q = True"
| "writer_ok WAsleep q = waitForSpace_blocks q"
| "writer_ok (WPolling buffer n) q =
     (buffer = firstWritable q \<and> 0 < n \<and> n \<le> region_length q SENSOR_EVENT_QUEUE_CAPACITY)"
| "writer_ok (WPolled buffer n) q =
     (buffer = firstWritable q \<and> 0 < n \<and> n \<le> region_length q SENSOR_EVENT_QUEUE_CAPACITY)"

fun reader_ok :: "reader_pc \<Rightarrow> bool \<Rightarrow> sensors_event event_queue list \<Rightarrow> bool" where
  "reader_ok ROutside waiting qs = (\<not> waiting)"
| "reader_ok (RAsleep m data) waiting qs =
     (waiting \<and> 0 < m \<and> m \<le> int (length data) \<and> (\<forall>q \<in> set qs. contents q = []))"
| "reader_ok (RWoken m data) waiting qs = (waiting \<and> 0 < m \<and> m \<le> int (length data))"

definition sys_inv :: "system \<Rightarrow> bool" where
  "sys_inv s \<longleftrightarrow>
     queues_ok (sys_queues s) \<and>
     length (sys_writers s) = length (sys_queues s) \<and>
     (sys_queues s = [] \<or> in_table (sys_queues s) (sys_next s)) \<and>
     (\<forall>i < length (sys_queues s). writer_ok (sys_writers s ! i) (sys_queues s ! i)) \<and>
     reader_ok (sys_reader s) (waiting_for_data s) (sys_queues s)"

lemma sys_invD:
  assumes "sys_inv s"
  shows "queues_ok (sys_queues s)" "length (sys_writers s) = length (sys_queues s)"
    "\<And>i. i < length (sys_queues s) \<Longrightarrow> writer_ok (sys_writers s ! i) (sys_queues s ! i)"
    "\<And>i. i < length (sys_queues s) \<Longrightarrow> queue_inv (sys_queues s ! i)"
    "reader_ok (sys_reader s) (waiting_for_data s) (sys_queues s)"
  using assms by (auto simp: sys_inv_def intro: queues_okD)

lemma sys_inv_writer:
  assumes "sys_inv s" "i < length (sys_writers s)" "writer_ok w (sys_queues s ! i)"
  shows "sys_inv (s\<lparr>sys_writers := (sys_writers s)[i := w]\<rparr>)"
proof -
  have "writer_ok ((sys_writers s)[i := w] ! j) (sys_queues s ! j)"
    if "j < length (sys_queues s)" for j
    using that assms by (cases "j = i") (auto simp: sys_inv_def)
  with assms(1) show ?thesis by (simp add: sys_inv_def)
qed

subsection \<open>The writers' steps\<close>

lemma region_ok:
  assumes "queue_inv q" "\<not> waitForSpace_blocks q"
    and "getWritableRegion q SENSOR_EVENT_QUEUE_CAPACITY = (n, Some buffer)"
  shows "writer_ok (WPolling buffer n) q"
proof -
  have "mSize q < mCapacity q"
    using assms(1,2) queue_invD(6) by (fastforce simp: waitForSpace_blocks_def)
  moreover have "(0 :: int) < SENSOR_EVENT_QUEUE_CAPACITY"
    by (simp add: SENSOR_EVENT_QUEUE_CAPACITY_def)
  ultimately have "0 < region_length q SENSOR_EVENT_QUEUE_CAPACITY"
    using assms(1) by (simp add: region_length_pos)
  with assms show ?thesis
    by (auto simp: getWritableRegion_eq split: if_splits)
qed

lemma writer_ok_store:
  "writer_ok w (store i e q) \<longleftrightarrow> writer_ok w q"
  by (cases w) (simp_all add: waitForSpace_blocks_def)

lemma store_inv:
  assumes "sys_inv s" "i < length (sys_writers s)" "sys_writers s ! i = WPolling buffer n"
    and "0 \<le> k" "k < n"
  shows "sys_inv (s\<lparr>sys_queues := (sys_queues s)[i := store (buffer + k) e (sys_queues s ! i)]\<rparr>)"
    and "contents (store (buffer + k) e (sys_queues s ! i)) = contents (sys_queues s ! i)"
proof -
  let ?q = "sys_queues s ! i" and ?q' = "store (buffer + k) e (sys_queues s ! i)"
  have i: "i < length (sys_queues s)" using assms(1,2) by (simp add: sys_inv_def)
  have q: "queue_inv ?q" and w: "writer_ok (WPolling buffer n) ?q"
    using sys_invD [OF assms(1)] i assms(3) by metis+
  then show c: "contents ?q' = contents ?q"
    using assms(4,5) contents_store_region [of ?q k SENSOR_EVENT_QUEUE_CAPACITY e] by simp
  have "writer_ok (sys_writers s ! j) ((sys_queues s)[i := ?q'] ! j)"
    if "j < length (sys_queues s)" for j
    using that sys_invD(3) [OF assms(1)] by (cases "j = i") (simp_all add: writer_ok_store)
  moreover have "queues_ok ((sys_queues s)[i := ?q'])"
    using sys_invD(1) [OF assms(1)] q by (intro queues_ok_update queue_inv_store)
  moreover have "reader_ok (sys_reader s) (waiting_for_data s) ((sys_queues s)[i := ?q'])"
    using sys_invD(5) [OF assms(1)] c i
    by (cases "sys_reader s") (auto dest!: set_update_subset_insert [THEN subsetD])
  ultimately show "sys_inv (s\<lparr>sys_queues := (sys_queues s)[i := ?q']\<rparr>)"
    using assms(1) by (auto simp: sys_inv_def in_table_def)
qed

lemma wake_reader_ok: "reader_ok r w qs \<Longrightarrow> reader_ok (wake_reader w r) w qs'"
  by (cases r) (auto simp: wake_reader_def)

lemma marks_inv:
  assumes "sys_inv s" "i < length (sys_writers s)" "sys_writers s ! i = WPolled buffer n"
  shows "sys_inv (s\<lparr>sys_queues := (sys_queues s)[i := markAsWritten n (sys_queues s ! i)],
      sys_writers := (sys_writers s)[i := WLock],
      sys_reader := wake_reader (waiting_for_data s) (sys_reader s)\<rparr>)"
    and "contents (markAsWritten n (sys_queues s ! i)) = contents (sys_queues s ! i) @
      map (\<lambda>k. mData (sys_queues s ! i) ! nat (buffer + int k)) [0..<nat n]"
proof -
  let ?q = "sys_queues s ! i" and ?q' = "markAsWritten n (sys_queues s ! i)"
  have i: "i < length (sys_queues s)" using assms(1,2) by (simp add: sys_inv_def)
  have q: "queue_inv ?q" and w: "writer_ok (WPolled buffer n) ?q"
    using sys_invD [OF assms(1)] i assms(3) by metis+
  then show "contents ?q' = contents ?q @
      map (\<lambda>k. mData ?q ! nat (buffer + int k)) [0..<nat n]"
    using contents_markAsWritten [of ?q n SENSOR_EVENT_QUEUE_CAPACITY]
    by (simp add: region_data_def)
  have "queue_inv ?q'"
    using q w by (intro queue_inv_markAsWritten [where r = SENSOR_EVENT_QUEUE_CAPACITY]) auto
  then have "queues_ok ((sys_queues s)[i := ?q'])"
    using sys_invD(1) [OF assms(1)] by (intro queues_ok_update)
  moreover have "writer_ok ((sys_writers s)[i := WLock] ! j) ((sys_queues s)[i := ?q'] ! j)"
    if "j < length (sys_queues s)" for j
    using that sys_invD [OF assms(1)] by (cases "j = i") simp_all
  ultimately show "sys_inv (s\<lparr>sys_queues := (sys_queues s)[i := ?q'],
      sys_writers := (sys_writers s)[i := WLock],
      sys_reader := wake_reader (waiting_for_data s) (sys_reader s)\<rparr>)"
    using assms(1) wake_reader_ok [OF sys_invD(5) [OF assms(1)]]
    by (auto simp: sys_inv_def in_table_def)
qed

subsection \<open>The reader's steps\<close>

lemma poll_scan_inv:
  assumes "sys_inv s" "0 < maxReads" "maxReads \<le> int (length data)"
    and "poll_scan K h maxReads (scan_start (sys_queues s) (sys_next s) data) = Some (Inr sc)"
  shows "(sys_queues s \<noteq> [] \<longrightarrow>
      scan_inv K h maxReads (sys_queues s) (length data) sc \<and> \<not> scan_more maxReads sc) \<and>
    (sys_queues s = [] \<longrightarrow> sc = scan_start [] (sys_next s) data)"
proof (cases "sys_queues s = []")
  case True
  with assms(4) show ?thesis
    by (simp add: poll_scan_def while_option_unfold scan_more_def scan_start_def)
next
  case False
  with assms(1) have "queues_ok (sys_queues s)" "in_table (sys_queues s) (sys_next s)"
    by (auto simp: sys_inv_def)
  from poll_scan_ends [OF this, of maxReads data K h] assms(2-4) False show ?thesis by auto
qed

lemma writer_ok_scan:
  assumes "writer_ok w q" "writer_view q' = writer_view q" "mSize q' \<le> mSize q"
    and "w = WAsleep \<Longrightarrow> waitForSpace_blocks q'"
  shows "writer_ok w q'"
  using assms by (cases w) (auto simp: writer_view_def region_length_def)

lemma wake_writers_nth:
  "i < length ws \<Longrightarrow> wake_writers bs ws ! i =
     (if i \<in> set bs \<and> ws ! i = WAsleep then WLock else ws ! i)"
  by (simp add: wake_writers_def)

lemma length_wake_writers [simp]: "length (wake_writers bs ws) = length ws"
  by (simp add: wake_writers_def)

lemma scan_size:
  assumes "scan_inv K h m qs len sc" "queues_ok qs" "i < length qs"
  shows "mSize (sc_queues sc ! i) \<le> mSize (qs ! i)"
proof -
  have "queue_inv (sc_queues sc ! i)" "queue_inv (qs ! i)"
    using assms by (auto simp: scan_inv_def intro: queues_okD)
  moreover have "length (contents (qs ! i)) = length (of_queue i (sc_taken sc) @ contents (sc_queues sc ! i))"
    using assms by (simp add: scan_inv_def)
  ultimately show ?thesis
    using queue_invD(5) [of "sc_queues sc ! i"] queue_invD(5) [of "qs ! i"]
    by (simp add: length_contents)
qed

lemma after_scan_inv:
  assumes "sys_inv s" "0 < maxReads" "maxReads \<le> int (length data)"
    and "poll_scan K h maxReads (scan_start (sys_queues s) (sys_next s) data) = Some (Inr sc)"
  shows "sys_inv (after_scan maxReads sc s)"
proof (cases "sys_queues s = []")
  case True
  then have "sc = scan_start [] (sys_next s) data" using poll_scan_inv [OF assms] by simp
  with True assms(1-3) show ?thesis
    by (simp add: sys_inv_def after_scan_def scan_start_def queues_ok_def)
next
  case False
  then have sc: "scan_inv K h maxReads (sys_queues s) (length data) sc" "\<not> scan_more maxReads sc"
    using poll_scan_inv [OF assms] by auto
  note d = sys_invD [OF assms(1)]
  have writers: "writer_ok (wake_writers (sc_broadcast sc) (sys_writers s) ! i) (sc_queues sc ! i)"
    if i: "i < length (sys_queues s)" for i
  proof (cases "i \<in> set (sc_broadcast sc) \<and> sys_writers s ! i = WAsleep")
    case True
    with i d(2) show ?thesis by (simp add: wake_writers_nth)
  next
    case False
    have "writer_ok (sys_writers s ! i) (sc_queues sc ! i)"
    proof (rule writer_ok_scan [OF d(3) [OF i]])
      show "writer_view (sc_queues sc ! i) = writer_view (sys_queues s ! i)"
        using sc(1) i by (simp add: scan_inv_def)
      show "mSize (sc_queues sc ! i) \<le> mSize (sys_queues s ! i)"
        by (rule scan_size [OF sc(1) d(1) i])
      show "waitForSpace_blocks (sc_queues sc ! i)" if "sys_writers s ! i = WAsleep"
        using that d(3) [OF i] sc(1) i False by (auto simp: scan_inv_def)
    qed
    with False i d(2) show ?thesis by (simp add: wake_writers_nth)
  qed
  have "contents q = []" if zero: "sc_read sc = 0" and q: "q \<in> set (sc_queues sc)" for q
  proof -
    obtain i where i: "i < length (sys_queues s)" "q = sc_queues sc ! i"
      using q sc(1) by (auto simp: in_set_conv_nth scan_inv_def)
    have "sc_read sc < maxReads" using zero assms(2) by simp
    from scan_exhausted [OF sc this i(1)] i(2) show ?thesis by simp
  qed
  then show ?thesis
    using sc(1) writers d(2) assms(2,3)
    by (auto simp: sys_inv_def after_scan_def scan_inv_def in_table_def)
qed

section \<open>Every step keeps the invariant\<close>

lemma sys_step_inv: "sys_step K h s l t \<Longrightarrow> sys_inv s \<Longrightarrow> sys_inv t"
proof (induction rule: sys_step.induct)
  case (writer_full i s)
  then show ?case by (intro sys_inv_writer) simp_all
next
  case (writer_wakes i s)
  then show ?case by (intro sys_inv_writer) simp_all
next
  case (writer_region i s n buffer)
  then have "queue_inv (sys_queues s ! i)" using sys_invD(2,4) by metis
  with writer_region show ?case by (intro sys_inv_writer region_ok) simp_all
next
  case (device_stores i s buffer n k e)
  then show ?case by (intro store_inv(1))
next
  case (device_nothing i s buffer n)
  then show ?case by (intro sys_inv_writer) simp_all
next
  case (device_returns i s buffer n c)
  then have "writer_ok (WPolling buffer n) (sys_queues s ! i)" using sys_invD(2,3) by metis
  with device_returns show ?case by (intro sys_inv_writer) simp_all
next
  case (writer_marks i s buffer n)
  then show ?case by (intro marks_inv(1))
next
  case (reader_calls s m data sc)
  then show ?case by (intro after_scan_inv)
next
  case (reader_spurious s m data)
  then show ?case by (auto simp: sys_inv_def)
next
  case (reader_rescans s m data sc)
  moreover from this have "0 < m" "m \<le> int (length data)" using sys_invD(5) [of s] by auto
  ultimately show ?case by (intro after_scan_inv)
qed

lemma sys_run_inv: "sys_run K h s tr t \<Longrightarrow> sys_inv s \<Longrightarrow> sys_inv t"
  by (induction rule: sys_run.induct) (auto intro: sys_step_inv)

lemma length_writers_step: "sys_step K h s l t \<Longrightarrow> length (sys_writers t) = length (sys_writers s)"
  by (induction rule: sys_step.induct) (simp_all add: after_scan_def)

lemma length_queues_step:
  "sys_step K h s l t \<Longrightarrow> sys_inv s \<Longrightarrow> length (sys_queues t) = length (sys_queues s)"
  using length_writers_step [of K h s l t] sys_step_inv [of K h s l t] sys_invD(2) by metis

section \<open>Histories\<close>

fun wrote_to :: "nat \<Rightarrow> label \<Rightarrow> sensors_event list" where
  "wrote_to i (Wrote j es) = (if j = i then es else [])"
| "wrote_to i l = []"

fun taken_by :: "label \<Rightarrow> (nat \<times> sensors_event) list" where
  "taken_by (Scanned m data taken r) = taken"
| "taken_by l = []"

fun returned_by :: "label \<Rightarrow> sensors_event list" where
  "returned_by (Scanned m data taken (Some es)) = es"
| "returned_by l = []"

definition all_wrote :: "nat \<Rightarrow> label list \<Rightarrow> sensors_event list" where
  "all_wrote i tr = concat (map (wrote_to i) tr)"

definition all_taken :: "label list \<Rightarrow> (nat \<times> sensors_event) list" where
  "all_taken tr = concat (map taken_by tr)"

definition all_returned :: "label list \<Rightarrow> sensors_event list" where
  "all_returned tr = concat (map returned_by tr)"

lemma scan_history:
  assumes "sys_inv s" "0 < maxReads" "maxReads \<le> int (length data)"
    and "poll_scan K h maxReads (scan_start (sys_queues s) (sys_next s) data) = Some (Inr sc)"
  shows "i < length (sys_queues s) \<Longrightarrow>
      contents (sys_queues s ! i) = of_queue i (sc_taken sc) @ contents (sc_queues sc ! i)"
    and "returned_by (Scanned maxReads data (sc_taken sc) (scan_result sc)) = delivered K h (sc_taken sc)"
    and "scan_result sc = Some es \<Longrightarrow> es \<noteq> [] \<and> int (length es) \<le> maxReads"
proof -
  consider "sys_queues s = []" "sc = scan_start [] (sys_next s) data"
    | "scan_inv K h maxReads (sys_queues s) (length data) sc"
    using poll_scan_inv [OF assms] by blast
  note cases = this
  from cases show "contents (sys_queues s ! i) = of_queue i (sc_taken sc) @ contents (sc_queues sc ! i)"
    if "i < length (sys_queues s)"
    by cases (use that in \<open>auto simp: scan_inv_def\<close>)
  from cases show "returned_by (Scanned maxReads data (sc_taken sc) (scan_result sc)) = delivered K h (sc_taken sc)"
    by cases (auto simp: scan_inv_def scan_result_def scan_start_def)
  from cases show "es \<noteq> [] \<and> int (length es) \<le> maxReads" if "scan_result sc = Some es"
    by cases (use that assms(2,3) in \<open>auto simp: scan_inv_def scan_result_def scan_start_def
        split: if_splits\<close>)
qed

lemma step_history:
  assumes "sys_step K h s l t" "sys_inv s" "i < length (sys_queues s)"
  shows "contents (sys_queues s ! i) @ wrote_to i l =
    of_queue i (taken_by l) @ contents (sys_queues t ! i)"
  using assms
proof (induction rule: sys_step.induct)
  case (device_stores j s buffer n k e)
  then show ?case using store_inv(2) [of s j buffer n k e] by (cases "i = j") simp_all
next
  case (writer_marks j s buffer n)
  then show ?case using marks_inv(2) [of s j buffer n] by (cases "i = j") simp_all
next
  case (reader_calls s m data sc)
  then show ?case using scan_history(1) [of s m data K h sc i] by (simp add: after_scan_def)
next
  case (reader_rescans s m data sc)
  moreover from this have "0 < m" "m \<le> int (length data)" using sys_invD(5) [of s] by auto
  ultimately show ?case using scan_history(1) [of s m data K h sc i] by (simp add: after_scan_def)
qed simp_all

lemma step_returned:
  assumes "sys_step K h s l t" "sys_inv s"
  shows "returned_by l = delivered K h (taken_by l)"
  using assms
proof (induction rule: sys_step.induct)
  case (reader_calls s m data sc)
  then show ?case using scan_history(2) [of s m data K h sc] by simp
next
  case (reader_rescans s m data sc)
  moreover from this have "0 < m" "m \<le> int (length data)" using sys_invD(5) [of s] by auto
  ultimately show ?case using scan_history(2) [of s m data K h sc] by simp
qed simp_all

lemma run_history:
  assumes "sys_run K h s tr t" "sys_inv s"
  shows "length (sys_queues t) = length (sys_queues s) \<and>
    (\<forall>i < length (sys_queues s). contents (sys_queues s ! i) @ all_wrote i tr =
       of_queue i (all_taken tr) @ contents (sys_queues t ! i)) \<and>
    all_returned tr = delivered K h (all_taken tr)"
  using assms
proof (induction rule: sys_run.induct)
  case (run_refl s)
  then show ?case by (simp add: all_wrote_def all_taken_def all_returned_def)
next
  case (run_step s tr t l u)
  have t: "sys_inv t" using run_step sys_run_inv by blast
  have len: "length (sys_queues t) = length (sys_queues s)" using run_step by blast
  have "contents (sys_queues s ! i) @ all_wrote i (tr @ [l]) =
      of_queue i (all_taken (tr @ [l])) @ contents (sys_queues u ! i)"
    if i: "i < length (sys_queues s)" for i
  proof -
    have "contents (sys_queues s ! i) @ all_wrote i (tr @ [l]) =
        of_queue i (all_taken tr) @ contents (sys_queues t ! i) @ wrote_to i l"
      using run_step i by (simp add: all_wrote_def flip: append_assoc)
    also have "\<dots> = of_queue i (all_taken (tr @ [l])) @ contents (sys_queues u ! i)"
      using step_history [OF run_step.hyps(2) t, of i] i len by (simp add: all_taken_def)
    finally show ?thesis .
  qed
  moreover have "all_returned (tr @ [l]) = delivered K h (all_taken (tr @ [l]))"
    using run_step step_returned [OF run_step.hyps(2) t]
    by (simp add: all_returned_def all_taken_def)
  ultimately show ?case using len length_queues_step [OF run_step.hyps(2) t] by simp
qed

section \<open>The initial state\<close>

lemma system_of_inv:
  assumes "tasks_match ctx" "queues_ok (queues ctx)"
    and "queues ctx = [] \<or> in_table (queues ctx) (nextReadIndex ctx)"
  shows "sys_inv (system_of ctx)"
  using assms by (auto simp: sys_inv_def system_of_def tasks_match_def)

lemma started_tasks: "tasks_match (started env name)"
  unfolding started_def by (rule open_modules_tasks) (simp add: tasks_match_def empty_context_def)

lemma started_queues:
  "queues (started env name) =
     map (\<lambda>_. SensorEventQueue (env_heap_event env) SENSOR_EVENT_QUEUE_CAPACITY)
       (filter (opens env name) (loaded env))"
  by (simp add: started_def open_modules_queues empty_context_def)

lemma started_system_inv: "sys_inv (system_of (started env name))"
proof (rule system_of_inv [OF started_tasks])
  show "queues_ok (queues (started env name))"
    by (simp add: started_queues queues_ok_def queue_inv_SensorEventQueue
        SENSOR_EVENT_QUEUE_CAPACITY_def)
  have "nextReadIndex (started env name) = 0"
    by (simp add: started_def open_modules_next empty_context_def)
  then show "queues (started env name) = [] \<or>
      in_table (queues (started env name)) (nextReadIndex (started env name))"
    by (auto simp: in_table_def)
qed

lemma started_contents:
  "i < length (queues (started env name)) \<Longrightarrow> contents (queues (started env name) ! i) = []"
  by (simp add: started_queues contents_SensorEventQueue)

section \<open>Steps by their label\<close>

inductive_cases wrote_stepE: "sys_step K h s (Wrote i es) t"
inductive_cases scanned_stepE: "sys_step K h s (Scanned m data taken r) t"

lemma start_inv:
  assumes "env_stable env" "startup env K name initial_globals = Inr (ctx, g)"
  shows "sys_inv (system_of ctx)"
  using startupD(2) [OF assms] started_system_inv by simp

lemma reachable_inv:
  assumes "env_stable env" "startup env K name initial_globals = Inr (ctx, g)"
    and "sys_run K (handles g) (system_of ctx) tr t"
  shows "sys_inv t"
  by (rule sys_run_inv [OF assms(3) start_inv [OF assms(1,2)]])

text \<open>The capacity of a queue does not change.\<close>

lemma step_capacity:
  assumes "sys_step K h s l t" "sys_inv s" "i < length (sys_queues s)"
  shows "mCapacity (sys_queues t ! i) = mCapacity (sys_queues s ! i)"
  using assms
proof (induction rule: sys_step.induct)
  case (device_stores j s buffer n k e)
  then show ?case by (cases "i = j") simp_all
next
  case (writer_marks j s buffer n)
  then show ?case by (cases "i = j") (simp_all add: markAsWritten_def)
next
  case (reader_calls s m data sc)
  then show ?case
    using poll_scan_inv [of s m data K h sc] by (auto simp: after_scan_def scan_inv_def writer_view_def)
next
  case (reader_rescans s m data sc)
  moreover from this have "0 < m" "m \<le> int (length data)" using sys_invD(5) [of s] by auto
  ultimately show ?case
    using poll_scan_inv [of s m data K h sc] by (auto simp: after_scan_def scan_inv_def writer_view_def)
qed simp_all

lemma run_capacity:
  assumes "sys_run K h s tr t" "sys_inv s" "i < length (sys_queues s)"
  shows "mCapacity (sys_queues t ! i) = mCapacity (sys_queues s ! i)"
  using assms
proof (induction rule: sys_run.induct)
  case (run_step s tr t l u)
  have "sys_inv t" using run_step sys_run_inv by blast
  moreover have "i < length (sys_queues t)" using run_history [OF run_step.hyps(1)] run_step.prems by simp
  ultimately show ?case using step_capacity [OF run_step.hyps(2)] run_step by simp
qed simp

lemma started_capacity:
  "i < length (queues (started env name)) \<Longrightarrow>
     mCapacity (queues (started env name) ! i) = SENSOR_EVENT_QUEUE_CAPACITY"
  by (simp add: started_queues SensorEventQueue_def)

lemma reachable_capacity:
  assumes "env_stable env" "startup env K name initial_globals = Inr (ctx, g)"
    and "sys_run K (handles g) (system_of ctx) tr t" "i < length (queues ctx)"
  shows "mCapacity (sys_queues t ! i) = SENSOR_EVENT_QUEUE_CAPACITY"
    and "i < length (sys_queues t)"
  using run_capacity [OF assms(3) start_inv [OF assms(1,2)], of i] started_capacity [of i env name]
    startupD(2) [OF assms(1,2)] run_history [OF assms(3) start_inv [OF assms(1,2)]] assms(4)
  by (simp_all add: system_of_def)

text \<open>What a step of another thread leaves of the array of a queue.\<close>

lemma step_data:
  assumes "sys_step K h s l t" "sys_inv s" "i < length (sys_queues s)"
  shows "mData (sys_queues t ! i) = mData (sys_queues s ! i) \<or>
    (\<exists>buffer n k e. sys_writers s ! i = WPolling buffer n \<and> 0 \<le> k \<and> k < n \<and>
       sys_queues t ! i = store (buffer + k) e (sys_queues s ! i))"
  using assms
proof (induction rule: sys_step.induct)
  case (device_stores j s buffer n k e)
  then show ?case by (cases "i = j") auto
next
  case (writer_marks j s buffer n)
  then show ?case by (cases "i = j") (simp_all add: markAsWritten_def)
next
  case (reader_calls s m data sc)
  then show ?case
    using poll_scan_inv [of s m data K h sc] by (auto simp: after_scan_def scan_inv_def writer_view_def)
next
  case (reader_rescans s m data sc)
  moreover from this have "0 < m" "m \<le> int (length data)" using sys_invD(5) [of s] by auto
  ultimately show ?case
    using poll_scan_inv [of s m data K h sc] by (auto simp: after_scan_def scan_inv_def writer_view_def)
qed simp_all

text \<open>Every call of \<open>poll\<close> gets through its scan.\<close>

lemma scan_total:
  assumes "sys_inv s" "0 < maxReads" "maxReads \<le> int (length data)"
  shows "\<exists>sc. poll_scan K h maxReads (scan_start (sys_queues s) (sys_next s) data) = Some (Inr sc)"
proof (cases "sys_queues s = []")
  case True
  then show ?thesis
    by (simp add: poll_scan_def while_option_unfold scan_more_def scan_start_def)
next
  case False
  with assms(1) have "queues_ok (sys_queues s)" "in_table (sys_queues s) (sys_next s)"
    by (auto simp: sys_inv_def)
  from poll_scan_ends [OF this, of maxReads data K h] assms(2,3) show ?thesis by auto
qed

text \<open>What a scan of a caller leaves, and when it gives something back.\<close>

lemma delivered_empty:
  "delivered K h taken = [] \<longleftrightarrow>
     (\<forall>(i, e) \<in> set taken. ev_sensor (copy_event_remap_handle K h e (int i)) = -1)"
  by (auto simp: delivered_def filter_empty_conv)

lemma in_of_queue: "e \<in> set (of_queue i taken) \<longleftrightarrow> (i, e) \<in> set taken"
  by (force simp: of_queue_def)

lemma scan_left:
  assumes "sys_inv s" "0 < maxReads" "maxReads \<le> int (length data)"
    and "poll_scan K h maxReads (scan_start (sys_queues s) (sys_next s) data) = Some (Inr sc)"
  shows "int (length (delivered K h (sc_taken sc))) = sc_read sc"
    and "(i, e) \<in> set (sc_taken sc) \<Longrightarrow>
      i < length (sys_queues s) \<and> e \<in> set (contents (sys_queues s ! i))"
    and "sc_read sc < maxReads \<Longrightarrow> q \<in> set (sc_queues sc) \<Longrightarrow> contents q = []"
    and "sc_read sc < maxReads \<Longrightarrow> i < length (sys_queues s) \<Longrightarrow> e \<in> set (contents (sys_queues s ! i)) \<Longrightarrow>
      (i, e) \<in> set (sc_taken sc)"
proof -
  note h = scan_history(1) [OF assms]
  consider "sys_queues s = []" "sc = scan_start [] (sys_next s) data"
    | "scan_inv K h maxReads (sys_queues s) (length data) sc" "\<not> scan_more maxReads sc"
    using poll_scan_inv [OF assms] by blast
  note cases = this
  from cases show "int (length (delivered K h (sc_taken sc))) = sc_read sc"
  proof cases
    case 2
    then have "delivered K h (sc_taken sc) = take (nat (sc_read sc)) (sc_data sc)" "0 \<le> sc_read sc"
      "sc_read sc \<le> int (length (sc_data sc))"
      using assms(3) by (simp_all add: scan_inv_def)
    then show ?thesis by simp
  qed (simp add: scan_start_def)
  from cases have index: "i < length (sys_queues s)" if "(i, e) \<in> set (sc_taken sc)" for i e
    by cases (use that in \<open>auto simp: scan_inv_def scan_start_def\<close>)
  show "i < length (sys_queues s) \<and> e \<in> set (contents (sys_queues s ! i))" if "(i, e) \<in> set (sc_taken sc)"
    using index [OF that] h [of i] in_of_queue [of e i "sc_taken sc"] that by simp
  have drained: "contents (sc_queues sc ! i) = []"
    if "sc_read sc < maxReads" "i < length (sys_queues s)" for i
    using cases by cases (use scan_exhausted that in auto)
  have "length (sc_queues sc) = length (sys_queues s)"
    using cases by cases (simp_all add: scan_inv_def scan_start_def)
  then show "contents q = []" if "sc_read sc < maxReads" "q \<in> set (sc_queues sc)"
    using drained that by (auto simp: in_set_conv_nth)
  show "(i, e) \<in> set (sc_taken sc)"
    if "sc_read sc < maxReads" "i < length (sys_queues s)" "e \<in> set (contents (sys_queues s ! i))"
    using that h [OF that(2)] drained [OF that(1,2)] in_of_queue [of e i "sc_taken sc"] by simp
qed

lemma scan_result_iff:
  assumes "sys_inv s" "0 < maxReads" "maxReads \<le> int (length data)"
    and "poll_scan K h maxReads (scan_start (sys_queues s) (sys_next s) data) = Some (Inr sc)"
  shows "scan_result sc \<noteq> None \<longleftrightarrow> (\<exists>i < length (sys_queues s). \<exists>e \<in> set (contents (sys_queues s ! i)).
      ev_sensor (copy_event_remap_handle K h e (int i)) \<noteq> -1)"
proof -
  note left = scan_left [OF assms]
  have "scan_result sc \<noteq> None \<longleftrightarrow> delivered K h (sc_taken sc) \<noteq> []"
    using left(1) by (auto simp: scan_result_def)
  also have "\<dots> \<longleftrightarrow> (\<exists>(i, e) \<in> set (sc_taken sc). ev_sensor (copy_event_remap_handle K h e (int i)) \<noteq> -1)"
    by (auto simp: delivered_empty)
  also have "\<dots> \<longleftrightarrow> (\<exists>i < length (sys_queues s). \<exists>e \<in> set (contents (sys_queues s ! i)).
      ev_sensor (copy_event_remap_handle K h e (int i)) \<noteq> -1)" (is "?l \<longleftrightarrow> ?r")
  proof
    assume ?l
    with left(2) show ?r by fast
  next
    assume r: ?r
    show ?l
    proof (cases "sc_read sc = 0")
      case True
      with assms(2) have "sc_read sc < maxReads" by simp
      with left(4) r show ?thesis by blast
    next
      case False
      with left(1) have "delivered K h (sc_taken sc) \<noteq> []" by auto
      then show ?thesis by (auto simp: delivered_empty)
    qed
  qed
  finally show ?thesis .
qed

lemma scan_outcome:
  assumes "sys_inv s" "0 < maxReads" "maxReads \<le> int (length data)"
    and "poll_scan K h maxReads (scan_start (sys_queues s) (sys_next s) data) = Some (Inr sc)"
  shows "case scan_result sc of
       Some es \<Rightarrow> sys_reader (after_scan maxReads sc s) = ROutside \<and> es = delivered K h (sc_taken sc) \<and>
         es \<noteq> [] \<and> int (length es) \<le> maxReads \<and> (\<forall>e \<in> set es. ev_sensor e \<noteq> -1) \<and>
         (int (length es) < maxReads \<longrightarrow> (\<forall>q \<in> set (sys_queues (after_scan maxReads sc s)). contents q = []))
     | None \<Rightarrow> (\<exists>d. sys_reader (after_scan maxReads sc s) = RAsleep maxReads d) \<and>
         waiting_for_data (after_scan maxReads sc s) \<and>
         (\<forall>q \<in> set (sys_queues (after_scan maxReads sc s)). contents q = [])"
proof (cases "scan_result sc")
  case None
  then have "sc_read sc = 0" by (simp add: scan_result_def split: if_splits)
  with scan_left(3) [OF assms] assms(2) None show ?thesis by (simp add: after_scan_def)
next
  case (Some es)
  note h = scan_history(2,3) [OF assms]
  have es: "es = delivered K h (sc_taken sc)" using h(1) Some by simp
  moreover have "sys_reader (after_scan maxReads sc s) = ROutside"
    using Some by (simp add: scan_result_def after_scan_def split: if_splits)
  moreover have "contents q = []"
    if "int (length es) < maxReads" "q \<in> set (sys_queues (after_scan maxReads sc s))" for q
    using scan_left(1,3) [OF assms] that es by (simp add: after_scan_def)
  moreover have "\<forall>e \<in> set es. ev_sensor e \<noteq> -1" using es by (auto simp: delivered_def)
  ultimately show ?thesis using h(2) [OF Some] Some by simp
qed

section \<open>Properties\<close>

text \<open>
  A run for the witnesses: the first writer of the demo environment gets its region, its
  device stores one event and returns, and the writer marks it.
\<close>

definition demo_system :: system where
  "demo_system = system_of (started demo_env ''poll'')"

definition demo_stored :: "sensors_event event_queue" where
  "demo_stored = store 0 (demo_event 5 1) (sys_queues demo_system ! 0)"

definition demo_polled :: system where
  "demo_polled = demo_system
     \<lparr>sys_queues := (sys_queues demo_system)[0 := demo_stored],
      sys_writers := [WPolled 0 1, WLock]\<rparr>"

definition demo_wrote :: system where
  "demo_wrote = demo_polled
     \<lparr>sys_queues := (sys_queues demo_system)[0 := markAsWritten 1 demo_stored],
      sys_writers := [WLock, WLock], sys_reader := ROutside\<rparr>"

lemma demo_opens: "opens demo_env ''poll'' m"
  by (simp add: opens_def demo_env_def)

lemma demo_queue_count: "length (queues (started demo_env ''poll'')) = 2"
  by (simp add: started_queues demo_loaded demo_opens)

lemma demo_system_simps:
  "sys_writers demo_system = [WLock, WLock]" "sys_reader demo_system = ROutside"
  "waiting_for_data demo_system = False" "length (sys_queues demo_system) = 2"
  "sys_queues demo_system ! 0 = SensorEventQueue (env_heap_event demo_env) 36"
proof -
  have "length (threads (started demo_env ''poll'')) = 2"
    using started_tasks [of demo_env "''poll''"] demo_queue_count by (simp add: tasks_match_def)
  then have "map (\<lambda>_. WLock) (threads (started demo_env ''poll'')) = [WLock, WLock]"
    by (simp add: map_replicate_const numeral_2_eq_2)
  then show "sys_writers demo_system = [WLock, WLock]" by (simp add: demo_system_def system_of_def)
  show "sys_queues demo_system ! 0 = SensorEventQueue (env_heap_event demo_env) 36"
    by (simp add: demo_system_def system_of_def started_queues demo_loaded demo_opens
        SENSOR_EVENT_QUEUE_CAPACITY_def)
qed (simp_all add: demo_system_def system_of_def demo_queue_count)

lemma demo_region:
  "\<not> waitForSpace_blocks (SensorEventQueue (env_heap_event demo_env) 36)"
  "getWritableRegion (SensorEventQueue (env_heap_event demo_env) 36) SENSOR_EVENT_QUEUE_CAPACITY =
     (36, Some 0)"
  "mData demo_stored ! 0 = demo_event 5 1"
proof -
  show "\<not> waitForSpace_blocks (SensorEventQueue (env_heap_event demo_env) 36)"
    "getWritableRegion (SensorEventQueue (env_heap_event demo_env) 36) SENSOR_EVENT_QUEUE_CAPACITY =
       (36, Some 0)"
    by code_simp+
  have "mData (store 0 (demo_event 5 1) (SensorEventQueue (env_heap_event demo_env) 36)) ! 0 = demo_event 5 1"
    by code_simp
  then show "mData demo_stored ! 0 = demo_event 5 1"
    by (simp add: demo_stored_def demo_system_simps)
qed

lemma demo_marks: "sys_step K h demo_polled (Wrote 0 [demo_event 5 1]) demo_wrote"
proof -
  have "sys_step K h demo_polled
      (Wrote 0 (map (\<lambda>k. mData (sys_queues demo_polled ! 0) ! nat (0 + int k)) [0..<nat 1]))
      (demo_polled\<lparr>sys_queues := (sys_queues demo_polled)[0 := markAsWritten 1 (sys_queues demo_polled ! 0)],
         sys_writers := (sys_writers demo_polled)[0 := WLock],
         sys_reader := wake_reader (waiting_for_data demo_polled) (sys_reader demo_polled)\<rparr>)"
    by (rule writer_marks) (simp_all add: demo_polled_def)
  then show ?thesis
    by (simp add: demo_wrote_def demo_polled_def demo_system_simps demo_region wake_reader_def)
qed

lemma demo_run:
  "\<exists>tr. sys_run K h demo_system tr demo_polled \<and>
     sys_run K h demo_system (tr @ [Wrote 0 [demo_event 5 1]]) demo_wrote \<and>
     all_wrote 0 (tr @ [Wrote 0 [demo_event 5 1]]) = [demo_event 5 1]"
proof (intro exI conjI)
  let ?s = demo_system
  let ?s1 = "?s\<lparr>sys_writers := (sys_writers ?s)[0 := WPolling 0 36]\<rparr>"
  let ?s2 = "?s1\<lparr>sys_queues := (sys_queues ?s1)[0 := store (0 + 0) (demo_event 5 1) (sys_queues ?s1 ! 0)]\<rparr>"
  let ?s3 = "?s2\<lparr>sys_writers := (sys_writers ?s2)[0 := WPolled 0 1]\<rparr>"
  note d = demo_system_simps demo_region
  have "sys_step K h ?s Silent ?s1" by (rule writer_region) (simp_all add: d)
  moreover have "sys_step K h ?s1 Silent ?s2" by (rule device_stores [where bufferSize = 36]) (simp_all add: d)
  moreover have "sys_step K h ?s2 Silent ?s3" by (rule device_returns [where bufferSize = 36]) (simp_all add: d)
  moreover have s3: "?s3 = demo_polled" by (simp add: demo_polled_def demo_stored_def d)
  ultimately show run: "sys_run K h ?s ((([] @ [Silent]) @ [Silent]) @ [Silent]) demo_polled"
    by (metis run_refl run_step)
  from demo_marks show "sys_run K h ?s (((([] @ [Silent]) @ [Silent]) @ [Silent]) @ [Wrote 0 [demo_event 5 1]]) demo_wrote"
    by (rule run_step [OF run])
qed (simp add: all_wrote_def)

text \<open>
  C19. From the device to the caller. In every run of the threads of a started multihal,
  however their steps interleave, the events a sub-HAL wrote are, in order and each once,
  the records that scans took from its queue followed by those still in it; and the events
  that calls of \<open>poll\<close> returned are, in order, exactly the taken records that have a global
  handle, translated.
\<close>

theorem events_end_to_end:
  assumes "env_stable env" "startup env K name initial_globals = Inr (ctx, g)"
    and "sys_run K (handles g) (system_of ctx) tr t" "i < length (queues ctx)"
  shows "all_wrote i tr = of_queue i (all_taken tr) @ contents (sys_queues t ! i) \<and>
    all_returned tr = delivered K (handles g) (all_taken tr)"
proof -
  have "contents (sys_queues (system_of ctx) ! i) = []"
    using started_contents startupD(2) [OF assms(1,2)] assms(4) by (simp add: system_of_def)
  with run_history [OF assms(3) start_inv [OF assms(1,2)]] assms(4) show ?thesis
    by (fastforce simp: system_of_def)
qed

theorem events_end_to_end_witness:
  "\<exists>ctx g tr t. startup demo_env demo_h ''poll'' initial_globals = Inr (ctx, g) \<and>
     sys_run demo_h (handles g) (system_of ctx) tr t \<and>
     [demo_event 5 1] = of_queue 0 (all_taken tr) @ contents (sys_queues t ! 0)"
proof -
  obtain g where g: "startup demo_env demo_h ''poll'' initial_globals = Inr (started demo_env ''poll'', g)"
    using demo_started by blast
  obtain tr where tr: "sys_run demo_h (handles g) demo_system (tr @ [Wrote 0 [demo_event 5 1]]) demo_wrote"
    "all_wrote 0 (tr @ [Wrote 0 [demo_event 5 1]]) = [demo_event 5 1]"
    using demo_run by blast
  have "0 < length (queues (started demo_env ''poll''))" by (simp add: demo_queue_count)
  from events_end_to_end [OF demo_stable g tr(1) [unfolded demo_system_def] this] tr g show ?thesis
    unfolding demo_system_def by metis
qed

text \<open>
  C20. What a device stores outside the lock is private to it. In every reachable state the
  region of a polling writer lies inside the array of its queue, in slots that hold no
  record a reader could take; storing there leaves the contents of the queue as they
  are. And whatever step comes next, it leaves the whole array as it is, unless it is this
  device's own store.
\<close>

theorem device_stores_are_private:
  assumes "env_stable env" "startup env K name initial_globals = Inr (ctx, g)"
    and "sys_run K (handles g) (system_of ctx) tr t" "i < length (queues ctx)"
    and "sys_writers t ! i = WPolling buffer n"
  shows "0 \<le> buffer \<and> 0 < n \<and> buffer + n \<le> SENSOR_EVENT_QUEUE_CAPACITY \<and>
    (\<forall>k e. 0 \<le> k \<and> k < n \<longrightarrow>
       contents (store (buffer + k) e (sys_queues t ! i)) = contents (sys_queues t ! i)) \<and>
    (\<forall>l u. sys_step K (handles g) t l u \<longrightarrow>
       mData (sys_queues u ! i) = mData (sys_queues t ! i) \<or>
       (\<exists>k e. 0 \<le> k \<and> k < n \<and> sys_queues u ! i = store (buffer + k) e (sys_queues t ! i)))"
proof -
  note inv = reachable_inv [OF assms(1-3)] and cap = reachable_capacity [OF assms(1-4)]
  have q: "queue_inv (sys_queues t ! i)" "writer_ok (WPolling buffer n) (sys_queues t ! i)"
    using sys_invD(3,4) [OF inv cap(2)] assms(5) by simp_all
  have region: "0 \<le> buffer \<and> 0 < n \<and> buffer + n \<le> SENSOR_EVENT_QUEUE_CAPACITY"
    using q region_length_bounds [OF q(1), of SENSOR_EVENT_QUEUE_CAPACITY] slot_bounds [OF q(1)] cap(1)
    by (auto simp: firstWritable_slot)
  have unread: "contents (store (buffer + k) e (sys_queues t ! i)) = contents (sys_queues t ! i)"
    if "0 \<le> k" "k < n" for k e
    using q that contents_store_region [of "sys_queues t ! i" k SENSOR_EVENT_QUEUE_CAPACITY e] by simp
  have "mData (sys_queues u ! i) = mData (sys_queues t ! i) \<or>
      (\<exists>k e. 0 \<le> k \<and> k < n \<and> sys_queues u ! i = store (buffer + k) e (sys_queues t ! i))"
    if "sys_step K (handles g) t l u" for l u
    using step_data [OF that inv cap(2)] assms(5) by auto
  with region unread show ?thesis by blast
qed

theorem device_stores_are_private_witness:
  "\<exists>ctx g tr t. startup demo_env demo_h ''poll'' initial_globals = Inr (ctx, g) \<and>
     sys_run demo_h (handles g) (system_of ctx) tr t \<and> sys_writers t ! 0 = WPolling 0 36 \<and>
     contents (store (0 + 5) (demo_event 5 1) (sys_queues t ! 0)) = contents (sys_queues t ! 0)"
proof -
  obtain g where g: "startup demo_env demo_h ''poll'' initial_globals = Inr (started demo_env ''poll'', g)"
    using demo_started by blast
  let ?t = "demo_system\<lparr>sys_writers := (sys_writers demo_system)[0 := WPolling 0 36]\<rparr>"
  have "sys_step demo_h (handles g) demo_system Silent ?t"
    by (rule writer_region) (simp_all add: demo_system_simps demo_region)
  then have run: "sys_run demo_h (handles g) demo_system ([] @ [Silent]) ?t"
    by (rule run_step [OF run_refl])
  have "0 < length (queues (started demo_env ''poll''))" by (simp add: demo_queue_count)
  moreover have "sys_writers ?t ! 0 = WPolling 0 36" by (simp add: demo_system_simps)
  ultimately have "contents (store (0 + 5) (demo_event 5 1) (sys_queues ?t ! 0)) = contents (sys_queues ?t ! 0)"
    using device_stores_are_private [OF demo_stable g run [unfolded demo_system_def], of 0 0 36]
    unfolding demo_system_def by simp
  with g run \<open>sys_writers ?t ! 0 = WPolling 0 36\<close> show ?thesis unfolding demo_system_def by metis
qed

text \<open>
  C21. No wake-up is lost. In every reachable state a caller asleep in \<open>poll\<close> has set the
  flag that makes the next writer signal, and all queues are empty; a writer asleep in
  \<open>waitForSpace\<close> has a full queue; so the caller and a writer never sleep at the same time.
  A step that marks events leaves the caller awake, and a step that takes a record
  from a queue leaves its writer awake.
\<close>

theorem no_lost_wake_up:
  assumes "env_stable env" "startup env K name initial_globals = Inr (ctx, g)"
    and "sys_run K (handles g) (system_of ctx) tr t"
  shows "(\<forall>m data. sys_reader t = RAsleep m data \<longrightarrow>
      waiting_for_data t \<and> (\<forall>q \<in> set (sys_queues t). contents q = []) \<and>
      WAsleep \<notin> set (sys_writers t)) \<and>
    (\<forall>i < length (queues ctx). sys_writers t ! i = WAsleep \<longrightarrow>
      int (length (contents (sys_queues t ! i))) = SENSOR_EVENT_QUEUE_CAPACITY) \<and>
    (\<forall>i es u. sys_step K (handles g) t (Wrote i es) u \<longrightarrow> (\<forall>m data. sys_reader u \<noteq> RAsleep m data)) \<and>
    (\<forall>m data taken r u i. sys_step K (handles g) t (Scanned m data taken r) u \<and> i < length (queues ctx) \<and>
      of_queue i taken \<noteq> [] \<longrightarrow> sys_writers u ! i \<noteq> WAsleep)"
proof -
  note inv = reachable_inv [OF assms(1-3)] and cap = reachable_capacity [OF assms(1-3)]
  have full: "int (length (contents (sys_queues s ! i))) = mCapacity (sys_queues s ! i)"
    if "sys_inv s" "i < length (sys_queues s)" "sys_writers s ! i = WAsleep" for s i
    using sys_invD(3,4) [OF that(1,2)] that(3)
      queue_invD(5) [OF sys_invD(4) [OF that(1,2)]]
    by (simp add: waitForSpace_blocks_def length_contents)
  have asleep: "waiting_for_data t \<and> (\<forall>q \<in> set (sys_queues t). contents q = []) \<and>
      WAsleep \<notin> set (sys_writers t)" if r: "sys_reader t = RAsleep m data" for m data
  proof -
    have empty: "waiting_for_data t" "\<forall>q \<in> set (sys_queues t). contents q = []"
      using sys_invD(5) [OF inv] r by simp_all
    have "sys_writers t ! i \<noteq> WAsleep" if "i < length (sys_queues t)" for i
      using full [OF inv that] empty(2) that queue_invD [OF sys_invD(4) [OF inv that]] by fastforce
    with empty sys_invD(2) [OF inv] show ?thesis by (auto simp: in_set_conv_nth)
  qed
  have wrote: "sys_reader u \<noteq> RAsleep m data" if "sys_step K (handles g) t (Wrote i es) u" for i es u m data
    using that sys_invD(5) [OF inv]
    by (cases "sys_reader t") (auto elim!: wrote_stepE simp: wake_reader_def)
  have took: "sys_writers u ! i \<noteq> WAsleep"
    if step: "sys_step K (handles g) t (Scanned m data taken r) u" and i: "i < length (queues ctx)"
      and some: "of_queue i taken \<noteq> []" for m data taken r u i
  proof
    assume sleeps: "sys_writers u ! i = WAsleep"
    note inv' = sys_step_inv [OF step inv]
    have i': "i < length (sys_queues t)" "i < length (sys_queues u)"
      using cap(2) [OF i] length_queues_step [OF step inv] by simp_all
    have "contents (sys_queues t ! i) = of_queue i taken @ contents (sys_queues u ! i)"
      using step_history [OF step inv i'(1)] by simp
    moreover have "int (length (contents (sys_queues t ! i))) \<le> mCapacity (sys_queues t ! i)"
      using queue_invD [OF sys_invD(4) [OF inv i'(1)]] by (simp add: length_contents)
    moreover have "0 < length (of_queue i taken)" using some by simp
    ultimately show False
      using full [OF inv' i'(2) sleeps] step_capacity [OF step inv i'(1)] by simp
  qed
  show ?thesis using asleep wrote took full [OF inv] cap by auto
qed

theorem no_lost_wake_up_witness:
  "\<exists>ctx g tr t. startup demo_env demo_h ''poll'' initial_globals = Inr (ctx, g) \<and>
     sys_run demo_h (handles g) (system_of ctx) tr t \<and>
     sys_step demo_h (handles g) t (Wrote 0 [demo_event 5 1]) demo_wrote \<and>
     (\<forall>m data. sys_reader demo_wrote \<noteq> RAsleep m data)"
proof -
  obtain g where g: "startup demo_env demo_h ''poll'' initial_globals = Inr (started demo_env ''poll'', g)"
    using demo_started by blast
  obtain tr where tr: "sys_run demo_h (handles g) demo_system tr demo_polled"
    using demo_run by blast
  note marks = demo_marks [of demo_h "handles g"]
  have awake: "\<forall>m data. sys_reader demo_wrote \<noteq> RAsleep m data"
    using no_lost_wake_up [OF demo_stable g tr [unfolded demo_system_def]] marks by meson
  show ?thesis
    by (intro exI conjI, rule g, rule tr [unfolded demo_system_def], rule marks, rule awake)
qed

text \<open>
  C22. What a call of \<open>poll\<close> gives back. In every reachable state a caller that asks for at least
  one event, with room for what it asks for, and is about to call \<open>poll\<close> or has been woken in it
  can make its scan; and every such scan with its \<open>maxReads\<close> and its buffer either returns between
  one and \<open>maxReads\<close> events, none of them with handle \<open>-1\<close>, and fewer only if every queue is then
  empty, or puts the caller to sleep with the flag set and every queue empty. It returns exactly if
  some queue holds a record that is not dropped.
\<close>

theorem poll_returns_or_sleeps:
  assumes "env_stable env" "startup env K name initial_globals = Inr (ctx, g)"
    and "sys_run K (handles g) (system_of ctx) tr t"
    and "sys_reader t = ROutside \<and> 0 < maxReads \<and> maxReads \<le> int (length data) \<or>
      sys_reader t = RWoken maxReads data"
  shows "(\<exists>taken r u. sys_step K (handles g) t (Scanned maxReads data taken r) u) \<and>
    (\<forall>taken r u. sys_step K (handles g) t (Scanned maxReads data taken r) u \<longrightarrow>
      (case r of
         Some es \<Rightarrow> sys_reader u = ROutside \<and> es = delivered K (handles g) taken \<and> es \<noteq> [] \<and>
           int (length es) \<le> maxReads \<and> (\<forall>e \<in> set es. ev_sensor e \<noteq> -1) \<and>
           (int (length es) < maxReads \<longrightarrow> (\<forall>q \<in> set (sys_queues u). contents q = []))
       | None \<Rightarrow> (\<exists>d. sys_reader u = RAsleep maxReads d) \<and> waiting_for_data u \<and>
           (\<forall>q \<in> set (sys_queues u). contents q = [])) \<and>
      (r \<noteq> None \<longleftrightarrow> (\<exists>i < length (queues ctx). \<exists>e \<in> set (contents (sys_queues t ! i)).
         ev_sensor (copy_event_remap_handle K (handles g) e (int i)) \<noteq> -1)))"
proof (intro conjI allI impI)
  note inv = reachable_inv [OF assms(1-3)]
  have room: "0 < maxReads" "maxReads \<le> int (length data)"
    using assms(4) sys_invD(5) [OF inv] by auto
  obtain sc where sc: "poll_scan K (handles g) maxReads (scan_start (sys_queues t) (sys_next t) data) = Some (Inr sc)"
    using scan_total [OF inv room] by blast
  have "sys_step K (handles g) t (Scanned maxReads data (sc_taken sc) (scan_result sc)) (after_scan maxReads sc t)"
    using assms(4) sc by (auto intro: reader_calls reader_rescans)
  then show "\<exists>taken r u. sys_step K (handles g) t (Scanned maxReads data taken r) u" by blast
  fix taken r u
  assume "sys_step K (handles g) t (Scanned maxReads data taken r) u"
  with sc have "taken = sc_taken sc" "r = scan_result sc" "u = after_scan maxReads sc t"
    by (auto elim!: scanned_stepE)
  note u = this
  have "length (queues ctx) = length (sys_queues t)"
    using run_history [OF assms(3) start_inv [OF assms(1,2)]] by (simp add: system_of_def)
  then show "r \<noteq> None \<longleftrightarrow> (\<exists>i < length (queues ctx). \<exists>e \<in> set (contents (sys_queues t ! i)).
       ev_sensor (copy_event_remap_handle K (handles g) e (int i)) \<noteq> -1)"
    using scan_result_iff [OF inv room sc] unfolding u by simp
  show "case r of
         Some es \<Rightarrow> sys_reader u = ROutside \<and> es = delivered K (handles g) taken \<and> es \<noteq> [] \<and>
           int (length es) \<le> maxReads \<and> (\<forall>e \<in> set es. ev_sensor e \<noteq> -1) \<and>
           (int (length es) < maxReads \<longrightarrow> (\<forall>q \<in> set (sys_queues u). contents q = []))
       | None \<Rightarrow> (\<exists>d. sys_reader u = RAsleep maxReads d) \<and> waiting_for_data u \<and>
           (\<forall>q \<in> set (sys_queues u). contents q = [])"
    unfolding u by (rule scan_outcome [OF inv room sc])
qed

theorem poll_returns_or_sleeps_witness:
  "\<exists>ctx g tr t taken es u. startup demo_env demo_h ''poll'' initial_globals = Inr (ctx, g) \<and>
     sys_run demo_h (handles g) (system_of ctx) tr t \<and>
     sys_step demo_h (handles g) t (Scanned 1 [demo_event 0 0] taken (Some es)) u \<and>
     length es = 1"
proof -
  obtain g where g: "startup demo_env demo_h ''poll'' initial_globals = Inr (started demo_env ''poll'', g)"
    using demo_started by blast
  obtain tr where tr: "sys_run demo_h (handles g) demo_system (tr @ [Wrote 0 [demo_event 5 1]]) demo_wrote"
    using demo_run by blast
  have "sys_reader demo_wrote = ROutside" by (simp add: demo_wrote_def)
  then have "sys_reader demo_wrote = ROutside \<and> 0 < (1::int) \<and> 1 \<le> int (length [demo_event 0 0]) \<or>
      sys_reader demo_wrote = RWoken 1 [demo_event 0 0]" by simp
  note poll = poll_returns_or_sleeps [OF demo_stable g tr [unfolded demo_system_def] this]
  obtain taken r u where step: "sys_step demo_h (handles g) demo_wrote (Scanned 1 [demo_event 0 0] taken r) u"
    using poll by blast
  note outcome = poll [THEN conjunct2, rule_format, OF step]
  have "demo_event 5 1 \<in> set (contents (sys_queues demo_wrote ! 0))"
    by (simp add: demo_wrote_def demo_system_simps demo_stored_def) code_simp
  moreover have "ev_sensor (copy_event_remap_handle demo_h (handles g) (demo_event 5 1) (int 0)) \<noteq> -1"
    unfolding startupD(3) [OF demo_stable g] by code_simp
  moreover have "0 < length (queues (started demo_env ''poll''))" by (simp add: demo_queue_count)
  ultimately obtain es where es: "r = Some es" using outcome by blast
  with outcome have "length es = 1" by (cases es) auto
  with g tr step es show ?thesis unfolding demo_system_def by blast
qed

end
