(* ===== verification/Posix.thy ===== *)
theory Posix
  imports Prelude "HOL-Library.Word"
begin

text \<open>
  A small file system and the system calls the programs of the repository make on it. A
  call can fail or be interrupted at any point, and a transfer can be short: what happens
  is data of the world. Then what a call leaves alone, stated once for all calls.
\<close>

section \<open>Files and system calls\<close>

type_synonym byte = "8 word"

text \<open>\<open>f_synced\<close> is whether everything written to the file is on the disk.\<close>

record disk_file =
  f_content :: string
  f_mode :: nat
  f_uid :: nat
  f_gid :: nat
  f_synced :: bool

datatype node = Regular disk_file | Symlink string | Directory

type_synonym files = "string \<rightharpoonup> node"

datatype errno = EINTR | ENOENT | EEXIST | EISDIR | ELOOP | OtherErrno int

text \<open>
  How the next call goes: it fails, or it goes through; a transfer then moves at most so
  many bytes.
\<close>

datatype choice = Fail errno | Go nat

text \<open>
  The world of the process. \<open>w_choices\<close> says how each call goes, by its number; \<open>w_random\<close>
  is what \<open>/dev/urandom\<close> gives; \<open>w_create\<close> is what the umask and the ids of the process make
  of a new file, from its mode; \<open>w_helper\<close> is what the vendor helper does to the files, a
  program outside the repository. \<open>w_history\<close> lists the states of the file system after
  every call that changed it; no operation reads it.
\<close>

record world =
  w_files :: files
  w_choices :: "nat \<Rightarrow> choice"
  w_calls :: nat
  w_random :: "nat \<Rightarrow> byte"
  w_drawn :: nat
  w_create :: "nat \<Rightarrow> nat \<times> nat \<times> nat"
  w_helper :: "files \<Rightarrow> files"
  w_history :: "files list"

definition tick :: "world \<Rightarrow> world" where
  "tick w = w\<lparr>w_calls := Suc (w_calls w)\<rparr>"

definition set_files :: "files \<Rightarrow> world \<Rightarrow> world" where
  "set_files f w = w\<lparr>w_files := f, w_history := w_history w @ [f]\<rparr>"

definition next_choice :: "world \<Rightarrow> choice" where
  "next_choice w = w_choices w (w_calls w)"

text \<open>A call that only succeeds or fails.\<close>

definition sys_plain :: "world \<Rightarrow> (errno + unit) \<times> world" where
  "sys_plain w = (case next_choice w of Fail e \<Rightarrow> (Inl e, tick w) | Go n \<Rightarrow> (Inr (), tick w))"

text \<open>\<open>open\<close> with \<open>O_RDONLY | O_NOFOLLOW\<close>; a directory can be opened so.\<close>

definition sys_open_read :: "string \<Rightarrow> world \<Rightarrow> (errno + unit) \<times> world" where
  "sys_open_read path w =
     (case next_choice w of
        Fail e \<Rightarrow> (Inl e, tick w)
      | Go n \<Rightarrow>
          (case w_files w path of
             None \<Rightarrow> (Inl ENOENT, tick w)
           | Some (Symlink _) \<Rightarrow> (Inl ELOOP, tick w)
           | Some _ \<Rightarrow> (Inr (), tick w)))"

text \<open>The first \<open>read\<close> from a file that was opened.\<close>

definition sys_read_file :: "string \<Rightarrow> nat \<Rightarrow> world \<Rightarrow> (errno + string) \<times> world" where
  "sys_read_file path len w =
     (case next_choice w of
        Fail e \<Rightarrow> (Inl e, tick w)
      | Go n \<Rightarrow>
          (case w_files w path of
             Some (Regular f) \<Rightarrow> (Inr (take (min len n) (f_content f)), tick w)
           | _ \<Rightarrow> (Inl EISDIR, tick w)))"

definition sys_read_random :: "nat \<Rightarrow> world \<Rightarrow> (errno + byte list) \<times> world" where
  "sys_read_random len w =
     (case next_choice w of
        Fail e \<Rightarrow> (Inl e, tick w)
      | Go n \<Rightarrow> (Inr (map (w_random w) [w_drawn w..<w_drawn w + min len n]),
                (tick w)\<lparr>w_drawn := w_drawn w + min len n\<rparr>))"

definition sys_unlink :: "string \<Rightarrow> world \<Rightarrow> (errno + unit) \<times> world" where
  "sys_unlink path w =
     (case next_choice w of
        Fail e \<Rightarrow> (Inl e, tick w)
      | Go n \<Rightarrow>
          (case w_files w path of
             None \<Rightarrow> (Inl ENOENT, tick w)
           | Some Directory \<Rightarrow> (Inl EISDIR, tick w)
           | Some _ \<Rightarrow> (Inr (), set_files ((w_files w)(path := None)) (tick w))))"

text \<open>\<open>open\<close> with \<open>O_WRONLY | O_CREAT | O_EXCL | O_NOFOLLOW\<close>.\<close>

definition sys_create :: "string \<Rightarrow> nat \<Rightarrow> world \<Rightarrow> (errno + unit) \<times> world" where
  "sys_create path mode w =
     (case next_choice w of
        Fail e \<Rightarrow> (Inl e, tick w)
      | Go n \<Rightarrow>
          (case w_files w path of
             Some _ \<Rightarrow> (Inl EEXIST, tick w)
           | None \<Rightarrow>
               (let (m, u, g) = w_create w mode
                in (Inr (), set_files ((w_files w)(path \<mapsto> Regular
                     \<lparr>f_content = [], f_mode = m, f_uid = u, f_gid = g, f_synced = False\<rparr>))
                     (tick w)))))"

text \<open>The calls on the open file; its name still leads to it.\<close>

definition change_file :: "string \<Rightarrow> (disk_file \<Rightarrow> disk_file) \<Rightarrow> world \<Rightarrow> world" where
  "change_file path h w =
     (case w_files w path of
        Some (Regular f) \<Rightarrow> set_files ((w_files w)(path \<mapsto> Regular (h f))) w
      | _ \<Rightarrow> w)"

definition sys_fchmod :: "string \<Rightarrow> nat \<Rightarrow> world \<Rightarrow> (errno + unit) \<times> world" where
  "sys_fchmod path mode w =
     (case next_choice w of
        Fail e \<Rightarrow> (Inl e, tick w)
      | Go n \<Rightarrow> (Inr (), change_file path (\<lambda>f. f\<lparr>f_mode := mode\<rparr>) (tick w)))"

definition sys_fchown :: "string \<Rightarrow> nat \<Rightarrow> nat \<Rightarrow> world \<Rightarrow> (errno + unit) \<times> world" where
  "sys_fchown path uid gid w =
     (case next_choice w of
        Fail e \<Rightarrow> (Inl e, tick w)
      | Go n \<Rightarrow> (Inr (), change_file path (\<lambda>f. f\<lparr>f_uid := uid, f_gid := gid\<rparr>) (tick w)))"

definition sys_write :: "string \<Rightarrow> string \<Rightarrow> world \<Rightarrow> (errno + nat) \<times> world" where
  "sys_write path data w =
     (case next_choice w of
        Fail e \<Rightarrow> (Inl e, tick w)
      | Go n \<Rightarrow> (Inr (min (length data) n),
                change_file path (\<lambda>f. f\<lparr>f_content := f_content f @ take n data, f_synced := False\<rparr>)
                  (tick w)))"

definition sys_fsync :: "string \<Rightarrow> world \<Rightarrow> (errno + unit) \<times> world" where
  "sys_fsync path w =
     (case next_choice w of
        Fail e \<Rightarrow> (Inl e, tick w)
      | Go n \<Rightarrow> (Inr (), change_file path (\<lambda>f. f\<lparr>f_synced := True\<rparr>) (tick w)))"

text \<open>A file replaces what is at the new name, unless that is a directory.\<close>

definition sys_rename :: "string \<Rightarrow> string \<Rightarrow> world \<Rightarrow> (errno + unit) \<times> world" where
  "sys_rename old new w =
     (case next_choice w of
        Fail e \<Rightarrow> (Inl e, tick w)
      | Go n \<Rightarrow>
          (case w_files w old of
             None \<Rightarrow> (Inl ENOENT, tick w)
           | Some x \<Rightarrow>
               if w_files w new = Some Directory then (Inl EISDIR, tick w)
               else (Inr (), set_files ((w_files w)(old := None, new \<mapsto> x)) (tick w))))"

section \<open>Lemmas: what a call leaves alone\<close>

text \<open>
  From \<open>w\<close> to \<open>w'\<close> calls were made, but what is at \<open>path\<close> was the same after each of them.
\<close>

definition follows :: "string \<Rightarrow> world \<Rightarrow> world \<Rightarrow> bool" where
  "follows path w w' \<longleftrightarrow>
     w_choices w' = w_choices w \<and> w_calls w \<le> w_calls w' \<and> w_helper w' = w_helper w \<and>
     w_files w' path = w_files w path \<and>
     (\<exists>hs. w_history w' = w_history w @ hs \<and> (\<forall>f \<in> set hs. f path = w_files w path))"

lemma follows_refl [simp]: "follows path w w"
  by (simp add: follows_def)

lemma follows_trans: "follows path w1 w2 \<Longrightarrow> follows path w2 w3 \<Longrightarrow> follows path w1 w3"
  by (auto simp: follows_def)

lemma followsD:
  assumes "follows path w w'"
  shows "w_choices w' = w_choices w" "w_calls w \<le> w_calls w'" "w_files w' path = w_files w path"
  using assms by (simp_all add: follows_def)

lemma follows_tick [simp]: "follows path w (tick w)"
  by (simp add: follows_def tick_def)

lemma follows_drawn [simp]: "follows path w ((tick w)\<lparr>w_drawn := n\<rparr>)"
  by (simp add: follows_def tick_def)

lemma follows_set_files: "f path = w_files w path \<Longrightarrow> follows path w (set_files f (tick w))"
  by (simp add: follows_def set_files_def tick_def)

lemma follows_change_file:
  "path \<noteq> q \<Longrightarrow> follows path w (change_file q h (tick w))"
proof -
  assume q: "path \<noteq> q"
  have "w_files (tick w) = w_files w" by (simp add: tick_def)
  then show ?thesis
    using q follows_set_files by (auto simp: change_file_def split: option.split node.split)
qed

text \<open>From call \<open>n\<close> on nothing fails, and a transfer of up to 32 bytes is whole.\<close>

definition calm_from :: "nat \<Rightarrow> world \<Rightarrow> bool" where
  "calm_from n w \<longleftrightarrow> (\<forall>k \<ge> n. case w_choices w k of Fail e \<Rightarrow> False | Go m \<Rightarrow> 32 \<le> m)"

lemma calm_from_cong: "w_choices w' = w_choices w \<Longrightarrow> calm_from n w' = calm_from n w"
  by (simp add: calm_from_def)

text \<open>A system call, with the paths it may change.\<close>

locale file_call =
  fixes call :: "world \<Rightarrow> 'r \<times> world" and touched :: "string set"
  assumes frame: "path \<notin> touched \<Longrightarrow> follows path w (snd (call w))"
    and counts: "w_calls (snd (call w)) = Suc (w_calls w)"
    and choices: "w_choices (snd (call w)) = w_choices w"
begin

lemma result: "call w = (r, w') \<Longrightarrow> path \<notin> touched \<Longrightarrow> follows path w w'"
  using frame [of path w] by simp

lemma after: "follows path w0 w \<Longrightarrow> path \<notin> touched \<Longrightarrow> call w = (r, w') \<Longrightarrow> follows path w0 w'"
  using result follows_trans by blast

lemma counted: "call w = (r, w') \<Longrightarrow> w_calls w' = Suc (w_calls w)"
  using counts [of w] by simp

lemma calm: "call w = (r, w') \<Longrightarrow> calm_from n w \<Longrightarrow> calm_from n w'"
  using choices [of w] calm_from_cong [of w' w n] by simp

end

lemma calls_tick [simp]:
  "w_calls (tick w) = Suc (w_calls w)" "w_calls (set_files f w) = w_calls w"
  "w_calls (change_file q h w) = w_calls w" "w_choices (tick w) = w_choices w"
  "w_choices (set_files f w) = w_choices w" "w_choices (change_file q h w) = w_choices w"
  "w_files (tick w) = w_files w" "w_files (set_files f w) = f"
  by (simp_all add: tick_def set_files_def change_file_def split: option.split node.split)

interpretation plain: file_call sys_plain "{}"
  by unfold_locales (simp_all add: sys_plain_def split: choice.split)

interpretation open_call: file_call "sys_open_read p" "{}" for p
  by unfold_locales (simp_all add: sys_open_read_def split: choice.split option.split node.split)

interpretation reading: file_call "sys_read_file p len" "{}" for p len
  by unfold_locales (simp_all add: sys_read_file_def split: choice.split option.split node.split)

interpretation drawing: file_call "sys_read_random len" "{}" for len
  by unfold_locales (simp_all add: sys_read_random_def split: choice.split)

interpretation unlinking: file_call "sys_unlink p" "{p}" for p
  by unfold_locales
    (simp_all add: sys_unlink_def follows_set_files split: choice.split option.split node.split)

interpretation creating: file_call "sys_create p m" "{p}" for p m
  by unfold_locales
    (simp_all add: sys_create_def follows_set_files Let_def split: choice.split option.split prod.split)

interpretation chmod: file_call "sys_fchmod p m" "{p}" for p m
  by unfold_locales (simp_all add: sys_fchmod_def follows_change_file split: choice.split)

interpretation chown: file_call "sys_fchown p u g" "{p}" for p u g
  by unfold_locales (simp_all add: sys_fchown_def follows_change_file split: choice.split)

interpretation writing: file_call "sys_write p data" "{p}" for p data
  by unfold_locales (simp_all add: sys_write_def follows_change_file split: choice.split)

interpretation syncing: file_call "sys_fsync p" "{p}" for p
  by unfold_locales (simp_all add: sys_fsync_def follows_change_file split: choice.split)

interpretation renaming: file_call "sys_rename p q" "{p, q}" for p q
  by unfold_locales
    (simp_all add: sys_rename_def follows_set_files split: choice.split option.split)

end
