(* ===== verification/MacText.thy ===== *)
theory MacText
  imports Posix
begin

text \<open>
  The text form of an address in \<open>macaddr/mac_addr_normalization.cpp\<close>: parsing, printing,
  and what is accepted.
\<close>

unbundle bit_operations_syntax

section \<open>Parsing and printing\<close>

text \<open>\<open>tolower\<close> and \<open>isspace\<close> of the C locale.\<close>

definition tolower :: "int \<Rightarrow> int" where
  "tolower v = (if 65 \<le> v \<and> v \<le> 90 then v + 32 else v)"

definition isspace :: "char \<Rightarrow> bool" where
  "isspace c = (let v = of_char c :: int in v = 32 \<or> 9 \<le> v \<and> v \<le> 13)"

definition HexValue :: "char \<Rightarrow> int" where
  "HexValue c =
     (let v = of_char c :: int
      in if 48 \<le> v \<and> v \<le> 57 then v - 48
         else let v' = tolower v
              in if 97 \<le> v' \<and> v' \<le> 102 then v' - 97 + 10 else -1)"

text \<open>The loop over the six bytes, from \<open>index\<close> on; the array is returned as it stands.\<close>

function parse_bytes :: "string \<Rightarrow> nat \<Rightarrow> byte list \<Rightarrow> bool \<times> byte list" where
  "parse_bytes text index address =
     (if index < length address then
        let offset = index * 3;
            high = HexValue (text ! offset);
            low = HexValue (text ! (offset + 1))
        in if high < 0 \<or> low < 0 \<or> (index < length address - 1 \<and> text ! (offset + 2) \<noteq> CHR '':'')
           then (False, address)
           else parse_bytes text (index + 1)
                  (address[index := word_of_int (push_bit 4 high OR low)])
      else (True, address))"
  by auto
termination by (relation "measure (\<lambda>(text, index, address). length address - index)") auto

definition ParseMac :: "string \<Rightarrow> byte list \<Rightarrow> bool \<times> byte list" where
  "ParseMac text address =
     (if length text \<noteq> 17 then (False, address)
      else case parse_bytes text 0 address of
             (False, address') \<Rightarrow> (False, address')
           | (True, address') \<Rightarrow>
               (\<not> list_all (\<lambda>b. b = 0) address' \<and> \<not> list_all (\<lambda>b. b = 0xff) address' \<and>
                hd address' AND 0x01 = 0, address'))"

definition rstrip :: "string \<Rightarrow> string" where
  "rstrip text = rev (dropWhile isspace (rev text))"

text \<open>\<open>%02X\<close> for a byte, and the format string of the address.\<close>

definition hex_digit :: "nat \<Rightarrow> char" where
  "hex_digit n = (if n < 10 then char_of (48 + n) else char_of (55 + n))"

definition hex_byte :: "byte \<Rightarrow> string" where
  "hex_byte b = [hex_digit (unat b div 16), hex_digit (unat b mod 16)]"

fun format_mac :: "byte list \<Rightarrow> string" where
  "format_mac [] = []"
| "format_mac [b] = hex_byte b"
| "format_mac (b # bs) = hex_byte b @ CHR '':'' # format_mac bs"

section \<open>Lemmas: the text of an address\<close>

lemma of_char_int: "(of_char c :: int) = int (of_char c)"
  by (simp only: of_nat_of_char)

lemma byte_less: "unat (b :: byte) < 256"
  using unsigned_less [of b, where 'a = nat] by simp

lemma uint_byte: "0 \<le> k \<Longrightarrow> k < 256 \<Longrightarrow> uint (word_of_int k :: byte) = k"
  by (simp add: uint_word_of_int_eq take_bit_int_eq_self)

lemma HexValue_hex_digit: "n < 16 \<Longrightarrow> HexValue (hex_digit n) = int n"
  by (simp add: hex_digit_def HexValue_def of_char_int tolower_def Let_def)

text \<open>Upper case, for the letters of the ASCII range.\<close>

definition upper :: "char \<Rightarrow> char" where
  "upper c = (if 97 \<le> (of_char c :: nat) \<and> of_char c \<le> (122 :: nat) then char_of (of_char c - 32 :: nat) else c)"

lemma HexValue_range: "HexValue c = -1 \<or> 0 \<le> HexValue c \<and> HexValue c < 16"
  by (auto simp: HexValue_def tolower_def Let_def)

lemma hex_digit_HexValue:
  assumes "0 \<le> HexValue c"
  shows "hex_digit (nat (HexValue c)) = upper c"
proof -
  define v where "v = (of_char c :: nat)"
  have c: "c = char_of v" "(of_char c :: int) = int v" by (simp_all add: v_def of_char_int)
  from assms consider "48 \<le> v" "v \<le> 57" | "97 \<le> v" "v \<le> 102" | "65 \<le> v" "v \<le> 70"
    by (auto simp: HexValue_def tolower_def Let_def c(2) split: if_splits)
  then show ?thesis
    by cases (auto simp: HexValue_def tolower_def hex_digit_def upper_def Let_def c(2) v_def
        of_char_int nat_add_distrib nat_diff_distrib)
qed

lemma nibbles:
  assumes "0 \<le> h" "h < 16" "0 \<le> l" "l < 16"
  shows "push_bit 4 h OR l = 16 * h + (l :: int)"
proof -
  have "take_bit 4 l = l" using assms by (intro take_bit_int_eq_self) auto
  then show ?thesis
    using concat_bit_eq [of 4 l h] by (simp add: concat_bit_def or.commute push_bit_eq_mult)
qed

lemma byte_of_nibbles:
  "(word_of_int (push_bit 4 (int (unat b div 16)) OR int (unat b mod 16)) :: byte) = b"
proof -
  note byte_less [of b]
  then have "push_bit 4 (int (unat b div 16)) OR int (unat b mod 16) =
      16 * int (unat b div 16) + int (unat b mod 16)"
    by (intro nibbles) auto
  also have "\<dots> = int (16 * (unat b div 16) + unat b mod 16)"
    by (simp only: of_nat_add of_nat_mult of_nat_numeral)
  also have "\<dots> = int (unat b)" by (simp only: mult_div_mod_eq)
  finally show ?thesis by simp
qed

lemma nibbles_of_byte:
  assumes "0 \<le> h" "h < 16" "0 \<le> l" "l < 16"
  shows "hex_byte (word_of_int (push_bit 4 h OR l)) = [hex_digit (nat h), hex_digit (nat l)]"
proof -
  have "unat (word_of_int (16 * h + l) :: byte) = nat (16 * h + l)"
    unfolding unat_eq_nat_uint using assms by (subst uint_byte) auto
  then show ?thesis
    unfolding nibbles [OF assms] hex_byte_def using assms by (simp add: nat_add_distrib nat_mult_distrib)
qed

lemma length_format_mac: "bs \<noteq> [] \<Longrightarrow> Suc (length (format_mac bs)) = 3 * length bs"
  by (induction bs rule: format_mac.induct) (simp_all add: hex_byte_def)

text \<open>Addresses the program accepts: of one receiver, and neither all zeros nor all ones.\<close>

definition valid_address :: "byte list \<Rightarrow> bool" where
  "valid_address a \<longleftrightarrow>
     length a = 6 \<and> \<not> list_all (\<lambda>b. b = 0) a \<and> \<not> list_all (\<lambda>b. b = 0xff) a \<and> hd a AND 0x01 = 0"

lemma list_of_length_Suc: "length xs = Suc n \<Longrightarrow> \<exists>x ys. xs = x # ys \<and> length ys = n"
  by (cases xs) auto

lemma six: "length a = 6 \<Longrightarrow> \<exists>a0 a1 a2 a3 a4 a5. a = [a0, a1, a2, a3, a4, a5]"
  by (auto simp: numeral_eq_Suc dest!: list_of_length_Suc)

declare parse_bytes.simps [simp del]

lemma parse_step:
  "index < length address \<Longrightarrow>
   0 \<le> HexValue (text ! (index * 3)) \<Longrightarrow> 0 \<le> HexValue (text ! (index * 3 + 1)) \<Longrightarrow>
   (index < length address - 1 \<Longrightarrow> text ! (index * 3 + 2) = CHR '':'') \<Longrightarrow>
   parse_bytes text index address = parse_bytes text (index + 1)
     (address[index := word_of_int (push_bit 4 (HexValue (text ! (index * 3))) OR
                                    HexValue (text ! (index * 3 + 1)))])"
  by (subst parse_bytes.simps) (auto simp: Let_def)

lemma parse_last:
  "length address = Suc index \<Longrightarrow>
   0 \<le> HexValue (text ! (index * 3)) \<Longrightarrow> 0 \<le> HexValue (text ! (index * 3 + 1)) \<Longrightarrow>
   parse_bytes text index address = (True,
     address[index := word_of_int (push_bit 4 (HexValue (text ! (index * 3))) OR
                                   HexValue (text ! (index * 3 + 1)))])"
  by (simp add: parse_bytes.simps Let_def)

lemma parse_bytes_format:
  assumes "length a = 6" "length init = 6"
  shows "parse_bytes (format_mac a) 0 init = (True, a)"
proof -
  obtain a0 a1 a2 a3 a4 a5 where a: "a = [a0, a1, a2, a3, a4, a5]" using six [OF assms(1)] by blast
  obtain i0 i1 i2 i3 i4 i5 where i: "init = [i0, i1, i2, i3, i4, i5]" using six [OF assms(2)] by blast
  have d: "unat b div 16 < 16" for b :: byte using byte_less [of b] by auto
  show ?thesis
    unfolding a i
    by (simp add: parse_step hex_byte_def HexValue_hex_digit d byte_of_nibbles parse_last)
qed

lemma ParseMac_format:
  assumes "length a = 6" "length init = 6"
  shows "ParseMac (format_mac a) init = (valid_address a, a)"
proof -
  have "length (format_mac a) = 17" using length_format_mac [of a] assms(1) by fastforce
  with assms show ?thesis
    unfolding ParseMac_def valid_address_def by (simp add: parse_bytes_format)
qed

text \<open>What the loop accepts, byte by byte.\<close>

lemma parse_bytes_fail:
  "index < length address \<Longrightarrow>
   HexValue (text ! (index * 3)) < 0 \<or> HexValue (text ! (index * 3 + 1)) < 0 \<or>
     index < length address - 1 \<and> text ! (index * 3 + 2) \<noteq> CHR '':'' \<Longrightarrow>
   parse_bytes text index address = (False, address)"
  by (subst parse_bytes.simps) (simp add: Let_def)

lemma parse_bytes_length: "length (snd (parse_bytes str index address)) = length address"
  by (induction str index address rule: parse_bytes.induct)
     (subst parse_bytes.simps, simp add: Let_def)

lemma parse_bytes_digits:
  assumes "fst (parse_bytes str index address)" "index \<le> j" "j < length address"
  shows "0 \<le> HexValue (str ! (j * 3)) \<and> 0 \<le> HexValue (str ! (j * 3 + 1)) \<and>
    (j < length address - 1 \<longrightarrow> str ! (j * 3 + 2) = CHR '':'')"
  using assms
proof (induction str index address rule: parse_bytes.induct)
  case (1 str index address)
  have i: "index < length address" using "1.prems" by linarith
  have ok: "\<not> (HexValue (str ! (index * 3)) < 0 \<or> HexValue (str ! (index * 3 + 1)) < 0 \<or>
     index < length address - 1 \<and> str ! (index * 3 + 2) \<noteq> CHR '':'')"
    using parse_bytes_fail [OF i, of str] "1.prems"(1) by fastforce
  show ?case
  proof (cases "index = j")
    case True
    with ok show ?thesis by auto
  next
    case False
    have "parse_bytes str index address = parse_bytes str (index + 1) (address[index := word_of_int
        (push_bit 4 (HexValue (str ! (index * 3))) OR HexValue (str ! (index * 3 + 1)))])"
      using ok by (intro parse_step i) auto
    with "1.prems"(1) have "fst (parse_bytes str (index + 1) (address[index := word_of_int
        (push_bit 4 (HexValue (str ! (index * 3))) OR HexValue (str ! (index * 3 + 1)))]))"
      by simp
    from "1.IH" [OF i refl refl refl ok this] False "1.prems" show ?thesis by simp
  qed
qed

text \<open>A digit or letter in upper case is what the format prints for its value.\<close>

lemma parse_bytes_upper:
  assumes "length str = 17" "length init = 6" "parse_bytes str 0 init = (True, a)"
  shows "map upper str = format_mac a \<and> length a = 6"
proof -
  note d = parse_bytes_digits [of str 0 init]
  have digits: "0 \<le> HexValue (str ! (j * 3)) \<and> 0 \<le> HexValue (str ! (j * 3 + 1)) \<and>
      (j < 5 \<longrightarrow> str ! (j * 3 + 2) = CHR '':'')" if "j < 6" for j
    using d [of j] assms(2,3) that by simp
  obtain c0 c1 c2 c3 c4 c5 c6 c7 c8 c9 c10 c11 c12 c13 c14 c15 c16 where
    str: "str = [c0, c1, c2, c3, c4, c5, c6, c7, c8, c9, c10, c11, c12, c13, c14, c15, c16]"
    using assms(1) by (auto simp: numeral_eq_Suc dest!: list_of_length_Suc)
  obtain i0 i1 i2 i3 i4 i5 where i: "init = [i0, i1, i2, i3, i4, i5]" using six [OF assms(2)] by blast
  note dig = digits [of 0] digits [of 1] digits [of 2] digits [of 3] digits [of 4] digits [of 5]
  have byte: "hex_byte (word_of_int (push_bit 4 (HexValue c) OR HexValue c')) = [upper c, upper c']"
    if "0 \<le> HexValue c" "0 \<le> HexValue c'" for c c'
    using nibbles_of_byte [of "HexValue c" "HexValue c'"] HexValue_range [of c] HexValue_range [of c'] that
    by (simp add: hex_digit_HexValue)
  have colon: "upper CHR '':'' = CHR '':''" by (simp add: upper_def)
  from assms(3) dig show ?thesis
    unfolding str i by (auto simp: parse_step parse_last byte colon)
qed

lemma of_char_upper:
  "(of_char (upper c) :: nat) =
     (if 97 \<le> (of_char c :: nat) \<and> of_char c \<le> (122 :: nat) then of_char c - 32 else of_char c)"
  by (auto simp: upper_def)

lemma HexValue_upper: "HexValue (upper c) = HexValue c"
proof -
  define v where "v = (of_char c :: nat)"
  have "HexValue (upper c) = HexValue c" if "97 \<le> v" "v \<le> 122"
  proof -
    have "(of_char (upper c) :: nat) = v - 32" "(of_char c :: nat) = v"
      using that by (simp_all add: of_char_upper v_def)
    moreover have "int (v - 32) = int v - 32" using that by auto
    ultimately show ?thesis
      using that by (simp add: HexValue_def tolower_def of_char_int Let_def)
  qed
  moreover have "upper c = c" if "\<not> (97 \<le> v \<and> v \<le> 122)"
    using that by (auto simp: upper_def v_def)
  ultimately show ?thesis by metis
qed

lemma upper_colon: "upper c = CHR '':'' \<longleftrightarrow> c = CHR '':''"
proof
  assume "upper c = CHR '':''"
  then have "(of_char (upper c) :: nat) = 58" by simp
  then have "(of_char c :: nat) = of_char CHR '':''" by (auto simp: of_char_upper split: if_splits)
  then show "c = CHR '':''" by (simp only: of_char_eq_iff)
qed (simp add: upper_def)

lemma parse_bytes_map_upper:
  "3 * length address \<le> Suc (length str) \<Longrightarrow>
     parse_bytes (map upper str) index address = parse_bytes str index address"
proof (induction str index address rule: parse_bytes.induct)
  case (1 str index address)
  show ?case
  proof (cases "index < length address")
    case True
    then have "index * 3 < length str" "index * 3 + 1 < length str"
      "index < length address - 1 \<Longrightarrow> index * 3 + 2 < length str"
      using "1.prems" by auto
    with 1 True show ?thesis
      by (subst (1 2) parse_bytes.simps) (auto simp: Let_def HexValue_upper upper_colon)
  next
    case False
    then show ?thesis by (simp add: parse_bytes.simps)
  qed
qed

lemma ParseMac_iff:
  assumes "length init = 6"
  shows "fst (ParseMac str init) \<longleftrightarrow> (\<exists>a. valid_address a \<and> map upper str = format_mac a)"
proof
  assume ok: "fst (ParseMac str init)"
  then have len: "length str = 17" by (auto simp: ParseMac_def split: if_splits)
  with ok obtain a where a: "parse_bytes str 0 init = (True, a)"
    by (auto simp: ParseMac_def split: if_splits prod.splits bool.splits)
  with ok len show "\<exists>a. valid_address a \<and> map upper str = format_mac a"
    using parse_bytes_upper [OF len assms a] by (auto simp: ParseMac_def valid_address_def)
next
  assume "\<exists>a. valid_address a \<and> map upper str = format_mac a"
  then obtain a where a: "valid_address a" "map upper str = format_mac a" by blast
  then have six: "length a = 6" by (simp add: valid_address_def)
  have "length (map upper str) = 17" using length_format_mac [of a] six a(2) by fastforce
  then have "ParseMac str init = ParseMac (map upper str) init"
    using assms by (simp add: ParseMac_def parse_bytes_map_upper)
  with ParseMac_format [OF six assms] a show "fst (ParseMac str init)" by simp
qed

section \<open>Properties\<close>

text \<open>
  C23. Round trip: what is printed for six bytes is parsed back to the same bytes, and
  accepted exactly if they are a valid address: neither all zeros nor all ones, and with
  the group bit clear. And no other texts are accepted than those that, with letters in upper
  case, are what is printed for a valid address.
\<close>

theorem address_round_trip:
  assumes "length a = 6" "length init = 6"
  shows "ParseMac (format_mac a) init = (valid_address a, a) \<and>
    (\<forall>str. fst (ParseMac str init) \<longleftrightarrow> (\<exists>b. valid_address b \<and> map upper str = format_mac b))"
  using ParseMac_format [OF assms] ParseMac_iff [OF assms(2)] by blast

theorem address_round_trip_witness:
  "format_mac [0x06, 0xB2, 0x5D, 0x08, 0xB3, 0x5E] = ''06:B2:5D:08:B3:5E'' \<and>
   ParseMac ''06:B2:5D:08:B3:5E'' (replicate 6 0) = (True, [0x06, 0xB2, 0x5D, 0x08, 0xB3, 0x5E])"
proof -
  have f: "format_mac [0x06, 0xB2, 0x5D, 0x08, 0xB3, 0x5E] = ''06:B2:5D:08:B3:5E''" by code_simp
  have "valid_address [0x06, 0xB2, 0x5D, 0x08, 0xB3, 0x5E]" by code_simp
  with f address_round_trip [of "[0x06, 0xB2, 0x5D, 0x08, 0xB3, 0x5E]" "replicate 6 0"]
  show ?thesis by simp
qed

text \<open>Letters may be of either case, and the address of zeros is refused.\<close>

lemma accepted_texts:
  "fst (ParseMac ''06:b2:5d:08:B3:5e'' (replicate 6 0))"
  "\<not> (\<exists>a. valid_address a \<and> map upper ''00:00:00:00:00:00'' = format_mac a)"
proof -
  have "\<not> fst (ParseMac ''00:00:00:00:00:00'' (replicate 6 0))" by code_simp
  then show "\<not> (\<exists>a. valid_address a \<and> map upper ''00:00:00:00:00:00'' = format_mac a)"
    using ParseMac_iff [of "replicate 6 0"] by (metis length_replicate)
  show "fst (ParseMac ''06:b2:5d:08:B3:5e'' (replicate 6 0))" by code_simp
qed

end
