(* ===== verification/MacAddr.thy ===== *)
theory MacAddr
  imports MacText "HOL-Library.Monad_Syntax"
begin

text \<open>
  The program of \<open>macaddr/mac_addr_normalization.cpp\<close>, which makes sure that the two files
  with the Bluetooth and the Wi-Fi address hold a valid address. A loop that retries for
  ever has no result.
\<close>

unbundle bit_operations_syntax

section \<open>The program\<close>

definition kBluetoothPath :: string where
  "kBluetoothPath = ''/data/misc/bluedroid/macbt''"

definition kWifiPath :: string where
  "kWifiPath = ''/data/misc/wifi/macwifi''"

definition kSystemUid :: nat where "kSystemUid = 1000"
definition kBluetoothUid :: nat where "kBluetoothUid = 1002"
definition kBluetoothGid :: nat where "kBluetoothGid = 1002"
definition kWifiGid :: nat where "kWifiGid = 1010"

text \<open>The octal constant \<open>0660\<close>.\<close>

definition mode_0660 :: nat where "mode_0660 = 6 * 64 + 6 * 8"

text \<open>The loops: the bytes read so far, and the text that is left to write.\<close>

partial_function (option) ReadFully ::
    "nat \<Rightarrow> byte list \<Rightarrow> world \<Rightarrow> (bool \<times> byte list \<times> world) option" where
  "ReadFully len data w =
     (if len = 0 then Some (True, data, w)
      else case sys_read_random len w of
             (Inl e, w') \<Rightarrow> if e = EINTR then ReadFully len data w' else Some (False, data, w')
           | (Inr bytes, w') \<Rightarrow>
               if length bytes = 0 then Some (False, data, w')
               else ReadFully (len - length bytes) (data @ bytes) w')"

partial_function (option) WriteFully ::
    "string \<Rightarrow> string \<Rightarrow> world \<Rightarrow> (bool \<times> world) option" where
  "WriteFully path data w =
     (if data = [] then Some (True, w)
      else case sys_write path data w of
             (Inl e, w') \<Rightarrow> if e = EINTR then WriteFully path data w' else Some (False, w')
           | (Inr count, w') \<Rightarrow> WriteFully path (drop count data) w')"

partial_function (option) read_retry ::
    "string \<Rightarrow> nat \<Rightarrow> world \<Rightarrow> ((errno + string) \<times> world) option" where
  "read_retry path len w =
     (case sys_read_file path len w of
        (Inl e, w') \<Rightarrow> if e = EINTR then read_retry path len w' else Some (Inl e, w')
      | (Inr text, w') \<Rightarrow> Some (Inr text, w'))"

definition HasValidMac :: "string \<Rightarrow> world \<Rightarrow> (bool \<times> world) option" where
  "HasValidMac path w0 =
     (case sys_open_read path w0 of
        (Inl e, w) \<Rightarrow> Some (False, w)
      | (Inr _, w) \<Rightarrow>
          do {
            (count, w) \<leftarrow> read_retry path 32 w;
            let w = snd (sys_plain w);
            case count of
              Inl e \<Rightarrow> Some (False, w)
            | Inr text \<Rightarrow>
                if text = [] then Some (False, w)
                else Some (fst (ParseMac (rstrip text) (replicate 6 0)), w)
          })"

text \<open>
  The helper has run when the wait for it begins; its exit status is only logged.
\<close>

partial_function (option) wait_child :: "world \<Rightarrow> world option" where
  "wait_child w =
     (case sys_plain w of
        (Inl e, w') \<Rightarrow> if e = EINTR then wait_child w' else Some w'
      | (Inr _, w') \<Rightarrow> Some w')"

definition RunVendorHelper :: "world \<Rightarrow> world option" where
  "RunVendorHelper w0 =
     (case sys_plain w0 of
        (Inl e, w) \<Rightarrow> Some w
      | (Inr _, w) \<Rightarrow> wait_child (set_files (w_helper w (w_files w)) w))"

definition GenerateMac :: "world \<Rightarrow> (byte list option \<times> world) option" where
  "GenerateMac w0 =
     (case sys_plain w0 of
        (Inl e, w) \<Rightarrow> Some (None, w)
      | (Inr _, w) \<Rightarrow>
          do {
            (success, address, w) \<leftarrow> ReadFully 6 [] w;
            let w = snd (sys_plain w);
            if \<not> success then Some (None, w)
            else Some (Some (address[0 := (address ! 0 AND 0xfe) OR 0x02]), w)
          })"

text \<open>
  From the creation of the temporary file on: the conjunction of the calls, which stops
  at the first one that fails, and the clean-up.
\<close>

definition write_temporary :: "string \<Rightarrow> nat \<Rightarrow> nat \<Rightarrow> string \<Rightarrow> world \<Rightarrow> (bool \<times> world) option" where
  "write_temporary temporary uid gid text w0 =
     (case sys_fchmod temporary mode_0660 w0 of
        (Inl e, w) \<Rightarrow> Some (False, w)
      | (Inr _, w) \<Rightarrow>
          (case sys_fchown temporary uid gid w of
             (Inl e, w) \<Rightarrow> Some (False, w)
           | (Inr _, w) \<Rightarrow>
               do {
                 (written, w) \<leftarrow> WriteFully temporary text w;
                 if \<not> written then Some (False, w)
                 else case sys_fsync temporary w of
                        (Inl e, w) \<Rightarrow> Some (False, w)
                      | (Inr _, w) \<Rightarrow> Some (True, w)
               }))"

text \<open>\<open>StoreMac\<close> from the removal of a stale temporary file on.\<close>

definition store_text :: "string \<Rightarrow> nat \<Rightarrow> nat \<Rightarrow> string \<Rightarrow> world \<Rightarrow> (bool \<times> world) option" where
  "store_text path uid gid text w0 =
     (let temporary = path @ ''.tmp'';
          (r, w) = sys_unlink temporary w0
      in if r \<noteq> Inr () \<and> r \<noteq> Inl ENOENT then Some (False, w)
         else case sys_create temporary mode_0660 w of
                (Inl e, w) \<Rightarrow> Some (False, w)
              | (Inr _, w) \<Rightarrow>
                  do {
                    (success, w) \<leftarrow> write_temporary temporary uid gid text w;
                    let (closed, w) = sys_plain w;
                    if \<not> success \<or> closed \<noteq> Inr () then
                      Some (False, snd (sys_unlink temporary w))
                    else case sys_rename temporary path w of
                           (Inl e, w) \<Rightarrow> Some (False, snd (sys_unlink temporary w))
                         | (Inr _, w) \<Rightarrow> Some (True, w)
                  })"

definition StoreMac :: "string \<Rightarrow> nat \<Rightarrow> nat \<Rightarrow> world \<Rightarrow> (bool \<times> world) option" where
  "StoreMac path uid gid w0 =
     do {
       (generated, w) \<leftarrow> GenerateMac w0;
       case generated of
         None \<Rightarrow> Some (False, w)
       | Some address \<Rightarrow>
           let text = format_mac address in
           if length text \<noteq> 17 then Some (False, w)
           else store_text path uid gid text w
     }"

definition EnsureMac :: "string \<Rightarrow> nat \<Rightarrow> nat \<Rightarrow> world \<Rightarrow> (bool \<times> world) option" where
  "EnsureMac path uid gid w0 =
     do {
       (valid, w) \<leftarrow> HasValidMac path w0;
       if valid then Some (True, w) else StoreMac path uid gid w
     }"

definition mac_main :: "world \<Rightarrow> (int \<times> world) option" where
  "mac_main w0 =
     do {
       (bluetooth, w) \<leftarrow> HasValidMac kBluetoothPath w0;
       (wifi, w) \<leftarrow> (if bluetooth then HasValidMac kWifiPath w else Some (False, w));
       w \<leftarrow> (if \<not> bluetooth \<or> \<not> wifi then RunVendorHelper w else Some w);
       (bluetooth_ok, w) \<leftarrow> EnsureMac kBluetoothPath kBluetoothUid kBluetoothGid w;
       (wifi_ok, w) \<leftarrow> EnsureMac kWifiPath kSystemUid kWifiGid w;
       Some (if bluetooth_ok \<and> wifi_ok then 0 else 1, w)
     }"

declare ReadFully.simps [code] WriteFully.simps [code] read_retry.simps [code] wait_child.simps [code]

section \<open>Lemmas: the loops\<close>

lemmas ReadFully_induct [consumes 1, case_names step] = ReadFully.raw_induct [rotated]
lemmas WriteFully_induct [consumes 1, case_names step] = WriteFully.raw_induct [rotated]
lemmas read_retry_induct [consumes 1, case_names step] = read_retry.raw_induct [rotated]
lemmas wait_child_induct [consumes 1, case_names step] = wait_child.raw_induct [rotated]

text \<open>Reading random bytes changes no file.\<close>

lemma ReadFully_result:
  assumes "ReadFully len data w = Some r"
  shows "case r of (b, d, w') \<Rightarrow>
    follows path w w' \<and> w_files w' = w_files w \<and> (b \<longrightarrow> length d = length data + len)"
  using assms
proof (induction rule: ReadFully_induct)
  case (step ReadFully' len data w r)
  show ?case
  proof (cases "len = 0")
    case True
    with step(2) show ?thesis by auto
  next
    case False
    obtain x w1 where x: "sys_read_random len w = (x, w1)" by fastforce
    have f: "follows path w w1" "w_files w1 = w_files w"
      using drawing.result [OF x] x by (auto simp: sys_read_random_def split: choice.splits)
    have again: ?thesis if "ReadFully' len' (data @ bytes) w1 = Some r" "length bytes + len' = len"
      for len' bytes
      using step(1) [OF that(1)] that(2) f by (auto intro: follows_trans split: prod.splits)
    have stop: ?thesis if "r = (False, data, w1)" using that f by simp
    show ?thesis
    proof (cases x)
      case (Inl e)
      with step(2) False x again [of len "[]"] stop show ?thesis by (auto split: if_splits)
    next
      case (Inr bytes)
      have "length bytes \<le> len" using x Inr by (auto simp: sys_read_random_def split: choice.splits)
      with step(2) False x Inr again [of "len - length bytes" bytes] stop show ?thesis
        by (auto split: if_splits)
    qed
  qed
qed

text \<open>The file that is being written: its contents grow, and it need not be on the disk.\<close>

definition extended :: "string \<Rightarrow> disk_file \<Rightarrow> disk_file \<Rightarrow> bool" where
  "extended data f f' \<longleftrightarrow>
     f_content f' = f_content f @ data \<and> f_mode f' = f_mode f \<and> f_uid f' = f_uid f \<and>
     f_gid f' = f_gid f"

lemma WriteFully_result:
  assumes "WriteFully path data w = Some r"
  shows "\<forall>f. w_files w path = Some (Regular f) \<longrightarrow> (case r of (b, w') \<Rightarrow>
    (\<forall>q. q \<noteq> path \<longrightarrow> follows q w w') \<and>
    (\<exists>f'. w_files w' path = Some (Regular f') \<and>
       (b \<longrightarrow> extended data f f')))"
  using assms
proof (induction rule: WriteFully_induct)
  case (step WriteFully' path data w r)
  show ?case
  proof (intro allI impI)
    fix f
    assume f: "w_files w path = Some (Regular f)"
    let ?goal = "\<lambda>f data w. case r of (b, w') \<Rightarrow> (\<forall>q. q \<noteq> path \<longrightarrow> follows q w w') \<and>
      (\<exists>f'. w_files w' path = Some (Regular f') \<and>
         (b \<longrightarrow> extended data f f'))"
    show "?goal f data w"
    proof (cases "data = []")
      case True
      with step(2) f show ?thesis by (auto simp: extended_def)
    next
      case False
      obtain x w1 where x: "sys_write path data w = (x, w1)" by fastforce
      have follow: "follows q w w'" if "q \<noteq> path" "follows q w1 w'" for q w'
        by (rule follows_trans [OF writing.result [OF x] that(2)]) (use that in simp)
      have chain: "?goal f data w" if g: "?goal f1 rest w1" and e: "\<And>f'. extended rest f1 f' \<Longrightarrow> extended data f f'"
        for f1 rest
      proof -
        obtain b w' where r: "r = (b, w')" by fastforce
        with g obtain f' where "w_files w' path = Some (Regular f')" "b \<longrightarrow> extended data f f'"
          using e by auto
        moreover have "\<forall>q. q \<noteq> path \<longrightarrow> follows q w w'" using g r follow by simp
        ultimately show ?thesis using r by simp
      qed
      show ?thesis
      proof (cases x)
        case (Inl e)
        then have w1: "w_files w1 path = Some (Regular f)"
          using x f by (auto simp: sys_write_def split: choice.splits)
        have "WriteFully' path data w1 = Some r \<or> r = (False, w1)"
          using step(2) False x Inl by (auto split: if_splits)
        then have "?goal f data w1" using step(1) w1 by (elim disjE) (blast, simp)
        then show ?thesis by (rule chain)
      next
        case (Inr count)
        let ?f = "f\<lparr>f_content := f_content f @ take count data, f_synced := False\<rparr>"
        have w1: "w_files w1 path = Some (Regular ?f)"
          using x f Inr by (auto simp: sys_write_def change_file_def min_def split: choice.splits)
        have "WriteFully' path (drop count data) w1 = Some r" using step(2) False x Inr by simp
        then have "?goal ?f (drop count data) w1" using step(1) w1 by blast
        then show ?thesis by (rule chain) (simp add: extended_def)
      qed
    qed
  qed
qed

lemma read_retry_result:
  assumes "read_retry path len w = Some r"
  shows "case r of (x, w') \<Rightarrow> (\<forall>q. follows q w w') \<and>
    (\<forall>str. x = Inr str \<longrightarrow>
      (\<exists>f n. w_files w path = Some (Regular f) \<and> n \<le> len \<and> str = take n (f_content f)))"
  using assms
proof (induction rule: read_retry_induct)
  case (step read_retry' path len w r)
  obtain x w1 where x: "sys_read_file path len w = (x, w1)" by fastforce
  have f: "follows q w w1" for q using reading.result [OF x] by simp
  show ?case
  proof (cases x)
    case (Inl e)
    then have "read_retry' path len w1 = Some r \<or> r = (Inl e, w1)"
      using step(2) x by (auto split: if_splits)
    then show ?thesis
      using step(1) [of path len w1 r] f followsD(3) [OF f, of path]
      by (auto split: prod.splits intro: follows_trans)
  next
    case (Inr str)
    with x obtain g n where "w_files w path = Some (Regular g)" "str = take (min len n) (f_content g)"
      by (auto simp: sys_read_file_def split: choice.splits option.splits node.splits)
    with step(2) x Inr f show ?thesis by (auto intro: exI [of _ "min len n"])
  qed
qed

lemma wait_child_result:
  assumes "wait_child w = Some w'"
  shows "follows q w w'"
  using assms
proof (induction rule: wait_child_induct)
  case (step wait_child' w w')
  obtain x w1 where x: "sys_plain w = (x, w1)" by fastforce
  have f: "follows q w w1" using plain.result [OF x] by simp
  have "wait_child' w1 = Some w' \<or> w' = w1" using step(2) x by (auto split: sum.splits if_splits)
  with step(1) f show ?case by (auto intro: follows_trans)
qed

section \<open>Lemmas: storing an address\<close>

text \<open>What a stored address is: all of it, with its owner and mode, and on the disk.\<close>

definition complete :: "nat \<Rightarrow> nat \<Rightarrow> node option \<Rightarrow> bool" where
  "complete uid gid x \<longleftrightarrow>
     (\<exists>a. valid_address a \<and> a ! 0 AND 0x02 \<noteq> 0 \<and>
       x = Some (Regular \<lparr>f_content = format_mac a, f_mode = mode_0660, f_uid = uid, f_gid = gid,
                          f_synced = True\<rparr>))"

lemma local_unicast:
  fixes b :: byte
  shows "((b AND 0xfe) OR 0x02) AND 0x01 = 0" "((b AND 0xfe) OR 0x02) AND 0x02 = 0x02"
    "(b AND 0xfe) OR 0x02 \<noteq> 0xff" "(b AND 0xfe) OR 0x02 \<noteq> 0"
proof -
  show 1: "((b AND 0xfe) OR 0x02) AND 0x01 = 0"
    by (simp add: bit.conj_disj_distrib2 and.assoc)
  show 2: "((b AND 0xfe) OR 0x02) AND 0x02 = 0x02"
    by (simp add: bit.conj_disj_distrib2 and.assoc)
  show "(b AND 0xfe) OR 0x02 \<noteq> 0xff" using 1 by auto
  show "(b AND 0xfe) OR 0x02 \<noteq> 0"
  proof
    assume "(b AND 0xfe) OR 0x02 = 0"
    from 2 [unfolded this] show False by simp
  qed
qed

lemma GenerateMac_result:
  assumes "GenerateMac w = Some (r, w')"
  shows "(\<forall>q. follows q w w') \<and> w_files w' = w_files w \<and>
    (\<forall>a. r = Some a \<longrightarrow> valid_address a \<and> a ! 0 AND 0x02 \<noteq> 0)"
proof -
  obtain x w1 where x: "sys_plain w = (x, w1)" by fastforce
  have p: "(\<forall>q. follows q v v') \<and> w_files v' = w_files v" if "sys_plain v = (y, v')" for y v v'
    using plain.result [OF that] that by (auto simp: sys_plain_def split: choice.splits)
  show ?thesis
  proof (cases x)
    case (Inl e)
    with assms x p [OF x] show ?thesis by (simp add: GenerateMac_def)
  next
    case (Inr u)
    with assms x obtain b d w2 where d: "ReadFully 6 [] w1 = Some (b, d, w2)"
      "w' = snd (sys_plain w2)" "r = (if b then Some (d[0 := (d ! 0 AND 0xfe) OR 0x02]) else None)"
      by (auto simp: GenerateMac_def Let_def bind_eq_Some_conv split: if_splits)
    have 1: "(\<forall>q. follows q w1 w2) \<and> w_files w2 = w_files w1 \<and> (b \<longrightarrow> length d = 6)"
      using ReadFully_result [OF d(1)] by auto
    have 2: "(\<forall>q. follows q w2 w') \<and> w_files w' = w_files w2"
      using p [of w2] d(2) by (metis prod.collapse)
    have "valid_address a \<and> a ! 0 AND 0x02 \<noteq> 0" if a: "r = Some a" for a
    proof -
      have "length d = 6" using 1 d(3) a by (auto split: if_splits)
      then obtain d0 d1 d2 d3 d4 d5 where "d = [d0, d1, d2, d3, d4, d5]" using six by blast
      with d(3) a show ?thesis
        by (auto simp: valid_address_def local_unicast split: if_splits)
    qed
    moreover have "follows q w w'" for q
      using follows_trans [of q w w1 w2] follows_trans [of q w w2 w'] p [OF x] 1 2 by blast
    ultimately show ?thesis using p [OF x] 1 2 by auto
  qed
qed

text \<open>The temporary file, from its creation to the end of the writing.\<close>

lemma write_temporary_result:
  assumes "write_temporary tmp uid gid str w = Some (b, w')" "w_files w tmp = Some (Regular f)"
    and "f_content f = []"
  shows "(\<forall>q. q \<noteq> tmp \<longrightarrow> follows q w w') \<and>
    (b \<longrightarrow> w_files w' tmp = Some (Regular \<lparr>f_content = str, f_mode = mode_0660, f_uid = uid,
       f_gid = gid, f_synced = True\<rparr>))"
proof -
  obtain x1 w1 where 1: "sys_fchmod tmp mode_0660 w = (x1, w1)" by fastforce
  obtain x2 w2 where 2: "sys_fchown tmp uid gid w1 = (x2, w2)" by fastforce
  note f1 = chmod.result [OF 1] and f2 = chown.after [OF f1 _ 2]
  show ?thesis
  proof (cases "\<exists>e. x1 = Inl e")
    case True
    with assms(1) 1 f1 show ?thesis by (auto simp: write_temporary_def)
  next
    case False
    then have t1: "w_files w1 tmp = Some (Regular (f\<lparr>f_mode := mode_0660\<rparr>))"
      using 1 assms(2) by (auto simp: sys_fchmod_def change_file_def split: choice.splits)
    show ?thesis
    proof (cases "\<exists>e. x2 = Inl e")
      case True
      with False assms(1) 1 2 f2 show ?thesis by (auto simp: write_temporary_def split: sum.splits)
    next
      case ok: False
      then have t2: "w_files w2 tmp =
          Some (Regular (f\<lparr>f_mode := mode_0660, f_uid := uid, f_gid := gid\<rparr>))"
        using 2 t1 by (auto simp: sys_fchown_def change_file_def split: choice.splits)
      obtain c w3 where 3: "WriteFully tmp str w2 = Some (c, w3)"
        "(if \<not> c then Some (False, w3)
          else case sys_fsync tmp w3 of
                 (Inl e, w) \<Rightarrow> Some (False, w)
               | (Inr _, w) \<Rightarrow> Some (True, w)) = Some (b, w')"
        using assms(1) False ok 1 2
        by (auto simp: write_temporary_def bind_eq_Some_conv split: sum.splits)
      obtain f3 where w3: "\<forall>q. q \<noteq> tmp \<longrightarrow> follows q w2 w3" "w_files w3 tmp = Some (Regular f3)"
        "c \<longrightarrow> extended str (f\<lparr>f_mode := mode_0660, f_uid := uid, f_gid := gid\<rparr>) f3"
        using WriteFully_result [OF 3(1)] t2 by auto
      have f3: "follows q w w3" if "q \<noteq> tmp" for q
        using follows_trans [OF f2] w3(1) that by auto
      obtain x4 w4 where 4: "sys_fsync tmp w3 = (x4, w4)" by fastforce
      note f4 = syncing.after [OF f3 _ 4]
      have t4: "w_files w4 tmp = Some (Regular (f3\<lparr>f_synced := True\<rparr>))" if "x4 = Inr u" for u
        using that 4 w3(2) by (auto simp: sys_fsync_def change_file_def split: choice.splits)
      show ?thesis
      proof (cases "c \<and> (\<exists>u. x4 = Inr u)")
        case True
        then have "b" "w' = w4" using 3(2) 4 by auto
        moreover have "f3\<lparr>f_synced := True\<rparr> = \<lparr>f_content = str, f_mode = mode_0660, f_uid = uid,
            f_gid = gid, f_synced = True\<rparr>"
          using w3(3) True assms(3) by (cases f3) (simp add: extended_def)
        ultimately show ?thesis using True t4 f4 by auto
      next
        case False
        then have "\<not> b" "w' = w3 \<or> w' = w4" using 3(2) 4 by (auto split: if_splits sum.splits)
        with f3 f4 show ?thesis by auto
      qed
    qed
  qed
qed

lemma temporary_other: "path \<noteq> path @ ''.tmp''" "path @ ''.tmp'' \<noteq> path"
  by simp_all

text \<open>
  Storing a text: the target keeps what it had until the one call that replaces it.
\<close>

definition swapped :: "string \<Rightarrow> node option \<Rightarrow> world \<Rightarrow> world \<Rightarrow> bool" where
  "swapped path x w w' \<longleftrightarrow>
     w_choices w' = w_choices w \<and> w_calls w \<le> w_calls w' \<and> w_files w' path = x \<and>
     w_files w' (path @ ''.tmp'') = None \<and>
     (\<exists>hs h. w_history w' = w_history w @ hs @ [h] \<and> h path = x \<and>
       (\<forall>f \<in> set hs. f path = w_files w path))"

lemma sys_rename_swaps:
  assumes "sys_rename (path @ ''.tmp'') path w = (Inr u, w')" "w_files w (path @ ''.tmp'') = x"
    and "follows path w0 w"
  shows "swapped path x w0 w'"
proof -
  have "w' = set_files ((w_files w)(path @ ''.tmp'' := None, path := x)) (tick w)"
    using assms(1,2) by (auto simp: sys_rename_def split: choice.splits option.splits if_splits)
  then show ?thesis
    using assms(3) by (auto simp: swapped_def follows_def set_files_def tick_def)
qed

lemma store_text_result:
  assumes "store_text path uid gid str w = Some (b, w')"
  shows "(\<forall>q. q \<noteq> path \<and> q \<noteq> path @ ''.tmp'' \<longrightarrow> follows q w w') \<and>
    (if b then swapped path (Some (Regular \<lparr>f_content = str, f_mode = mode_0660, f_uid = uid,
       f_gid = gid, f_synced = True\<rparr>)) w w' else follows path w w')"
proof -
  let ?tmp = "path @ ''.tmp''"
  obtain r1 w1 where 1: "sys_unlink ?tmp w = (r1, w1)" by fastforce
  obtain r2 w2 where 2: "sys_create ?tmp mode_0660 w1 = (r2, w2)" by fastforce
  have f1: "follows q w w1" if "q \<noteq> ?tmp" for q using unlinking.result [OF 1] that by simp
  have f2: "follows q w w2" if "q \<noteq> ?tmp" for q using creating.after [OF f1 _ 2] that by simp
  show ?thesis
  proof (cases "(r1 = Inr () \<or> r1 = Inl ENOENT) \<and> r2 = Inr ()")
    case False
    then have "\<not> b \<and> (w' = w1 \<or> w' = w2)"
      using assms 1 2 by (auto simp: store_text_def Let_def split: if_splits sum.splits)
    with f1 f2 show ?thesis by auto
  next
    case True
    then obtain f where f: "w_files w2 ?tmp = Some (Regular f)" "f_content f = []"
      using 2 by (auto simp: sys_create_def Let_def split: choice.splits option.splits prod.splits)
    obtain s w3 where 3: "write_temporary ?tmp uid gid str w2 = Some (s, w3)"
      using assms True 1 2 by (auto simp: store_text_def Let_def bind_eq_Some_conv split: if_splits)
    obtain r4 w4 where 4: "sys_plain w3 = (r4, w4)" by fastforce
    obtain r5 w5 where 5: "sys_rename ?tmp path w4 = (r5, w5)" by fastforce
    have f3: "follows q w w3" if "q \<noteq> ?tmp" for q
      using follows_trans [OF f2] write_temporary_result [OF 3 f] that by blast
    have f4: "follows q w w4" if "q \<noteq> ?tmp" for q using plain.after [OF f3 _ 4] that by simp
    have f5: "follows q w w5" if "q \<noteq> ?tmp" "q \<noteq> path" for q
      using renaming.after [OF f4 _ 5] that by simp
    have clean: "follows q w (snd (sys_unlink ?tmp v))" if "follows q w v" "q \<noteq> ?tmp" for q v
      using unlinking.after [OF that(1)] that(2) by (metis prod.collapse singletonD)
    have t4: "w_files w4 ?tmp = w_files w3 ?tmp"
      using plain.result [OF 4] followsD(3) by auto
    show ?thesis
    proof (cases "s \<and> r4 = Inr () \<and> (\<exists>u. r5 = Inr u)")
      case True
      then have "b" "w' = w5"
        using assms 1 2 3 4 5 \<open>(r1 = Inr () \<or> r1 = Inl ENOENT) \<and> r2 = Inr ()\<close>
        by (auto simp: store_text_def Let_def)
      moreover have "swapped path (w_files w4 ?tmp) w w5"
        using True 5 f4 [of path] by (auto intro: sys_rename_swaps)
      ultimately show ?thesis using True t4 write_temporary_result [OF 3 f] f5 by auto
    next
      case False
      then have "\<not> b \<and> (w' = snd (sys_unlink ?tmp w4) \<or> (\<exists>e. r5 = Inl e) \<and> w' = snd (sys_unlink ?tmp w5))"
        using assms 1 2 3 4 5 \<open>(r1 = Inr () \<or> r1 = Inl ENOENT) \<and> r2 = Inr ()\<close>
        by (auto simp: store_text_def Let_def split: if_splits sum.splits)
      moreover have "follows path w w5" if "r5 = Inl e" for e
      proof -
        have "w5 = tick w4"
          using 5 that by (auto simp: sys_rename_def split: choice.splits option.splits if_splits)
        then show ?thesis using follows_trans [OF f4 follows_tick] by simp
      qed
      ultimately show ?thesis using clean f4 f5 by auto
    qed
  qed
qed

lemma follows_swapped:
  assumes "follows path w w1" "swapped path x w1 w'"
  shows "swapped path x w w'"
proof -
  obtain hs hs' h where "w_history w1 = w_history w @ hs" "\<forall>f \<in> set hs. f path = w_files w path"
    "w_history w' = w_history w1 @ hs' @ [h]" "h path = x" "\<forall>f \<in> set hs'. f path = w_files w1 path"
    using assms by (auto simp: follows_def swapped_def)
  moreover from this have "w_history w' = w_history w @ (hs @ hs') @ [h]" by simp
  moreover have "w_files w1 path = w_files w path" by (rule followsD(3) [OF assms(1)])
  ultimately have "\<exists>hs h. w_history w' = w_history w @ hs @ [h] \<and> h path = x \<and>
      (\<forall>f \<in> set hs. f path = w_files w path)"
    by (intro exI [of _ "hs @ hs'"] exI [of _ h]) auto
  with assms show ?thesis by (auto simp: follows_def swapped_def)
qed

lemma StoreMac_result:
  assumes "StoreMac path uid gid w = Some (b, w')"
  shows "(\<forall>q. q \<noteq> path \<and> q \<noteq> path @ ''.tmp'' \<longrightarrow> follows q w w') \<and>
    (if b then \<exists>x. complete uid gid x \<and> swapped path x w w' else follows path w w')"
proof -
  obtain r w1 where 1: "GenerateMac w = Some (r, w1)"
    using assms by (auto simp: StoreMac_def bind_eq_Some_conv)
  note g = GenerateMac_result [OF 1]
  show ?thesis
  proof (cases r)
    case None
    with assms 1 g show ?thesis by (simp add: StoreMac_def)
  next
    case (Some a)
    then have a: "valid_address a" "a ! 0 AND 0x02 \<noteq> 0" using g by auto
    then have "length (format_mac a) = 17"
      using length_format_mac [of a] by (fastforce simp: valid_address_def)
    then have s: "store_text path uid gid (format_mac a) w1 = Some (b, w')"
      using assms 1 Some by (simp add: StoreMac_def)
    have "swapped path x w w'" if "swapped path x w1 w'" for x
      using follows_swapped that g by blast
    moreover have "complete uid gid (Some (Regular \<lparr>f_content = format_mac a, f_mode = mode_0660,
        f_uid = uid, f_gid = gid, f_synced = True\<rparr>))"
      using a by (auto simp: complete_def)
    ultimately show ?thesis
      using store_text_result [OF s] g by (auto split: if_splits intro: follows_trans)
  qed
qed

section \<open>Lemmas: reading an address\<close>

text \<open>
  What is accepted as a file with an address: the part that one \<open>read\<close> of 32 bytes gets,
  without white space at its end, is an address.
\<close>

definition accepted :: "nat \<Rightarrow> node option \<Rightarrow> bool" where
  "accepted n x =
     (case x of
        Some (Regular f) \<Rightarrow> fst (ParseMac (rstrip (take n (f_content f))) (replicate 6 0))
      | _ \<Rightarrow> False)"

lemma HasValidMac_result:
  assumes "HasValidMac path w = Some (b, w')"
  shows "(\<forall>q. follows q w w') \<and> (b \<longrightarrow> (\<exists>n \<le> 32. accepted n (w_files w path)))"
proof -
  obtain x w1 where 1: "sys_open_read path w = (x, w1)" by fastforce
  note f1 = open_call.result [OF 1]
  show ?thesis
  proof (cases x)
    case (Inl e)
    with assms 1 f1 show ?thesis by (simp add: HasValidMac_def)
  next
    case (Inr u)
    obtain c w2 where 2: "read_retry path 32 w1 = Some (c, w2)"
      and c: "(case c of
            Inl e \<Rightarrow> Some (False, snd (sys_plain w2))
          | Inr str \<Rightarrow> if str = [] then Some (False, snd (sys_plain w2))
                       else Some (fst (ParseMac (rstrip str) (replicate 6 0)), snd (sys_plain w2))) =
          Some (b, w')"
      using assms 1 Inr by (auto simp: HasValidMac_def Let_def bind_eq_Some_conv)
    have w': "w' = snd (sys_plain w2)" using c by (auto split: sum.splits if_splits)
    have b: "\<exists>str. c = Inr str \<and> fst (ParseMac (rstrip str) (replicate 6 0))" if b
      using c that by (auto split: sum.splits if_splits)
    note r = read_retry_result [OF 2]
    have "follows q w w'" for q
      using follows_trans [OF follows_trans [OF f1], of q w2 w'] r plain.frame [of q w2] w' by simp
    moreover have "\<exists>n \<le> 32. accepted n (w_files w path)" if valid: b
    proof -
      obtain str where str: "c = Inr str" "fst (ParseMac (rstrip str) (replicate 6 0))"
        using b valid by blast
      with r obtain f n where "w_files w1 path = Some (Regular f)" "n \<le> 32" "str = take n (f_content f)"
        by auto
      moreover from this have "w_files w path = Some (Regular f)"
        using followsD(3) [OF f1, of path] by simp
      ultimately have "accepted n (w_files w path)" using str(2) by (simp add: accepted_def)
      with \<open>n \<le> 32\<close> show ?thesis by blast
    qed
    ultimately show ?thesis by blast
  qed
qed

lemma isspace_hex_digit: "n < 16 \<Longrightarrow> \<not> isspace (hex_digit n)"
  by (simp add: hex_digit_def isspace_def of_char_int Let_def)

lemma rstrip_format:
  assumes "length a = 6"
  shows "rstrip (format_mac a) = format_mac a"
proof -
  obtain a0 a1 a2 a3 a4 a5 where a: "a = [a0, a1, a2, a3, a4, a5]" using six [OF assms] by blast
  show ?thesis unfolding a by (simp add: rstrip_def hex_byte_def isspace_hex_digit)
qed

lemma complete_accepted: "complete uid gid x \<Longrightarrow> 17 \<le> n \<Longrightarrow> accepted n x"
proof -
  assume n: "17 \<le> n" and "complete uid gid x"
  then obtain a where a: "valid_address a"
    "x = Some (Regular \<lparr>f_content = format_mac a, f_mode = mode_0660, f_uid = uid, f_gid = gid,
               f_synced = True\<rparr>)"
    by (auto simp: complete_def)
  then have six: "length a = 6" by (simp add: valid_address_def)
  then have "length (format_mac a) = 17" using length_format_mac [of a] by fastforce
  with n a six show ?thesis
    by (simp add: accepted_def rstrip_format ParseMac_format)
qed

section \<open>Lemmas: termination\<close>

lemma calm_follows: "follows q w w' \<Longrightarrow> calm_from n w \<Longrightarrow> calm_from n w'"
  using calm_from_cong followsD(1) by blast

lemma calm_choice:
  "calm_from n w \<Longrightarrow> n \<le> w_calls w \<Longrightarrow> \<exists>m. next_choice w = Go m \<and> 32 \<le> m"
  by (cases "next_choice w") (force simp: calm_from_def next_choice_def)+

text \<open>
  A turn of a loop uses up a call; once the calls are calm it also moves a byte. So the
  calls that may still fail and the bytes that are left bound the turns.
\<close>

lemma ReadFully_total:
  assumes "calm_from n w"
  shows "\<exists>r. ReadFully len data w = Some r"
  using assms
proof (induction "(n - w_calls w) + len" arbitrary: w len data rule: less_induct)
  case less
  show ?case
  proof (cases "len = 0")
    case True
    then have "ReadFully len data w = Some (True, data, w)" by (subst ReadFully.simps) simp
    then show ?thesis by blast
  next
    case False
    obtain x w1 where x: "sys_read_random len w = (x, w1)" by fastforce
    have w1: "calm_from n w1" "w_calls w1 = Suc (w_calls w)"
      using drawing.result [OF x, of "[]"] calm_follows less(2) drawing.counted [OF x] by auto
    show ?thesis
    proof (cases x)
      case (Inl e)
      then have "w_calls w < n"
        using x calm_choice [OF less(2)] by (fastforce simp: sys_read_random_def split: choice.splits)
      then have "\<exists>r. ReadFully len data w1 = Some r" using w1 by (intro less(1)) auto
      with x Inl False show ?thesis by (auto simp: ReadFully.simps [of len data w])
    next
      case (Inr bytes)
      have "length bytes \<le> len" using x Inr by (auto simp: sys_read_random_def split: choice.splits)
      moreover have "1 \<le> length bytes" if "bytes \<noteq> []" using that by (cases bytes) auto
      ultimately have "\<exists>r. ReadFully (len - length bytes) (data @ bytes) w1 = Some r" if "bytes \<noteq> []"
        using w1 that False by (intro less(1)) fastforce+
      with x Inr False show ?thesis by (auto simp: ReadFully.simps [of len data w])
    qed
  qed
qed

lemma WriteFully_total:
  assumes "calm_from n w"
  shows "\<exists>r. WriteFully path data w = Some r"
  using assms
proof (induction "(n - w_calls w) + length data" arbitrary: w data rule: less_induct)
  case less
  show ?case
  proof (cases "data = []")
    case True
    then have "WriteFully path data w = Some (True, w)" by (subst WriteFully.simps) simp
    then show ?thesis by blast
  next
    case False
    obtain x w1 where x: "sys_write path data w = (x, w1)" by fastforce
    have w1: "calm_from n w1" "w_calls w1 = Suc (w_calls w)"
      using writing.result [OF x, of "CHR ''x'' # path"] calm_follows less(2) writing.counted [OF x]
      by auto
    show ?thesis
    proof (cases x)
      case (Inl e)
      then have "w_calls w < n"
        using x calm_choice [OF less(2)] by (fastforce simp: sys_write_def split: choice.splits)
      then have "\<exists>r. WriteFully path data w1 = Some r" using w1 by (intro less(1)) auto
      with x Inl False show ?thesis by (auto simp: WriteFully.simps [of path data w])
    next
      case (Inr count)
      have "1 \<le> length data" using False by (cases data) auto
      moreover have "1 \<le> count" if "n \<le> w_calls w"
        using calm_choice [OF less(2) that] x Inr calculation by (auto simp: sys_write_def)
      ultimately have "\<exists>r. WriteFully path (drop count data) w1 = Some r"
        using w1 by (intro less(1)) (cases "n \<le> w_calls w", auto)
      with x Inr False show ?thesis by (auto simp: WriteFully.simps [of path data w])
    qed
  qed
qed

lemma read_retry_total:
  assumes "calm_from n w"
  shows "\<exists>r. read_retry path len w = Some r"
  using assms
proof (induction "n - w_calls w" arbitrary: w rule: less_induct)
  case less
  obtain x w1 where x: "sys_read_file path len w = (x, w1)" by fastforce
  have w1: "calm_from n w1" "w_calls w1 = Suc (w_calls w)"
    using reading.result [OF x, of "[]"] calm_follows less(2) reading.counted [OF x] by auto
  have "w_calls w < n" if "x = Inl EINTR"
    using x that calm_choice [OF less(2)]
    by (fastforce simp: sys_read_file_def split: choice.splits option.splits node.splits)
  then have "\<exists>r. read_retry path len w1 = Some r" if "x = Inl EINTR"
    using w1 that by (intro less(1)) auto
  with x show ?case by (auto simp: read_retry.simps [of path len w] split: sum.split)
qed

lemma wait_child_total:
  assumes "calm_from n w"
  shows "\<exists>r. wait_child w = Some r"
  using assms
proof (induction "n - w_calls w" arbitrary: w rule: less_induct)
  case less
  obtain x w1 where x: "sys_plain w = (x, w1)" by fastforce
  have w1: "calm_from n w1" "w_calls w1 = Suc (w_calls w)"
    using plain.result [OF x, of "[]"] calm_follows less(2) plain.counted [OF x] by auto
  have "w_calls w < n" if "x = Inl EINTR"
    using x that calm_choice [OF less(2)] by (fastforce simp: sys_plain_def split: choice.splits)
  then have "\<exists>r. wait_child w1 = Some r" if "x = Inl EINTR"
    using w1 that by (intro less(1)) auto
  with x show ?case by (auto simp: wait_child.simps [of w] split: sum.split)
qed

section \<open>Lemmas: the whole program\<close>

lemma ReadFully_calm:
  "ReadFully len data w = Some (b, d, w') \<Longrightarrow> calm_from n w \<Longrightarrow> calm_from n w'"
  using ReadFully_result [of len data w "(b, d, w')" "[]"] calm_follows by fastforce

lemma WriteFully_choices:
  assumes "WriteFully path data w = Some r"
  shows "w_choices (snd r) = w_choices w"
  using assms
proof (induction rule: WriteFully_induct)
  case (step WriteFully' path data w r)
  obtain x w1 where x: "sys_write path data w = (x, w1)" by fastforce
  have c: "w_choices w1 = w_choices w" using writing.choices [of path data w] x by simp
  have "r = (True, w) \<or> r = (False, w1) \<or> (\<exists>rest. WriteFully' path rest w1 = Some r)"
    using step(2) x by (auto split: if_splits sum.splits)
  with step(1) c show ?case by fastforce
qed

lemma WriteFully_calm:
  "WriteFully path data w = Some (b, w') \<Longrightarrow> calm_from n w \<Longrightarrow> calm_from n w'"
  using WriteFully_choices [of path data w "(b, w')"] calm_from_cong [of w' w n] by simp

lemma read_retry_calm:
  "read_retry path len w = Some (x, w') \<Longrightarrow> calm_from n w \<Longrightarrow> calm_from n w'"
  using read_retry_result [of path len w "(x, w')"] calm_follows [of "[]" w w' n] by simp

lemma HasValidMac_total:
  assumes "calm_from n w"
  shows "\<exists>b w'. HasValidMac path w = Some (b, w') \<and> calm_from n w'"
proof -
  obtain x w1 where 1: "sys_open_read path w = (x, w1)" by fastforce
  have c: "calm_from n w1" by (rule open_call.calm [OF 1 assms])
  then obtain y w2 where 2: "read_retry path 32 w1 = Some (y, w2)"
    using read_retry_total [of n w1 path 32] by auto
  have "\<exists>r. HasValidMac path w = Some r"
    using 1 2 by (auto simp: HasValidMac_def Let_def split: sum.split)
  then obtain b w' where v: "HasValidMac path w = Some (b, w')" by auto
  with HasValidMac_result [OF v] calm_follows assms show ?thesis by blast
qed

lemma GenerateMac_total:
  assumes "calm_from n w"
  shows "\<exists>r w'. GenerateMac w = Some (r, w') \<and> calm_from n w'"
proof -
  obtain x w1 where 1: "sys_plain w = (x, w1)" by fastforce
  have "calm_from n w1" by (rule plain.calm [OF 1 assms])
  then obtain b d w2 where 2: "ReadFully 6 [] w1 = Some (b, d, w2)"
    using ReadFully_total [of n w1 6 "[]"] by auto
  have "\<exists>r. GenerateMac w = Some r"
    using 1 2 by (auto simp: GenerateMac_def Let_def split: sum.split)
  then obtain r w' where v: "GenerateMac w = Some (r, w')" by auto
  with GenerateMac_result [OF v] calm_follows assms show ?thesis by blast
qed

lemma write_temporary_total:
  assumes "calm_from n w"
  shows "\<exists>r. write_temporary tmp uid gid str w = Some r"
proof -
  obtain x1 w1 where 1: "sys_fchmod tmp mode_0660 w = (x1, w1)" by fastforce
  obtain x2 w2 where 2: "sys_fchown tmp uid gid w1 = (x2, w2)" by fastforce
  have "calm_from n w2" by (rule chown.calm [OF 2 chmod.calm [OF 1 assms]])
  then obtain b w3 where 3: "WriteFully tmp str w2 = Some (b, w3)"
    using WriteFully_total [of n w2 tmp str] by auto
  obtain x4 w4 where "sys_fsync tmp w3 = (x4, w4)" by fastforce
  with 1 2 3 show ?thesis by (auto simp: write_temporary_def split: sum.split)
qed

lemma StoreMac_total:
  assumes "calm_from n w"
  shows "\<exists>b w'. StoreMac path uid gid w = Some (b, w') \<and> calm_from n w'"
proof -
  obtain r w1 where 1: "GenerateMac w = Some (r, w1)" "calm_from n w1"
    using GenerateMac_total [OF assms] by blast
  have store: "\<exists>r. store_text path uid gid str w1 = Some r" for str
  proof -
    let ?tmp = "path @ ''.tmp''"
    obtain r2 w2 where 2: "sys_unlink ?tmp w1 = (r2, w2)" by fastforce
    obtain r3 w3 where 3: "sys_create ?tmp mode_0660 w2 = (r3, w3)" by fastforce
    have "calm_from n w3" by (rule creating.calm [OF 3 unlinking.calm [OF 2 1(2)]])
    then obtain b w4 where 4: "write_temporary ?tmp uid gid str w3 = Some (b, w4)"
      using write_temporary_total [of n w3 ?tmp uid gid str] by auto
    obtain r5 w5 where 5: "sys_plain w4 = (r5, w5)" by fastforce
    obtain r6 w6 where "sys_rename ?tmp path w5 = (r6, w6)" by fastforce
    with 2 3 4 5 show ?thesis by (auto simp: store_text_def Let_def split: sum.split)
  qed
  have "\<exists>r. StoreMac path uid gid w = Some r"
    using 1(1) store by (auto simp: StoreMac_def Let_def split: option.split)
  then obtain b w' where v: "StoreMac path uid gid w = Some (b, w')" by auto
  have "follows (CHR ''x'' # path @ ''.tmp'') w w'"
    using StoreMac_result [OF v] by simp
  with v calm_follows assms show ?thesis by blast
qed

lemma EnsureMac_total:
  assumes "calm_from n w"
  shows "\<exists>b w'. EnsureMac path uid gid w = Some (b, w') \<and> calm_from n w'"
proof -
  obtain b w1 where "HasValidMac path w = Some (b, w1)" "calm_from n w1"
    using HasValidMac_total [OF assms] by blast
  then show ?thesis using StoreMac_total [of n w1 path uid gid] by (auto simp: EnsureMac_def)
qed

lemma RunVendorHelper_total:
  assumes "calm_from n w"
  shows "\<exists>w'. RunVendorHelper w = Some w' \<and> calm_from n w'"
proof -
  obtain x w1 where 1: "sys_plain w = (x, w1)" by fastforce
  let ?h = "set_files (w_helper w1 (w_files w1)) w1"
  have c: "calm_from n w1" "calm_from n ?h"
    using plain.calm [OF 1 assms] calm_from_cong [of ?h w1 n] by simp_all
  obtain w2 where 2: "wait_child ?h = Some w2" using wait_child_total [OF c(2)] by blast
  with c(2) wait_child_result [OF 2] calm_follows have "calm_from n w2" by blast
  with 1 2 c show ?thesis by (cases x) (auto simp: RunVendorHelper_def)
qed

text \<open>The helper runs unless both files are already good.\<close>

definition checked_start :: "world \<Rightarrow> world option" where
  "checked_start w0 =
     do {
       (bluetooth, w) \<leftarrow> HasValidMac kBluetoothPath w0;
       (wifi, w) \<leftarrow> (if bluetooth then HasValidMac kWifiPath w else Some (False, w));
       if \<not> bluetooth \<or> \<not> wifi then RunVendorHelper w else Some w
     }"

lemma mac_main_start:
  "mac_main w0 = do {
     w \<leftarrow> checked_start w0;
     (bluetooth_ok, w) \<leftarrow> EnsureMac kBluetoothPath kBluetoothUid kBluetoothGid w;
     (wifi_ok, w) \<leftarrow> EnsureMac kWifiPath kSystemUid kWifiGid w;
     Some (if bluetooth_ok \<and> wifi_ok then 0 else 1, w)
   }"
  by (simp add: mac_main_def checked_start_def split_def)

lemma checked_start_total:
  assumes "calm_from n w"
  shows "\<exists>w'. checked_start w = Some w' \<and> calm_from n w'"
proof -
  obtain b w1 where 1: "HasValidMac kBluetoothPath w = Some (b, w1)" "calm_from n w1"
    using HasValidMac_total [OF assms] by blast
  obtain c w2 where 2: "HasValidMac kWifiPath w1 = Some (c, w2)" "calm_from n w2"
    using HasValidMac_total [OF 1(2)] by blast
  from 1 2 RunVendorHelper_total [OF 1(2)] RunVendorHelper_total [OF 2(2)] show ?thesis
    by (auto simp: checked_start_def)
qed

lemma EnsureMac_result:
  assumes "EnsureMac path uid gid w = Some (b, w')"
  shows "(\<forall>q. q \<noteq> path \<and> q \<noteq> path @ ''.tmp'' \<longrightarrow> follows q w w') \<and>
    (follows path w w' \<or> b \<and> (\<exists>x. complete uid gid x \<and> swapped path x w w')) \<and>
    (b \<longrightarrow> (\<exists>n \<le> 32. accepted n (w_files w' path)))"
proof -
  obtain c w1 where 1: "HasValidMac path w = Some (c, w1)"
    using assms by (auto simp: EnsureMac_def bind_eq_Some_conv)
  note v = HasValidMac_result [OF 1]
  show ?thesis
  proof (cases c)
    case True
    then have "b" "w' = w1" using assms 1 by (simp_all add: EnsureMac_def)
    with v True followsD(3) [of path w w1] show ?thesis by auto
  next
    case False
    then have s: "StoreMac path uid gid w1 = Some (b, w')" using assms 1 by (simp add: EnsureMac_def)
    note r = StoreMac_result [OF s]
    have "follows q w w'" if "follows q w1 w'" for q using follows_trans v that by blast
    moreover have "swapped path x w w'" if "swapped path x w1 w'" for x
      using follows_swapped v that by blast
    moreover have "accepted 32 (w_files w' path)" if "complete uid gid x" "swapped path x w1 w'" for x
      using complete_accepted [OF that(1), of 32] that(2) by (simp add: swapped_def)
    ultimately show ?thesis using r by (cases b) fastforce+
  qed
qed

lemma paths_apart:
  "kWifiPath \<noteq> kBluetoothPath" "kWifiPath \<noteq> kBluetoothPath @ ''.tmp''"
  "kWifiPath @ ''.tmp'' \<noteq> kBluetoothPath" "kWifiPath @ ''.tmp'' \<noteq> kBluetoothPath @ ''.tmp''"
  "kBluetoothPath \<noteq> kWifiPath @ ''.tmp''"
  by (simp_all add: kWifiPath_def kBluetoothPath_def)

subsection \<open>When nothing fails\<close>

text \<open>No call fails from here on.\<close>

definition calm :: "world \<Rightarrow> bool" where
  "calm w \<longleftrightarrow> calm_from (w_calls w) w"

lemma calm_next:
  assumes "calm w" "w_choices w' = w_choices w" "w_calls w \<le> w_calls w'"
  shows "calm w'"
  using assms by (auto simp: calm_def calm_from_def)

lemma calm_after: "calm w \<Longrightarrow> follows q w w' \<Longrightarrow> calm w'"
  using calm_next followsD(1,2) by blast

lemma calm_go: "calm w \<Longrightarrow> \<exists>m. next_choice w = Go m \<and> 32 \<le> m"
  using calm_choice [of "w_calls w" w] by (simp add: calm_def)

lemma calm_tick [simp]: "calm w \<Longrightarrow> calm (tick w)"
  using calm_after follows_tick by blast

lemma calm_set_files [simp]: "calm (set_files f w) = calm w"
  by (simp add: calm_def calm_from_def set_files_def)

lemma calm_change_file [simp]: "calm (change_file p h w) = calm w"
  by (simp add: calm_def calm_from_def)

lemma calm_drawn [simp]: "calm (w\<lparr>w_drawn := k\<rparr>) = calm w"
  by (simp add: calm_def calm_from_def)

lemma calm_plain: "calm w \<Longrightarrow> sys_plain w = (Inr (), tick w)"
  using calm_go by (force simp: sys_plain_def)

lemma calm_HasValidMac:
  assumes "calm w"
  shows "\<exists>w'. HasValidMac path w = Some (accepted 32 (w_files w path), w') \<and> calm w' \<and>
    w_files w' = w_files w \<and> (\<forall>q. follows q w w') \<and> w_helper w' = w_helper w"
proof -
  obtain m where m: "next_choice w = Go m" using calm_go [OF assms] by blast
  obtain k where k: "next_choice (tick w) = Go k" "32 \<le> k" using calm_go [of "tick w"] assms by auto
  have "\<exists>w'. HasValidMac path w = Some (accepted 32 (w_files w path), w')"
  proof (cases "w_files w path")
    case None
    then show ?thesis using m by (simp add: HasValidMac_def sys_open_read_def accepted_def)
  next
    case (Some x)
    then show ?thesis
    proof (cases x)
      case (Regular f)
      have "min 32 k = 32" using k(2) by simp
      with Some Regular m k show ?thesis
        by (simp add: HasValidMac_def sys_open_read_def read_retry.simps sys_read_file_def accepted_def
            rstrip_def ParseMac_def Let_def)
    next
      case (Symlink s)
      with Some m show ?thesis by (simp add: HasValidMac_def sys_open_read_def accepted_def)
    next
      case Directory
      with Some m k show ?thesis
        by (simp add: HasValidMac_def sys_open_read_def read_retry.simps sys_read_file_def accepted_def
            Let_def)
    qed
  qed
  then obtain w' where v: "HasValidMac path w = Some (accepted 32 (w_files w path), w')" by blast
  with HasValidMac_result [OF v] have f: "\<forall>q. follows q w w'" by simp
  then have "w_files w' = w_files w" using followsD(3) by (metis ext)
  with v f calm_after [OF assms] show ?thesis by (auto simp: follows_def)
qed

lemma calm_GenerateMac:
  assumes "calm w"
  shows "\<exists>a w'. GenerateMac w = Some (Some a, w') \<and> calm w' \<and> w_files w' = w_files w"
proof -
  obtain k where k: "next_choice (tick w) = Go k" "32 \<le> k" using calm_go [of "tick w"] assms by auto
  let ?bytes = "map (w_random w) [w_drawn w..<w_drawn w + 6]"
  have "min 6 k = 6" using k(2) by simp
  then have "sys_read_random 6 (tick w) = (Inr ?bytes, (tick (tick w))\<lparr>w_drawn := w_drawn w + 6\<rparr>)"
    using k by (simp add: sys_read_random_def tick_def)
  then have r: "ReadFully 6 [] (tick w) = Some (True, ?bytes, (tick (tick w))\<lparr>w_drawn := w_drawn w + 6\<rparr>)"
    by (simp add: ReadFully.simps)
  then have "\<exists>a w'. GenerateMac w = Some (Some a, w')"
    using calm_plain [OF assms] by (simp add: GenerateMac_def Let_def)
  then obtain a w' where g: "GenerateMac w = Some (Some a, w')" by blast
  with GenerateMac_result [OF g] calm_after [OF assms] show ?thesis by blast
qed

lemma swapped_history:
  "swapped path x w w' \<Longrightarrow>
     \<exists>hs. w_history w' = w_history w @ hs \<and> (\<forall>f \<in> set hs. f path = w_files w path \<or> f path = x)"
proof -
  assume "swapped path x w w'"
  then obtain hs h where "w_history w' = w_history w @ hs @ [h]" "h path = x"
    "\<forall>f \<in> set hs. f path = w_files w path"
    unfolding swapped_def by blast
  then show ?thesis by (intro exI [of _ "hs @ [h]"]) simp
qed

lemma calm_write_temporary:
  assumes "calm w" "w_files w tmp = Some (Regular f)" "f_content f = []" "length str = 17"
  shows "\<exists>w'. write_temporary tmp uid gid str w = Some (True, w')"
proof -
  note go = calm_go [OF assms(1)]
  obtain w1 where 1: "sys_fchmod tmp mode_0660 w = (Inr (), w1)" "calm w1"
    using go assms(1) by (auto simp: sys_fchmod_def)
  obtain w2 where 2: "sys_fchown tmp uid gid w1 = (Inr (), w2)" "calm w2"
    using calm_go [OF 1(2)] 1(2) by (auto simp: sys_fchown_def)
  obtain w3 where 3: "sys_write tmp str w2 = (Inr 17, w3)" "calm w3"
    using calm_go [OF 2(2)] 2(2) assms(4) by (auto simp: sys_write_def)
  have "WriteFully tmp str w2 = WriteFully tmp (drop 17 str) w3"
    using 3(1) assms(4) by (subst WriteFully.simps) auto
  also have "\<dots> = Some (True, w3)" using assms(4) by (subst WriteFully.simps) simp
  finally have "WriteFully tmp str w2 = Some (True, w3)" .
  moreover obtain w4 where "sys_fsync tmp w3 = (Inr (), w4)"
    using calm_go [OF 3(2)] by (auto simp: sys_fsync_def)
  ultimately show ?thesis using 1 2 by (simp add: write_temporary_def)
qed

text \<open>A path at which an address can be stored.\<close>

definition storable :: "files \<Rightarrow> string \<Rightarrow> bool" where
  "storable f path \<longleftrightarrow> f path \<noteq> Some Directory \<and> f (path @ ''.tmp'') \<noteq> Some Directory"

lemma calm_store_text:
  assumes "calm w" "storable (w_files w) path" "length str = 17"
  shows "\<exists>w'. store_text path uid gid str w = Some (True, w')"
proof -
  let ?tmp = "path @ ''.tmp''"
  obtain r1 w1 where 1: "sys_unlink ?tmp w = (r1, w1)" by fastforce
  have u: "r1 = Inr () \<or> r1 = Inl ENOENT" "calm w1" "w_files w1 ?tmp = None"
    using 1 calm_go [OF assms(1)] assms(1,2)
    by (auto simp: sys_unlink_def storable_def split: option.splits node.splits)
  obtain r2 w2 where 2: "sys_create ?tmp mode_0660 w1 = (r2, w2)" by fastforce
  have c: "r2 = Inr ()" "calm w2" "\<exists>f. w_files w2 ?tmp = Some (Regular f) \<and> f_content f = []"
    using 2 calm_go [OF u(2)] u(2,3) by (auto simp: sys_create_def Let_def split: prod.splits)
  obtain w3 where 3: "write_temporary ?tmp uid gid str w2 = Some (True, w3)"
    using calm_write_temporary c(2,3) assms(3) by blast
  obtain f where f: "w_files w2 ?tmp = Some (Regular f)" "f_content f = []" using c(3) by blast
  note t = write_temporary_result [OF 3 f]
  have w3: "calm w3" "follows path w w3"
  proof -
    have "follows path w w2"
      using creating.after [OF unlinking.result [OF 1] _ 2] by simp
    moreover have "follows path w2 w3" using t by simp
    ultimately show "follows path w w3" by (rule follows_trans)
    show "calm w3" using calm_after c(2) \<open>follows path w2 w3\<close> by blast
  qed
  have 4: "sys_plain w3 = (Inr (), tick w3)" by (rule calm_plain [OF w3(1)])
  obtain w5 where "sys_rename ?tmp path (tick w3) = (Inr (), w5)"
    using calm_go [of "tick w3"] w3 t followsD(3) [OF w3(2)] assms(2)
    by (auto simp: sys_rename_def storable_def)
  with 1 2 3 4 u(1) c(1) show ?thesis by (auto simp: store_text_def Let_def)
qed

lemma calm_StoreMac:
  assumes "calm w" "storable (w_files w) path"
  shows "\<exists>w'. StoreMac path uid gid w = Some (True, w')"
proof -
  obtain a w1 where g: "GenerateMac w = Some (Some a, w1)" "calm w1" "w_files w1 = w_files w"
    using calm_GenerateMac [OF assms(1)] by blast
  have "length a = 6" using GenerateMac_result [OF g(1)] by (simp add: valid_address_def)
  then have len: "length (format_mac a) = 17" using length_format_mac [of a] by fastforce
  obtain w2 where "store_text path uid gid (format_mac a) w1 = Some (True, w2)"
    using calm_store_text [OF g(2) _ len] assms(2) g(3) by metis
  with g(1) len show ?thesis by (simp add: StoreMac_def)
qed

lemma calm_EnsureMac:
  assumes "calm w" "accepted 32 (w_files w path) \<or> storable (w_files w) path"
  shows "\<exists>w'. EnsureMac path uid gid w = Some (True, w') \<and> calm w' \<and>
    accepted 32 (w_files w' path) \<and>
    (\<forall>q. q \<noteq> path \<and> q \<noteq> path @ ''.tmp'' \<or> accepted 32 (w_files w path) \<longrightarrow> follows q w w')"
proof -
  obtain w1 where 1: "HasValidMac path w = Some (accepted 32 (w_files w path), w1)" "calm w1"
    "w_files w1 = w_files w" "\<forall>q. follows q w w1"
    using calm_HasValidMac [OF assms(1)] by blast
  show ?thesis
  proof (cases "accepted 32 (w_files w path)")
    case True
    with 1 show ?thesis by (simp add: EnsureMac_def)
  next
    case False
    then obtain w2 where 2: "StoreMac path uid gid w1 = Some (True, w2)"
      using calm_StoreMac [OF 1(2)] 1(3) assms(2) by metis
    note r = StoreMac_result [OF 2]
    then obtain x where x: "complete uid gid x" "swapped path x w1 w2" by auto
    then have "accepted 32 (w_files w2 path)"
      using complete_accepted [OF x(1), of 32] by (simp add: swapped_def)
    moreover have "calm w2" using calm_next [OF 1(2)] x(2) by (simp add: swapped_def)
    moreover have "follows q w w2" if "q \<noteq> path" "q \<noteq> path @ ''.tmp''" for q
      by (rule follows_trans [of q w w1]) (use 1(4) r that in simp_all)
    moreover have "EnsureMac path uid gid w = Some (True, w2)"
      using 1(1) 2 False by (simp add: EnsureMac_def)
    ultimately show ?thesis using False by blast
  qed
qed

lemma helper_tick: "w_helper (tick w) = w_helper w"
  by (simp add: tick_def)

lemma calm_start:
  assumes "calm w"
  shows "\<exists>w'. checked_start w = Some w' \<and> calm w' \<and>
    (if accepted 32 (w_files w kBluetoothPath) \<and> accepted 32 (w_files w kWifiPath)
     then w_files w' = w_files w \<and> (\<forall>q. follows q w w')
     else w_files w' = w_helper w (w_files w))"
proof -
  have helper: "\<exists>v'. RunVendorHelper v = Some v' \<and> calm v' \<and> w_files v' = w_helper v (w_files v)"
    if v: "calm v" for v
  proof -
    let ?h = "set_files (w_helper v (w_files v)) (tick v)"
    have h: "calm ?h" using v by simp
    have "wait_child ?h = Some (tick ?h)"
      by (subst wait_child.simps) (simp add: calm_plain [OF h])
    then show ?thesis
      using v h calm_plain [OF v] by (simp add: RunVendorHelper_def helper_tick)
  qed
  obtain w1 where 1: "HasValidMac kBluetoothPath w = Some (accepted 32 (w_files w kBluetoothPath), w1)"
    "calm w1" "w_files w1 = w_files w" "\<forall>q. follows q w w1" "w_helper w1 = w_helper w"
    using calm_HasValidMac [OF assms] by blast
  obtain w2 where 2: "HasValidMac kWifiPath w1 = Some (accepted 32 (w_files w1 kWifiPath), w2)"
    "calm w2" "w_files w2 = w_files w1" "\<forall>q. follows q w1 w2" "w_helper w2 = w_helper w1"
    using calm_HasValidMac [OF 1(2)] by blast
  show ?thesis
  proof (cases "accepted 32 (w_files w kBluetoothPath)")
    case False
    with 1 helper [OF 1(2)] show ?thesis by (auto simp: checked_start_def)
  next
    case True
    with 1 2 helper [OF 2(2)] show ?thesis
      by (auto simp: checked_start_def intro: follows_trans)
  qed
qed

text \<open>Both addresses are ensured if each is there or its path can take one.\<close>

lemma calm_ensure_both:
  assumes "checked_start w = Some w1" "calm w1"
    "\<forall>p \<in> {kBluetoothPath, kWifiPath}. accepted 32 (w_files w1 p) \<or> storable (w_files w1) p"
  shows "\<exists>w3. mac_main w = Some (0, w3) \<and> accepted 32 (w_files w3 kBluetoothPath) \<and>
    accepted 32 (w_files w3 kWifiPath) \<and>
    (accepted 32 (w_files w1 kBluetoothPath) \<and> accepted 32 (w_files w1 kWifiPath) \<longrightarrow>
     (\<forall>q. follows q w1 w3))"
proof -
  obtain w2 where 2: "EnsureMac kBluetoothPath kBluetoothUid kBluetoothGid w1 = Some (True, w2)"
    "calm w2" "accepted 32 (w_files w2 kBluetoothPath)"
    "\<forall>q. q \<noteq> kBluetoothPath \<and> q \<noteq> kBluetoothPath @ ''.tmp'' \<or>
       accepted 32 (w_files w1 kBluetoothPath) \<longrightarrow> follows q w1 w2"
    using calm_EnsureMac [OF assms(2)] assms(3) by blast
  have same: "w_files w2 kWifiPath = w_files w1 kWifiPath"
    "w_files w2 (kWifiPath @ ''.tmp'') = w_files w1 (kWifiPath @ ''.tmp'')"
    using 2(4) paths_apart followsD(3) by metis+
  then have "accepted 32 (w_files w2 kWifiPath) \<or> storable (w_files w2) kWifiPath"
    using assms(3) by (simp add: storable_def)
  then obtain w3 where 3: "EnsureMac kWifiPath kSystemUid kWifiGid w2 = Some (True, w3)"
    "accepted 32 (w_files w3 kWifiPath)"
    "\<forall>q. q \<noteq> kWifiPath \<and> q \<noteq> kWifiPath @ ''.tmp'' \<or>
       accepted 32 (w_files w2 kWifiPath) \<longrightarrow> follows q w2 w3"
    using calm_EnsureMac [OF 2(2)] by blast
  have "w_files w3 kBluetoothPath = w_files w2 kBluetoothPath"
    using 3(3) paths_apart followsD(3) by metis
  moreover have "mac_main w = Some (0, w3)" using assms(1) 2(1) 3(1) by (simp add: mac_main_start)
  moreover have "follows q w1 w3"
    if "accepted 32 (w_files w1 kBluetoothPath)" "accepted 32 (w_files w1 kWifiPath)" for q
    using 2(4) 3(3) same that by (intro follows_trans [of q w1 w2 w3]) simp_all
  ultimately show ?thesis using 2(3) 3(2) by auto
qed

section \<open>Properties\<close>

text \<open>
  Worlds for the witnesses: in both the second call is interrupted; in the calm one every
  other call goes through whole, in the other one transfers move five bytes until call 40
  and call 13 fails.
\<close>

definition demo_world :: "files \<Rightarrow> world" where
  "demo_world f = \<lparr>w_files = f, w_choices = (\<lambda>n. Go 32), w_calls = 0,
     w_random = (\<lambda>n. of_nat (171 * n + 5)), w_drawn = 0, w_create = (\<lambda>m. (384, 0, 0)),
     w_helper = (\<lambda>f. f), w_history = []\<rparr>"

definition rough_world :: world where
  "rough_world = (demo_world Map.empty)
     \<lparr>w_choices := (\<lambda>n. if n = 1 then Fail EINTR else if n = 13 then Fail (OtherErrno 28)
                        else if n < 40 then Go 5 else Go 32)\<rparr>"

text \<open>
  C25. A generated address is valid and locally administered, whatever the random source
  gives, and however its reads are split or interrupted; generating one changes no file.
\<close>

theorem generated_address_is_local:
  assumes "GenerateMac w = Some (Some a, w')"
  shows "valid_address a \<and> a ! 0 AND 0x02 \<noteq> 0 \<and> ParseMac (format_mac a) a = (True, a) \<and>
    w_files w' = w_files w"
proof -
  note g = GenerateMac_result [OF assms]
  then have "length a = 6" by (simp add: valid_address_def)
  with g ParseMac_format [of a a] show ?thesis by simp
qed

theorem generated_address_is_local_witness:
  "\<exists>w'. GenerateMac rough_world = Some (Some [0x06, 0xB0, 0x5B, 0x06, 0xB1, 0x5C], w') \<and>
     valid_address [0x06, 0xB0, 0x5B, 0x06, 0xB1, 0x5C]"
proof -
  have "map_option fst (GenerateMac rough_world) = Some (Some [0x06, 0xB0, 0x5B, 0x06, 0xB1, 0x5C])"
    by code_simp
  then obtain w' where "GenerateMac rough_world = Some (Some [0x06, 0xB0, 0x5B, 0x06, 0xB1, 0x5C], w')"
    by auto
  with generated_address_is_local [OF this] show ?thesis by blast
qed

text \<open>
  C26. Storing an address is atomic, at whatever call it fails. In every state of the file
  system on the way, the path holds what it held before or a complete file: a valid, locally
  administered address, with the mode and the owner asked for, already on the disk. If the call
  succeeds it holds such a file and the temporary file is gone; if not, it holds what
  it held before. Other paths do not change.
\<close>

theorem store_is_atomic:
  assumes "StoreMac path uid gid w = Some (b, w')"
  shows "(\<exists>hs. w_history w' = w_history w @ hs \<and>
      (\<forall>f \<in> set hs. f path = w_files w path \<or> complete uid gid (f path))) \<and>
    (if b then complete uid gid (w_files w' path) \<and> w_files w' (path @ ''.tmp'') = None
     else w_files w' path = w_files w path) \<and>
    (\<forall>q. q \<noteq> path \<and> q \<noteq> path @ ''.tmp'' \<longrightarrow> w_files w' q = w_files w q)"
proof -
  note r = StoreMac_result [OF assms]
  have "\<exists>hs. w_history w' = w_history w @ hs \<and>
      (\<forall>f \<in> set hs. f path = w_files w path \<or> complete uid gid (f path))"
  proof (cases b)
    case True
    then obtain x where "complete uid gid x" "swapped path x w w'" using r by auto
    with swapped_history show ?thesis by metis
  next
    case False
    then have "follows path w w'" using r by simp
    then show ?thesis by (auto simp: follows_def)
  qed
  moreover have "if b then complete uid gid (w_files w' path) \<and> w_files w' (path @ ''.tmp'') = None
     else w_files w' path = w_files w path"
    using r followsD(3) [of path w w'] by (cases b) (auto simp: swapped_def)
  moreover have "w_files w' q = w_files w q" if "q \<noteq> path" "q \<noteq> path @ ''.tmp''" for q
    using r that followsD(3) [of q w w'] by simp
  ultimately show ?thesis by blast
qed

theorem store_is_atomic_witness:
  "\<exists>w1 w2. StoreMac ''/p'' 1 2 rough_world = Some (False, w1) \<and> w_files w1 ''/p'' = None \<and>
     StoreMac ''/p'' 1 2 (demo_world Map.empty) = Some (True, w2) \<and>
     complete 1 2 (w_files w2 ''/p'') \<and> length (w_history w2) = 6"
proof -
  have "map_option fst (StoreMac ''/p'' 1 2 rough_world) = Some False"
    "map_option (\<lambda>(b, w). (b, length (w_history w))) (StoreMac ''/p'' 1 2 (demo_world Map.empty)) =
       Some (True, 6)"
    by code_simp+
  then obtain w1 w2 where "StoreMac ''/p'' 1 2 rough_world = Some (False, w1)"
    "StoreMac ''/p'' 1 2 (demo_world Map.empty) = Some (True, w2)" "length (w_history w2) = 6"
    by auto
  with store_is_atomic [OF this(1)] store_is_atomic [OF this(2)] show ?thesis
    by (auto simp: rough_world_def demo_world_def)
qed

text \<open>
  C27. The program ends. Its loops retry interrupted calls without a bound and writes that
  move nothing, so this needs that the calls are not interrupted for ever: if from some call
  on none fails and transfers of up to 32 bytes are whole, it ends, whatever happened before.
\<close>

theorem program_ends:
  assumes "calm_from n w"
  shows "\<exists>r w'. mac_main w = Some (r, w') \<and> (r = 0 \<or> r = 1)"
proof -
  obtain w1 where 1: "checked_start w = Some w1" "calm_from n w1"
    using checked_start_total [OF assms] by blast
  obtain b w2 where 2: "EnsureMac kBluetoothPath kBluetoothUid kBluetoothGid w1 = Some (b, w2)"
    "calm_from n w2"
    using EnsureMac_total [OF 1(2)] by blast
  obtain c w3 where "EnsureMac kWifiPath kSystemUid kWifiGid w2 = Some (c, w3)"
    using EnsureMac_total [OF 2(2)] by blast
  with 1 2 show ?thesis by (simp add: mac_main_start)
qed

theorem program_ends_witness:
  "\<exists>r w'. mac_main rough_world = Some (r, w') \<and> (r = 0 \<or> r = 1)"
proof (rule program_ends)
  show "calm_from 40 rough_world"
    by (simp add: calm_from_def rough_world_def demo_world_def)
qed

text \<open>
  C28. The exit status can be trusted: with status 0, both files hold an address when the
  program ends, also after any failures on the way.
\<close>

theorem status_0_means_addresses:
  assumes "mac_main w = Some (0, w')"
  shows "(\<exists>n \<le> 32. accepted n (w_files w' kBluetoothPath)) \<and>
    (\<exists>n \<le> 32. accepted n (w_files w' kWifiPath))"
proof -
  obtain w1 b w2 c where 1: "EnsureMac kBluetoothPath kBluetoothUid kBluetoothGid w1 = Some (b, w2)"
    and 2: "EnsureMac kWifiPath kSystemUid kWifiGid w2 = Some (c, w')" and "b" "c"
    using assms by (auto simp: mac_main_start bind_eq_Some_conv split: if_splits)
  have "follows kBluetoothPath w2 w'"
    using conjunct1 [OF EnsureMac_result [OF 2]] paths_apart(1,5) by simp
  then have "w_files w' kBluetoothPath = w_files w2 kBluetoothPath" by (rule followsD(3))
  moreover have "\<exists>n \<le> 32. accepted n (w_files w2 kBluetoothPath)"
    using EnsureMac_result [OF 1] \<open>b\<close> by blast
  moreover have "\<exists>n \<le> 32. accepted n (w_files w' kWifiPath)"
    using EnsureMac_result [OF 2] \<open>c\<close> by blast
  ultimately show ?thesis by metis
qed

theorem status_0_means_addresses_witness:
  "\<exists>w' n. mac_main (demo_world Map.empty) = Some (0, w') \<and> n \<le> 32 \<and>
     accepted n (w_files w' kBluetoothPath)"
proof -
  have "map_option fst (mac_main (demo_world Map.empty)) = Some 0" by code_simp
  then obtain w' where "mac_main (demo_world Map.empty) = Some (0, w')" by auto
  with status_0_means_addresses [OF this] show ?thesis by blast
qed

text \<open>
  C29. When no call fails. If both files already hold an address, nothing is changed at
  any time and the status is 0, so running the program again does nothing. Otherwise,
  if after the vendor helper each path holds an address or can take one (neither it nor
  the temporary path is a directory), the status is 0 and both files hold an address.
\<close>

theorem program_without_failures:
  assumes "calm w"
  shows "(accepted 32 (w_files w kBluetoothPath) \<and> accepted 32 (w_files w kWifiPath) \<longrightarrow>
      (\<exists>w'. mac_main w = Some (0, w') \<and> (\<forall>q. follows q w w'))) \<and>
    (\<not> (accepted 32 (w_files w kBluetoothPath) \<and> accepted 32 (w_files w kWifiPath)) \<and>
     (\<forall>p \<in> {kBluetoothPath, kWifiPath}.
        accepted 32 (w_helper w (w_files w) p) \<or> storable (w_helper w (w_files w)) p) \<longrightarrow>
      (\<exists>w'. mac_main w = Some (0, w') \<and> accepted 32 (w_files w' kBluetoothPath) \<and>
        accepted 32 (w_files w' kWifiPath)))"
proof -
  obtain w1 where 1: "checked_start w = Some w1" "calm w1"
    "if accepted 32 (w_files w kBluetoothPath) \<and> accepted 32 (w_files w kWifiPath)
     then w_files w1 = w_files w \<and> (\<forall>q. follows q w w1) else w_files w1 = w_helper w (w_files w)"
    using calm_start [OF assms] by blast
  note ensure = calm_ensure_both [OF 1(1,2)]
  show ?thesis
  proof (cases "accepted 32 (w_files w kBluetoothPath) \<and> accepted 32 (w_files w kWifiPath)")
    case True
    with 1(3) have s: "w_files w1 = w_files w" "\<forall>q. follows q w w1" by auto
    with True ensure obtain w3 where "mac_main w = Some (0, w3)" "\<forall>q. follows q w1 w3" by auto
    with s True show ?thesis by (meson follows_trans)
  next
    case False
    with 1(3) have "w_files w1 = w_helper w (w_files w)" by (simp split: if_splits)
    with False ensure show ?thesis by auto
  qed
qed

theorem program_without_failures_witness:
  "\<exists>w'. mac_main (demo_world Map.empty) = Some (0, w') \<and> accepted 32 (w_files w' kBluetoothPath) \<and>
     accepted 32 (w_files w' kWifiPath)"
proof -
  have "calm (demo_world Map.empty)" by (simp add: calm_def calm_from_def demo_world_def)
  from program_without_failures [OF this] show ?thesis
    by (simp add: demo_world_def accepted_def storable_def)
qed

end
