(* ===== verification/LibInit.thy ===== *)
theory LibInit
  imports Prelude
begin

text \<open>
  The properties the init process gets from \<open>libinit/init_huawei_hi3635.cpp\<close>: the model name,
  from the board name in the device tree, and the fingerprint and the description of the
  build, each under the names of all sources.
\<close>

section \<open>The program\<close>

text \<open>The property area, which knows the value of every property that exists.\<close>

type_synonym prop_area = "string \<rightharpoonup> string"

definition ro_props_default_source_order :: "string list" where
  "ro_props_default_source_order = [[], ''odm.'', ''product.'', ''system.'', ''system_ext.'', ''vendor.'']"

text \<open>The number of the build is a macro the build files may set.\<close>

definition BUILD_FINGERPRINT :: "string \<Rightarrow> string" where
  "BUILD_FINGERPRINT build_number =
     ''huawei/mozart/hi3635:9/PQ3A.190801/'' @ build_number @ '':user/release-keys''"

definition BUILD_DESCRIPTION :: "string \<Rightarrow> string" where
  "BUILD_DESCRIPTION build_number =
     ''lineage_mozart-user 9 PQ3A.190801.002 '' @ build_number @ '' release-keys''"

definition property_update :: "string \<Rightarrow> string \<Rightarrow> prop_area \<Rightarrow> prop_area" where
  "property_update prop value area = area(prop := map_option (\<lambda>_. value) (area prop))"

definition property_add :: "string \<Rightarrow> string \<Rightarrow> prop_area \<Rightarrow> prop_area" where
  "property_add prop value area = area(prop \<mapsto> value)"

definition property_override :: "string \<Rightarrow> string \<Rightarrow> prop_area \<Rightarrow> prop_area" where
  "property_override prop value area =
     (if area prop \<noteq> None then property_update prop value area else property_add prop value area)"

fun set_for_sources :: "string list \<Rightarrow> string \<Rightarrow> string \<Rightarrow> bool \<Rightarrow> prop_area \<Rightarrow> prop_area" where
  "set_for_sources [] prop value product area = area"
| "set_for_sources (source # sources) prop value product area =
     (let prop_name = (if product then ''ro.product.'' @ source @ prop
                       else ''ro.'' @ source @ ''build.'' @ prop)
      in set_for_sources sources prop value product (property_override prop_name value area))"

definition set_ro_build_prop :: "string \<Rightarrow> string \<Rightarrow> bool \<Rightarrow> prop_area \<Rightarrow> prop_area" where
  "set_ro_build_prop prop value product area =
     set_for_sources ro_props_default_source_order prop value product area"

text \<open>Whether \<open>find\<close> finds the text.\<close>

fun finds :: "string \<Rightarrow> string \<Rightarrow> bool" where
  "finds part [] = (part = [])"
| "finds part (c # cs) = (take (length part) (c # cs) = part \<or> finds part cs)"

text \<open>\<open>boardname\<close> is the content of the file, if it can be read.\<close>

definition vendor_load_properties :: "string \<Rightarrow> string option \<Rightarrow> prop_area \<Rightarrow> prop_area" where
  "vendor_load_properties build_number boardname area0 =
     (let area1 =
        (case boardname of
           None \<Rightarrow> area0
         | Some model \<Rightarrow>
             if finds ''801W'' model then set_ro_build_prop ''model'' ''M2-801W'' True area0
             else if finds ''801L'' model then set_ro_build_prop ''model'' ''M2-801L'' True area0
             else if finds ''802L'' model then set_ro_build_prop ''model'' ''M2-802L'' True area0
             else if finds ''803L'' model then set_ro_build_prop ''model'' ''M2-803L'' True area0
             else set_ro_build_prop ''model'' ''MediaPad M2 8.0'' True area0);
          area2 = set_ro_build_prop ''fingerprint'' (BUILD_FINGERPRINT build_number) False area1
      in set_ro_build_prop ''description'' (BUILD_DESCRIPTION build_number) False area2)"

section \<open>Lemmas\<close>

lemma property_override_apply: "property_override prop value area = area(prop \<mapsto> value)"
  by (auto simp: property_override_def property_update_def property_add_def)

definition prop_names :: "bool \<Rightarrow> string \<Rightarrow> string set" where
  "prop_names product prop =
     (if product then (\<lambda>s. ''ro.product.'' @ s @ prop) ` set ro_props_default_source_order
      else (\<lambda>s. ''ro.'' @ s @ ''build.'' @ prop) ` set ro_props_default_source_order)"

lemma set_for_sources_apply:
  "set_for_sources sources prop value product area k =
     (if k \<in> (if product then (\<lambda>s. ''ro.product.'' @ s @ prop) ` set sources
              else (\<lambda>s. ''ro.'' @ s @ ''build.'' @ prop) ` set sources)
      then Some value else area k)"
  by (induction sources arbitrary: area) (auto simp: property_override_apply Let_def)

lemma set_ro_build_prop_apply:
  "set_ro_build_prop prop value product area k =
     (if k \<in> prop_names product prop then Some value else area k)"
  by (simp add: set_ro_build_prop_def prop_names_def set_for_sources_apply)

lemma finds_iff: "finds part str \<longleftrightarrow> (\<exists>before after. str = before @ part @ after)"
proof (induction str)
  case Nil
  then show ?case by simp
next
  case (Cons c cs)
  have "take (length part) (c # cs) = part \<longleftrightarrow> (\<exists>after. c # cs = part @ after)"
    by (metis append_eq_conv_conj append_take_drop_id)
  with Cons show ?case by (metis (no_types, opaque_lifting) append_Cons append_Nil finds.simps(2) neq_Nil_conv list.inject)
qed

text \<open>The model name for a board name, as one expression.\<close>

definition model_name :: "string \<Rightarrow> string" where
  "model_name board =
     (case filter (\<lambda>code. finds code board) [''801W'', ''801L'', ''802L'', ''803L''] of
        [] \<Rightarrow> ''MediaPad M2 8.0''
      | code # _ \<Rightarrow> ''M2-'' @ code)"

lemma vendor_load_model:
  "vendor_load_properties build_number boardname area =
     set_ro_build_prop ''description'' (BUILD_DESCRIPTION build_number) False
       (set_ro_build_prop ''fingerprint'' (BUILD_FINGERPRINT build_number) False
         (case boardname of
            None \<Rightarrow> area
          | Some board \<Rightarrow> set_ro_build_prop ''model'' (model_name board) True area))"
  by (simp add: vendor_load_properties_def model_name_def split: option.split)

section \<open>Properties\<close>

text \<open>
  What every property is after loading. Under each of the six sources the description
  and the fingerprint are those of the build; the model is \<open>M2-\<close> with the first of the four
  codes that the board name contains, in the order of the code, or the generic name, and is left
  alone if there is no board name; every other property is as before.
\<close>

theorem properties_after_load:
  "vendor_load_properties build_number boardname area k =
     (if k \<in> prop_names False ''description'' then Some (BUILD_DESCRIPTION build_number)
      else if k \<in> prop_names False ''fingerprint'' then Some (BUILD_FINGERPRINT build_number)
      else case boardname of
             Some board \<Rightarrow> if k \<in> prop_names True ''model'' then Some (model_name board) else area k
           | None \<Rightarrow> area k)"
  by (simp add: vendor_load_model set_ro_build_prop_apply split: option.split)

text \<open>
  Loading twice is loading once, and the board name alone decides the model: a board
  name that contains a code gets the name with that code, if it contains no earlier one.
\<close>

theorem load_is_idempotent:
  "vendor_load_properties b n (vendor_load_properties b n area) = vendor_load_properties b n area \<and>
   vendor_load_properties b (Some (before @ ''801W'' @ after)) area ''ro.product.vendor.model'' =
     Some ''M2-801W''"
proof
  show "vendor_load_properties b n (vendor_load_properties b n area) = vendor_load_properties b n area"
    by (rule ext) (simp add: vendor_load_model set_ro_build_prop_apply split: option.split)
  have "finds ''801W'' (before @ ''801W'' @ after)" unfolding finds_iff by blast
  then have "model_name (before @ ''801W'' @ after) = ''M2-801W''" by (simp add: model_name_def)
  moreover have "''ro.product.vendor.model'' \<in> prop_names True ''model''"
    "''ro.product.vendor.model'' \<notin> prop_names False ''description''"
    "''ro.product.vendor.model'' \<notin> prop_names False ''fingerprint''"
    by (simp_all add: prop_names_def ro_props_default_source_order_def)
  ultimately show "vendor_load_properties b (Some (before @ ''801W'' @ after)) area
      ''ro.product.vendor.model'' = Some ''M2-801W''"
    by (simp add: vendor_load_model set_ro_build_prop_apply)
qed

end
