(* ===== verification/Bluetooth.thy ===== *)
theory Bluetooth
  imports LibInit
begin

text \<open>
  The name of the Bluetooth adapter, from \<open>bluetooth/bdroid_buildcfg.h\<close>: the Bluetooth stack
  calls the function of the header, which derives the name from the model property that
  \<open>libinit/init_huawei_hi3635.cpp\<close> (theory LibInit) has set while booting.
\<close>

section \<open>The program\<close>

text \<open>
  \<open>property_get\<close> is a function of a library: given a key and a default it leaves a text in
  the buffer, which has room for 91 characters and the final zero.
\<close>

type_synonym property_get = "string \<Rightarrow> string \<Rightarrow> string"

definition BtmGetDefaultName :: "property_get \<Rightarrow> string" where
  "BtmGetDefaultName property_get =
     (let device = property_get ''ro.product.model'' []
      in if finds ''M2-801W'' device then ''M2-801W''
         else if finds ''M2-801L'' device then ''M2-801L''
         else if finds ''M2-802L'' device then ''M2-802L''
         else if finds ''M2-803L'' device then ''M2-803L''
         else ''MediaPad M2 8.0'')"

section \<open>Lemmas\<close>

text \<open>
  What is documented of \<open>property_get\<close>: it gives the value of a property that exists and
  is not empty, if the value fits the buffer, and the default if there is no such property.
\<close>

definition reads_area :: "property_get \<Rightarrow> prop_area \<Rightarrow> bool" where
  "reads_area get area \<longleftrightarrow>
     (\<forall>key default_value. area key = None \<longrightarrow> get key default_value = default_value) \<and>
     (\<forall>key default_value value. area key = Some value \<longrightarrow> value \<noteq> [] \<longrightarrow> length value < 92 \<longrightarrow>
        CHR 0x00 \<notin> set value \<longrightarrow> get key default_value = value)"

lemma reads_area_none: "reads_area get area \<Longrightarrow> area key = None \<Longrightarrow> get key default_value = default_value"
  by (simp add: reads_area_def)

lemma reads_area_some:
  "reads_area get area \<Longrightarrow> area key = Some value \<Longrightarrow> value \<noteq> [] \<Longrightarrow> length value < 92 \<Longrightarrow>
   CHR 0x00 \<notin> set value \<Longrightarrow> get key default_value = value"
  by (simp add: reads_area_def)

lemma model_name_cases:
  "model_name board \<in> {''M2-801W'', ''M2-801L'', ''M2-802L'', ''M2-803L'', ''MediaPad M2 8.0''}"
  by (simp add: model_name_def)

text \<open>The name of the adapter is the model, for every model the init program can set.\<close>

lemma name_of_a_model:
  assumes "get ''ro.product.model'' [] = model_name board"
  shows "BtmGetDefaultName get = model_name board"
  using model_name_cases [of board] assms by (auto simp: BtmGetDefaultName_def)

lemma name_without_a_model: "get ''ro.product.model'' [] = [] \<Longrightarrow> BtmGetDefaultName get = ''MediaPad M2 8.0''"
  by (simp add: BtmGetDefaultName_def)

text \<open>The property the header reads is one of the six the init program sets.\<close>

lemma model_property:
  "''ro.product.model'' \<in> prop_names True ''model''"
  "''ro.product.model'' \<notin> prop_names False ''description''"
  "''ro.product.model'' \<notin> prop_names False ''fingerprint''"
  by (simp_all add: prop_names_def ro_props_default_source_order_def)

section \<open>Properties\<close>

text \<open>
  C30. What the init program leaves for the rest of the system. After loading, under each of the
  six sources the description and the fingerprint are those of the build; the model is \<open>M2-\<close>
  with the first of the four codes that the board name contains, in the order of the code, or
  the generic name, and is left alone if there is no board name; every other property is
  as before. A \<open>property_get\<close> that reads these properties then makes the name of the Bluetooth
  adapter exactly that model, and the generic name if no model was ever set.
\<close>

theorem bluetooth_name_after_load:
  assumes "reads_area get (vendor_load_properties build_number boardname area)"
  shows "vendor_load_properties build_number boardname area key =
     (if key \<in> prop_names False ''description'' then Some (BUILD_DESCRIPTION build_number)
      else if key \<in> prop_names False ''fingerprint'' then Some (BUILD_FINGERPRINT build_number)
      else case boardname of
             Some board \<Rightarrow> if key \<in> prop_names True ''model'' then Some (model_name board) else area key
           | None \<Rightarrow> area key) \<and>
   (\<forall>board. boardname = Some board \<longrightarrow> BtmGetDefaultName get = model_name board) \<and>
   (boardname = None \<and> area ''ro.product.model'' = None \<longrightarrow>
      BtmGetDefaultName get = ''MediaPad M2 8.0'')"
proof (intro conjI allI impI)
  fix board
  assume b: "boardname = Some board"
  have "vendor_load_properties build_number boardname area ''ro.product.model'' = Some (model_name board)"
    using model_property by (simp add: properties_after_load b)
  from reads_area_some [OF assms this] model_name_cases [of board]
  have "get ''ro.product.model'' [] = model_name board" by auto
  then show "BtmGetDefaultName get = model_name board" by (rule name_of_a_model)
next
  assume b: "boardname = None \<and> area ''ro.product.model'' = None"
  have "vendor_load_properties build_number boardname area ''ro.product.model'' = None"
    using b model_property by (simp add: properties_after_load)
  from reads_area_none [OF assms this] show "BtmGetDefaultName get = ''MediaPad M2 8.0''"
    by (rule name_without_a_model)
qed (rule properties_after_load)

text \<open>A reader of properties, as the library has it.\<close>

definition demo_get :: "prop_area \<Rightarrow> property_get" where
  "demo_get area key default_value =
     (case area key of None \<Rightarrow> default_value | Some value \<Rightarrow> if value = [] then default_value else take 91 value)"

lemma demo_get_reads: "reads_area (demo_get area) area"
  by (simp add: reads_area_def demo_get_def)

theorem bluetooth_name_after_load_witness:
  "BtmGetDefaultName (demo_get (vendor_load_properties ''1'' (Some ''MOZART_802L_VN2'') Map.empty)) =
     ''M2-802L''"
proof -
  have "model_name ''MOZART_802L_VN2'' = ''M2-802L''" by (simp add: model_name_def)
  with bluetooth_name_after_load [OF demo_get_reads, of "''1''" "Some ''MOZART_802L_VN2''" Map.empty "[]"]
  show ?thesis by simp
qed

end
