(* ===== verification/Float32.thy ===== *)
theory Float32
  imports Prelude
begin

text \<open>
  The numbers of type \<open>float\<close>, as the IEEE 754 format \<open>binary32\<close> the platform uses for it. Every
  finite number of the format is an integer multiple of \<open>2 ^ -149\<close>, so a finite number is kept as
  that integer, and a result is exact up to the rounding to 24 significant bits, to nearest with
  ties to even. The two zeros are one number: no operation used here tells them apart.
\<close>

section \<open>Rounding\<close>

datatype float32 = NaN | Infinity bool | Finite int

text \<open>How many bits an integer has beyond the 24 of the format.\<close>

function excess :: "int \<Rightarrow> nat" where
  "excess m = (if m < 16777216 then 0 else Suc (excess (m div 2)))"
  by auto
termination by (relation "measure nat") auto

declare excess.simps [simp del]

definition half_even :: "int \<Rightarrow> int \<Rightarrow> int" where
  "half_even a b =
     (if 2 * (a mod b) < b \<or> (2 * (a mod b) = b \<and> even (a div b)) then a div b else a div b + 1)"

text \<open>The multiple of \<open>2 ^ -149\<close> that is next to \<open>p\<close> times \<open>2 ^ - (149 + k)\<close>, for \<open>p \<ge> 0\<close>.\<close>

definition round_at :: "nat \<Rightarrow> int \<Rightarrow> int" where
  "round_at k p = (let e = max k (excess p) in half_even p (2 ^ e) * 2 ^ (e - k))"

definition f_result :: "nat \<Rightarrow> int \<Rightarrow> float32" where
  "f_result k p =
     (let r = sgn p * round_at k \<bar>p\<bar>
      in if \<bar>r\<bar> \<ge> 2 ^ 277 then Infinity (p < 0) else Finite r)"

section \<open>Operations\<close>

fun f_less :: "float32 \<Rightarrow> float32 \<Rightarrow> bool" where
  "f_less (Finite a) (Finite b) = (a < b)"
| "f_less (Finite a) (Infinity neg) = (\<not> neg)"
| "f_less (Infinity neg) (Finite b) = neg"
| "f_less (Infinity neg) (Infinity neg') = (neg \<and> \<not> neg')"
| "f_less NaN y = False"
| "f_less x NaN = False"

fun f_sub :: "float32 \<Rightarrow> float32 \<Rightarrow> float32" where
  "f_sub (Finite a) (Finite b) = f_result 0 (a - b)"
| "f_sub (Finite a) (Infinity neg) = Infinity (\<not> neg)"
| "f_sub (Infinity neg) (Finite b) = Infinity neg"
| "f_sub (Infinity neg) (Infinity neg') = (if neg = neg' then NaN else Infinity neg)"
| "f_sub NaN y = NaN"
| "f_sub x NaN = NaN"

fun f_mul :: "float32 \<Rightarrow> float32 \<Rightarrow> float32" where
  "f_mul (Finite a) (Finite b) = f_result 149 (a * b)"
| "f_mul (Finite a) (Infinity neg) = (if a = 0 then NaN else Infinity ((a < 0) \<noteq> neg))"
| "f_mul (Infinity neg) (Finite b) = (if b = 0 then NaN else Infinity ((b < 0) \<noteq> neg))"
| "f_mul (Infinity neg) (Infinity neg') = Infinity (neg \<noteq> neg')"
| "f_mul NaN y = NaN"
| "f_mul x NaN = NaN"

text \<open>The conversion of an integer, and the literals of integer value.\<close>

definition f_int :: "int \<Rightarrow> float32" where
  "f_int n = f_result 0 (n * 2 ^ 149)"

text \<open>\<open>std::max\<close>, \<open>std::min\<close>: which argument they return if neither is less.\<close>

definition f_max :: "float32 \<Rightarrow> float32 \<Rightarrow> float32" where
  "f_max x y = (if f_less x y then y else x)"

definition f_min :: "float32 \<Rightarrow> float32 \<Rightarrow> float32" where
  "f_min x y = (if f_less y x then y else x)"

text \<open>\<open>std::round\<close>: to the nearest integer, halves away from zero.\<close>

fun f_round :: "float32 \<Rightarrow> float32" where
  "f_round (Finite m) = Finite (sgn m * ((\<bar>m\<bar> + 2 ^ 148) div 2 ^ 149) * 2 ^ 149)"
| "f_round x = x"

text \<open>The conversion to \<open>uint32_t\<close>, undefined unless the truncated value is in its range.\<close>

fun f_uint32 :: "float32 \<Rightarrow> int option" where
  "f_uint32 (Finite m) =
     (let t = sgn m * (\<bar>m\<bar> div 2 ^ 149) in if 0 \<le> t \<and> t < 2 ^ 32 then Some t else None)"
| "f_uint32 x = None"

section \<open>Lemmas: rounding\<close>

text \<open>A number of the format, if it is not too large.\<close>

definition representable :: "int \<Rightarrow> bool" where
  "representable y \<longleftrightarrow> 0 \<le> y \<and> 2 ^ excess y dvd y"

lemma excess_small [simp]: "m < 16777216 \<Longrightarrow> excess m = 0"
  by (simp add: excess.simps)

lemma excess_lower: "0 < excess m \<Longrightarrow> 8388608 * 2 ^ excess m \<le> m"
proof (induction m rule: excess.induct)
  case (1 m)
  show ?case
  proof (cases "m < 33554432")
    case True
    with 1(2) have "16777216 \<le> m" "m div 2 < 16777216" using excess_small [of m] by linarith+
    then have "excess m = 1" by (subst excess.simps) simp
    with \<open>16777216 \<le> m\<close> show ?thesis by simp
  next
    case False
    then have e: "excess m = Suc (excess (m div 2))" by (subst excess.simps) simp
    have "16777216 \<le> m div 2" using False by linarith
    then have "0 < excess (m div 2)" by (subst excess.simps) simp
    with 1(1) False have "8388608 * 2 ^ excess (m div 2) \<le> m div 2" by simp
    then show ?thesis unfolding e by simp
  qed
qed

lemma excess_upper: "0 \<le> m \<Longrightarrow> m < 16777216 * 2 ^ excess m"
proof (induction m rule: excess.induct)
  case (1 m)
  show ?case
  proof (cases "m < 16777216")
    case False
    then have "m div 2 < 16777216 * 2 ^ excess (m div 2)" using 1 by simp
    then have "m < 16777216 * 2 ^ Suc (excess (m div 2))" by simp
    with False show ?thesis by (subst excess.simps) simp
  qed simp
qed

lemma excess_mono: "0 \<le> m \<Longrightarrow> m \<le> n \<Longrightarrow> excess m \<le> excess n"
proof (cases "excess m = 0")
  case False
  assume m: "0 \<le> m" "m \<le> n"
  have "8388608 * 2 ^ excess m \<le> m" using False by (simp add: excess_lower)
  also have "\<dots> < 16777216 * 2 ^ excess n" using m excess_upper [of n] by simp
  finally have "(2::int) ^ excess m < 2 ^ Suc (excess n)" by simp
  then show ?thesis using power_less_imp_less_exp [of "2::int" "excess m" "Suc (excess n)"] by simp
qed simp

lemma excess_shift: "0 \<le> m \<Longrightarrow> excess (m * 2 ^ k) \<le> excess m + k"
proof (induction k)
  case (Suc k)
  have "excess (m * 2 ^ Suc k) \<le> Suc (excess (m * 2 ^ k))"
    by (subst excess.simps) (simp add: mult.assoc [symmetric])
  with Suc show ?case by simp
qed simp

lemma half_even_le: "0 < b \<Longrightarrow> a \<le> c * b \<Longrightarrow> half_even a b \<le> c"
proof -
  assume b: "0 < b" and a: "a \<le> c * b"
  show ?thesis
  proof (cases "a = c * b")
    case True
    with b show ?thesis by (simp add: half_even_def)
  next
    case False
    with a have "a < c * b" by simp
    then have "a div b < c"
      using b zdiv_mono1 [of "c * b - b + 1" "a + 1" b] mult_right_mono [of c "a div b" b]
        div_mult_mod_eq [of a b] pos_mod_sign [of b a] by (smt (verit))
    then show ?thesis by (simp add: half_even_def)
  qed
qed

lemma half_even_ge: "0 < b \<Longrightarrow> c * b \<le> a \<Longrightarrow> c \<le> half_even a b"
proof -
  assume b: "0 < b" and a: "c * b \<le> a"
  then have "c \<le> a div b" using zdiv_mono1 [of "c * b" a b] by simp
  then show ?thesis by (simp add: half_even_def)
qed

lemma round_at_le:
  assumes "representable y" "0 \<le> p" "p \<le> y * 2 ^ k"
  shows "round_at k p \<le> y"
proof (cases "excess p \<le> k")
  case True
  then have "round_at k p = half_even p (2 ^ k)" by (simp add: round_at_def max_def)
  with assms(3) show ?thesis by (simp add: half_even_le)
next
  case False
  define d where "d = excess p - k"
  have e: "excess p = k + d" using False by (simp add: d_def)
  have "excess p \<le> excess y + k"
    using excess_mono [OF assms(2,3)] excess_shift [of y k] assms(1) by (simp add: representable_def)
  then have "d \<le> excess y" using e by simp
  then have "2 ^ d dvd y" using assms(1) unfolding representable_def by (metis power_le_dvd)
  then obtain c where c: "y = c * 2 ^ d" by (metis dvd_def mult.commute)
  have "p \<le> c * 2 ^ (k + d)" using assms(3) c by (simp add: power_add mult_ac)
  then have "half_even p (2 ^ (k + d)) \<le> c" by (simp add: half_even_le)
  then show ?thesis using False e c by (simp add: round_at_def max_def)
qed

lemma round_at_ge:
  assumes "representable y" "y * 2 ^ k \<le> p"
  shows "y \<le> round_at k p"
proof (cases "excess p \<le> k")
  case True
  then have "round_at k p = half_even p (2 ^ k)" by (simp add: round_at_def max_def)
  with assms(2) show ?thesis by (simp add: half_even_ge)
next
  case False
  define d where "d = excess p - k"
  have e: "excess p = k + d" "0 < d" using False by (simp_all add: d_def)
  have r: "round_at k p = half_even p (2 ^ (k + d)) * 2 ^ d"
    using False e by (simp add: round_at_def max_def)
  show ?thesis
  proof (cases "d \<le> excess y")
    case True
    then have "2 ^ d dvd y" using assms(1) unfolding representable_def by (metis power_le_dvd)
    then obtain c where c: "y = c * 2 ^ d" by (metis dvd_def mult.commute)
    have "c * 2 ^ (k + d) \<le> p" using assms(2) c by (simp add: power_add mult_ac)
    then have "c \<le> half_even p (2 ^ (k + d))" by (simp add: half_even_ge)
    then show ?thesis using r c by simp
  next
    case False
    have "8388608 * 2 ^ (k + d) \<le> p" using excess_lower [of p] e by simp
    then have "8388608 \<le> half_even p (2 ^ (k + d))" by (simp add: half_even_ge)
    then have "8388608 * 2 ^ d \<le> round_at k p" using r by simp
    moreover have "y < 16777216 * 2 ^ excess y"
      using assms(1) excess_upper by (simp add: representable_def)
    moreover have "(2::int) ^ Suc (excess y) \<le> 2 ^ d" using False by (intro power_increasing) auto
    ultimately show ?thesis by simp
  qed
qed

lemma round_at_exact: "representable y \<Longrightarrow> round_at k (y * 2 ^ k) = y"
  using round_at_le [of y "y * 2 ^ k" k] round_at_ge [of y k "y * 2 ^ k"]
  by (simp add: representable_def order_antisym)

lemma representable_shift:
  assumes "representable y"
  shows "representable (y * 2 ^ k)"
proof -
  obtain c where c: "y = 2 ^ excess y * c" using assms by (auto simp: representable_def)
  have "2 ^ excess (y * 2 ^ k) dvd (2::int) ^ (excess y + k)"
    using excess_shift [of y k] assms by (simp add: representable_def le_imp_power_dvd)
  also have "\<dots> dvd y * 2 ^ k" using assms by (simp add: power_add representable_def mult_dvd_mono)
  finally show ?thesis using assms by (simp add: representable_def)
qed

lemma representable_small: "0 \<le> n \<Longrightarrow> n \<le> 16777216 \<Longrightarrow> representable n"
proof (cases "n = 16777216")
  case True
  then show ?thesis by (simp add: representable_def excess.simps [of 16777216])
qed (simp add: representable_def)

lemma round_at_0 [simp]: "round_at k 0 = 0"
  using round_at_exact [of 0 k] by (simp add: representable_def)

lemma round_at_nonneg: "0 \<le> p \<Longrightarrow> 0 \<le> round_at k p"
  using round_at_ge [of 0 k p] by (simp add: representable_def)

lemma half_even_error: "0 < b \<Longrightarrow> \<bar>2 * (half_even a b * b - a)\<bar> \<le> b"
proof -
  assume b: "0 < b"
  define q r where "q = a div b" and "r = a mod b"
  have a: "a = q * b + r" "0 \<le> r" "r < b" using b by (simp_all add: q_def r_def)
  have "half_even a b = q \<and> 2 * r \<le> b \<or> half_even a b = q + 1 \<and> b \<le> 2 * r"
    by (auto simp: half_even_def simp flip: q_def r_def)
  then show ?thesis using a by (auto simp: distrib_right)
qed

text \<open>Below \<open>2 ^ (24 + j)\<close> units, rounding moves a number by at most half of \<open>2 ^ j\<close> units.\<close>

lemma round_at_error_at:
  assumes "p < 16777216 * 2 ^ j" "k \<le> j"
  shows "\<bar>2 * (round_at k p * 2 ^ k - p)\<bar> \<le> 2 ^ j"
proof -
  define e where "e = max k (excess p)"
  have "excess p \<le> j"
  proof (cases "excess p = 0")
    case False
    then have "8388608 * 2 ^ excess p < 16777216 * (2::int) ^ j"
      using excess_lower [of p] assms(1) by simp
    then have "(2::int) ^ excess p < 2 ^ Suc j" by simp
    then show ?thesis using power_less_imp_less_exp [of "2::int" "excess p" "Suc j"] by simp
  qed simp
  then have "(2::int) ^ e \<le> 2 ^ j" using assms(2) by (intro power_increasing) (auto simp: e_def)
  moreover have "(2::int) ^ (e - k) * 2 ^ k = 2 ^ e" by (simp add: e_def flip: power_add)
  then have "round_at k p * 2 ^ k = half_even p (2 ^ e) * 2 ^ e"
    by (simp add: round_at_def Let_def mult.assoc flip: e_def)
  then have "\<bar>2 * (round_at k p * 2 ^ k - p)\<bar> \<le> 2 ^ e"
    using half_even_error [of "2 ^ e" p] by simp
  ultimately show ?thesis by (rule order_trans [rotated])
qed

lemma round_at_error: "p < 16777216 * 2 ^ j \<Longrightarrow> \<bar>2 * (round_at 0 p - p)\<bar> \<le> 2 ^ j"
  using round_at_error_at [of p j 0] by simp

section \<open>Lemmas: the operations\<close>

lemma f_result_nonneg:
  assumes "0 \<le> p" "representable y" "p \<le> y * 2 ^ k" "y < 2 ^ 277"
  shows "f_result k p = Finite (round_at k p)" "0 \<le> round_at k p" "round_at k p \<le> y"
proof -
  show r: "0 \<le> round_at k p" "round_at k p \<le> y"
    using round_at_nonneg [OF assms(1)] round_at_le [OF assms(2,1,3)] by simp_all
  have "sgn p * round_at k \<bar>p\<bar> = round_at k p" using assms(1) by (cases "p = 0") simp_all
  then show "f_result k p = Finite (round_at k p)"
    using r assms(4) by (simp add: f_result_def Let_def)
qed

lemma f_int_exact:
  assumes "0 \<le> n" "n \<le> 16777216"
  shows "f_int n = Finite (n * 2 ^ 149)"
proof -
  have r: "representable (n * 2 ^ 149)"
    by (rule representable_shift, rule representable_small [OF assms])
  have "f_int n = Finite (round_at 0 (n * 2 ^ 149))"
    unfolding f_int_def using assms by (intro f_result_nonneg(1) [OF _ r]) simp_all
  with round_at_exact [OF r, of 0] show ?thesis by simp
qed

lemma f_int_0 [simp]: "f_int 0 = Finite 0"
  by (simp add: f_int_def f_result_def)

lemma f_int_bound:
  assumes "0 \<le> n" "n \<le> N" "representable N" "N \<le> 4294967296"
  shows "\<exists>m. f_int n = Finite m \<and> 0 \<le> m \<and> m \<le> N * 2 ^ 149"
proof -
  have "representable (N * 2 ^ 149)" using assms(3) by (rule representable_shift)
  from f_result_nonneg [of "n * 2 ^ 149" "N * 2 ^ 149" 0, OF _ this] assms show ?thesis
    by (simp add: f_int_def)
qed

text \<open>\<open>pixel\<close> is the integer a number of the format is rounded to.\<close>

definition pixel :: "int \<Rightarrow> int" where
  "pixel m = (m + 2 ^ 148) div 2 ^ 149"

lemma pixel_bounds:
  assumes "0 \<le> m" "m \<le> n * 2 ^ 149"
  shows "0 \<le> pixel m" "pixel m \<le> n"
proof -
  show "0 \<le> pixel m" using assms(1) by (simp add: pixel_def)
  have "pixel m \<le> (n * 2 ^ 149 + 2 ^ 148) div 2 ^ 149"
    unfolding pixel_def using assms(2) by (intro zdiv_mono1) simp_all
  then show "pixel m \<le> n" by simp
qed

lemma pixel_error: "\<bar>2 * (pixel m * 2 ^ 149 - m)\<bar> \<le> 2 ^ 149"
  using div_mult_mod_eq [of "m + 2 ^ 148" "2 ^ 149"] pos_mod_bound [of "2 ^ 149" "m + 2 ^ 148"]
    pos_mod_sign [of "2 ^ 149" "m + 2 ^ 148"]
  unfolding pixel_def by simp

lemma pixel_exact [simp]: "pixel (n * 2 ^ 149) = n"
  by (simp add: pixel_def)

lemma f_round_uint32:
  assumes "0 \<le> m" "pixel m < 4294967296"
  shows "f_uint32 (f_max (f_int 0) (f_round (Finite m))) = Some (pixel m)"
proof -
  have s: "sgn m * ((\<bar>m\<bar> + 2 ^ 148) div 2 ^ 149) = pixel m"
    using assms(1) by (cases "m = 0") (simp_all add: pixel_def)
  have p: "0 \<le> pixel m" using assms(1) by (simp add: pixel_def)
  have "f_max (f_int 0) (f_round (Finite m)) = Finite (pixel m * 2 ^ 149)"
    using p by (simp only: f_round.simps s f_max_def f_int_0 f_less.simps) (auto simp: zero_less_mult_iff)
  moreover have "sgn (pixel m * 2 ^ 149) * (\<bar>pixel m * 2 ^ 149\<bar> div 2 ^ 149) = pixel m"
    using p by (cases "pixel m = 0") (simp_all add: sgn_mult)
  moreover have "f_uint32 (Finite n) = Some t"
    if "sgn n * (\<bar>n\<bar> div 2 ^ 149) = t" "0 \<le> t" "t < 4294967296" for n t
    using that by (simp only: f_uint32.simps Let_def) simp
  ultimately show ?thesis using p assms(2) by presburger
qed

end
