(* ===== verification/GuiHeaders.thy ===== *)
theory GuiHeaders
  imports Float32 "HOL-Library.Word"
begin

text \<open>
  The classes of the headers in \<open>libshims/gui/include/\<close> whose data the sensor manager and the
  sensor server pass on: \<open>Sensor.h\<close>, and the two functions with a body in \<open>BitTube.h\<close>. The
  methods the headers only declare belong to the sensor library and are parameters of what uses
  them.
\<close>

section \<open>Sensors\<close>

text \<open>
  The union in \<open>uuid_t\<close> has two views of the same 16 bytes; the second takes them as two numbers,
  the lowest byte first.
\<close>

record uuid_t =
  uuid_b :: "8 word list"

definition uuid_i64 :: "uuid_t \<Rightarrow> nat \<Rightarrow> 64 word" where
  "uuid_i64 u k = word_rcat (rev (take 8 (drop (8 * k) (uuid_b u))))"

definition uuid_of_bytes :: "8 word list \<Rightarrow> uuid_t" where
  "uuid_of_bytes uuid = \<lparr>uuid_b = take 16 uuid\<rparr>"

definition uuid_zero :: uuid_t where
  "uuid_zero = \<lparr>uuid_b = replicate 16 0\<rparr>"

record gui_sensor =
  mName :: string
  mVendor :: string
  mHandle :: int
  mType :: int
  mMinValue :: float32
  mMaxValue :: float32
  mResolution :: float32
  mPower :: float32
  mMinDelay :: int
  mVersion :: int
  mFifoReservedEventCount :: int
  mFifoMaxEventCount :: int
  mStringType :: string
  mRequiredPermission :: string
  mRequiredPermissionRuntime :: bool
  mRequiredAppOp :: int
  mMaxDelay :: int
  mFlags :: int
  mUuid :: uuid_t

text \<open>The identifier a sensor has before one is given to it: both numbers are zero.\<close>

lemma uuid_zero_i64: "k < 2 \<Longrightarrow> uuid_i64 uuid_zero k = 0"
  by (cases k) (simp_all add: uuid_i64_def uuid_zero_def word_rcat_def numeral_eq_Suc)

text \<open>A sensor of a type with flags, as it appears in the examples.\<close>

definition sample_sensor :: "int \<Rightarrow> int \<Rightarrow> int \<Rightarrow> gui_sensor" where
  "sample_sensor handle type flags =
     \<lparr>mName = ''s'', mVendor = ''v'', mHandle = handle, mType = type, mMinValue = Finite 0,
      mMaxValue = Finite 0, mResolution = Finite 0, mPower = Finite 0, mMinDelay = 0, mVersion = 1,
      mFifoReservedEventCount = 0, mFifoMaxEventCount = 0, mStringType = [], mRequiredPermission = [],
      mRequiredPermissionRuntime = False, mRequiredAppOp = 0, mMaxDelay = 0, mFlags = flags,
      mUuid = uuid_zero\<rparr>"

section \<open>Tubes\<close>

text \<open>
  The templates pass the size of an object on to the functions of the same name that the
  library has.
\<close>

definition BitTube_sendObjects ::
    "('tube \<Rightarrow> 'events \<Rightarrow> nat \<Rightarrow> nat \<Rightarrow> 'st \<Rightarrow> int \<times> 'st) \<Rightarrow> nat \<Rightarrow> 'tube \<Rightarrow> 'events \<Rightarrow> nat \<Rightarrow> 'st \<Rightarrow> int \<times> 'st" where
  "BitTube_sendObjects sendObjects sizeof_T tube events count = sendObjects tube events count sizeof_T"

definition BitTube_recvObjects ::
    "('tube \<Rightarrow> 'events \<Rightarrow> nat \<Rightarrow> nat \<Rightarrow> 'st \<Rightarrow> (int \<times> 'events) \<times> 'st) \<Rightarrow> nat \<Rightarrow> 'tube \<Rightarrow> 'events \<Rightarrow> nat \<Rightarrow> 'st \<Rightarrow>
     (int \<times> 'events) \<times> 'st" where
  "BitTube_recvObjects recvObjects sizeof_T tube events count = recvObjects tube events count sizeof_T"

end
