(* ===== verification/SensorManager.thy ===== *)
theory SensorManager
  imports Prelude GuiHeaders
begin

text \<open>
  The client of the sensor service in \<open>libshims/gui/SensorManager.cpp\<close>: one manager object
  per package, which connects to the service when it is first needed or has died, and
  keeps a copy of its sensors together with an array of pointers into the copy.
\<close>

section \<open>The service and the objects\<close>

definition NO_ERROR :: int where "NO_ERROR = 0"
definition NAME_NOT_FOUND :: int where "NAME_NOT_FOUND = -2"

text \<open>The sensor types a header defines and the code names; their values are a parameter.\<close>

record gui_h =
  GUI_TYPE_PROXIMITY :: int
  GUI_TYPE_SIGNIFICANT_MOTION :: int
  GUI_TYPE_TILT_DETECTOR :: int
  GUI_TYPE_WAKE_GESTURE :: int
  GUI_TYPE_GLANCE_GESTURE :: int
  GUI_TYPE_PICK_UP_GESTURE :: int
  GUI_TYPE_WRIST_TILT_GESTURE :: int

type_synonym server = nat
type_synonym package = string

text \<open>
  What the code asks of the binder library and of the sensor service, each answer by the number of
  calls made before it: the answer to a ping and of the service manager; the sensors and the
  connections a server gives; the packages of the caller, \<open>None\<close> if there is no permission
  service. Besides, the two methods of a sensor it calls; whether the allocator has room for an
  array of pointers, by the number of blocks allocated before; the constants of the header.
\<close>

record service_env =
  se_ping :: "nat \<Rightarrow> server \<Rightarrow> int"
  se_getService :: "nat \<Rightarrow> int \<times> server option"
  se_getSensorList :: "nat \<Rightarrow> server \<Rightarrow> package \<Rightarrow> gui_sensor list"
  se_getDynamicSensorList :: "nat \<Rightarrow> server \<Rightarrow> package \<Rightarrow> gui_sensor list"
  se_createConnection :: "nat \<Rightarrow> server \<Rightarrow> string \<Rightarrow> int \<Rightarrow> package \<Rightarrow> nat option"
  se_injection :: "nat \<Rightarrow> server \<Rightarrow> int"
  se_packages :: "nat \<Rightarrow> package list option"
  se_getType :: "gui_sensor \<Rightarrow> int"
  se_isWakeUpSensor :: "gui_sensor \<Rightarrow> bool"
  se_malloc :: "nat \<Rightarrow> nat \<Rightarrow> bool"
  se_h :: gui_h

text \<open>
  The sensors of the vector \<open>mSensors\<close> live in a block of their own, its storage, at the address
  \<open>mStorage\<close> (\<open>None\<close> as long as nothing was assigned; the storage of an empty vector has no
  elements to point to). A pointer to a sensor is the address of a storage and a position in it. The
  array of pointers is \<open>None\<close> for the null pointer, otherwise its address and the pointers it holds.
  \<open>mDeathObserver\<close> is the server whose death is observed.
\<close>

type_synonym sensor_pointer = "nat \<times> nat"

record sensor_manager =
  mSensorServer :: "server option"
  mSensorList :: "(nat \<times> sensor_pointer list) option"
  mSensors :: "gui_sensor list"
  mStorage :: "nat option"
  mOpPackageName :: package
  mDeathObserver :: "server option"

text \<open>
  The calls made to the binder library so far, the seconds slept, the number of blocks allocated
  (arrays and storages of vectors), whose addresses are the numbers below it, and those of them that
  are not freed.
\<close>

record binder_world =
  bw_calls :: nat
  bw_sleeps :: nat
  bw_allocs :: nat
  bw_live :: "nat list"

definition counted :: "binder_world \<Rightarrow> binder_world" where
  "counted w = w\<lparr>bw_calls := Suc (bw_calls w)\<rparr>"

text \<open>
  A call returns, or \<open>LOG_ALWAYS_FATAL_IF\<close> ends the process; following a null pointer and using or
  freeing memory that is not allocated are outcomes of this kind too.
\<close>

datatype 'a outcome = Returned 'a | Fatal string

definition allocate :: "binder_world \<Rightarrow> nat \<times> binder_world" where
  "allocate w =
     (bw_allocs w, w\<lparr>bw_allocs := Suc (bw_allocs w), bw_live := bw_allocs w # bw_live w\<rparr>)"

definition free_array :: "(nat \<times> 'a) option \<Rightarrow> binder_world \<Rightarrow> binder_world outcome" where
  "free_array p w =
     (case p of
        None \<Rightarrow> Returned w
      | Some (array, _) \<Rightarrow>
          if array \<in> set (bw_live w) then Returned (w\<lparr>bw_live := removeAll array (bw_live w)\<rparr>)
          else Fatal ''invalid free'')"

text \<open>
  A vector that is assigned to, cleared or destroyed lets go of its storage, with the sensors in it;
  no other vector shares that of a manager.
\<close>

definition release_storage :: "nat option \<Rightarrow> binder_world \<Rightarrow> binder_world" where
  "release_storage p w = w\<lparr>bw_live := filter (\<lambda>b. p \<noteq> Some b) (bw_live w)\<rparr>"

text \<open>What a pointer leads to: a sensor of the manager's vector, or nothing that may be read.\<close>

definition sensor_at :: "sensor_manager \<Rightarrow> binder_world \<Rightarrow> sensor_pointer \<Rightarrow> gui_sensor option" where
  "sensor_at m w = (\<lambda>(storage, i).
     if mStorage m = Some storage \<and> storage \<in> set (bw_live w) \<and> i < length (mSensors m)
     then Some (mSensors m ! i) else None)"

section \<open>One manager\<close>

definition new_manager :: "package \<Rightarrow> sensor_manager" where
  "new_manager opPackageName =
     \<lparr>mSensorServer = None, mSensorList = None, mSensors = [], mStorage = None,
      mOpPackageName = opPackageName, mDeathObserver = None\<rparr>"

definition sensorManagerDied :: "sensor_manager \<Rightarrow> binder_world \<Rightarrow> (sensor_manager \<times> binder_world) outcome" where
  "sensorManagerDied m w =
     (case free_array (mSensorList m) w of
        Fatal msg \<Rightarrow> Fatal msg
      | Returned w' \<Rightarrow>
          Returned (m\<lparr>mSensorServer := None, mSensorList := None, mSensors := [], mStorage := None\<rparr>,
                    release_storage (mStorage m) w'))"

text \<open>The destructor, and then that of the vector.\<close>

definition delete_SensorManager :: "sensor_manager \<Rightarrow> binder_world \<Rightarrow> binder_world outcome" where
  "delete_SensorManager m w =
     (case free_array (mSensorList m) w of
        Fatal msg \<Rightarrow> Fatal msg
      | Returned w' \<Rightarrow> Returned (release_storage (mStorage m) w'))"

text \<open>The loop of attempts: an error to return at once, or nothing; and what it did.\<close>

fun find_service :: "service_env \<Rightarrow> nat \<Rightarrow> server option \<Rightarrow> binder_world \<Rightarrow>
    int option \<times> server option \<times> binder_world" where
  "find_service env 0 s w = (None, s, w)"
| "find_service env (Suc n) s w =
     (let (err, s') = se_getService env (bw_calls w); w' = counted w
      in if err = NAME_NOT_FOUND then find_service env n s' (w'\<lparr>bw_sleeps := Suc (bw_sleeps w')\<rparr>)
         else if err \<noteq> NO_ERROR then (Some err, s', w')
         else (None, s', w'))"

definition assertStateLocked :: "service_env \<Rightarrow> sensor_manager \<Rightarrow> binder_world \<Rightarrow>
    (int \<times> sensor_manager \<times> binder_world) outcome" where
  "assertStateLocked env m w0 =
     (let (initSensorManager, w) =
        (case mSensorServer m of
           None \<Rightarrow> (True, w0)
         | Some s \<Rightarrow> (se_ping env (bw_calls w0) s \<noteq> NO_ERROR, counted w0))
      in if \<not> initSensorManager then Returned (NO_ERROR, m, w)
         else
           let (err, server, w') = find_service env 60 (mSensorServer m) w;
               m1 = m\<lparr>mSensorServer := server\<rparr>
           in case err of
                Some e \<Rightarrow> Returned (e, m1, w')
              | None \<Rightarrow>
                  (case server of
                     None \<Rightarrow> Fatal ''getService(SensorService) NULL''
                   | Some s \<Rightarrow>
                       (let sensors = se_getSensorList env (bw_calls w') s (mOpPackageName m1);
                            (storage, w1) = allocate (counted w');
                            w2 = release_storage (mStorage m1) w1;
                            count = length sensors
                        in if \<not> se_malloc env (bw_allocs w2) count then Fatal ''mSensorList NULL''
                           else
                             let (array, w3) = allocate w2
                             in Returned (NO_ERROR,
                                  m1\<lparr>mDeathObserver := Some s, mSensors := sensors,
                                     mStorage := Some storage,
                                     mSensorList := Some (array, map (Pair storage) [0..<count])\<rparr>,
                                  w3))))"

text \<open>The size, or a negative error; and the array.\<close>

definition getSensorList :: "service_env \<Rightarrow> sensor_manager \<Rightarrow> binder_world \<Rightarrow>
    ((int \<times> (nat \<times> sensor_pointer list) option) \<times> sensor_manager \<times> binder_world) outcome" where
  "getSensorList env m0 w0 =
     (case assertStateLocked env m0 w0 of
        Fatal msg \<Rightarrow> Fatal msg
      | Returned (err, m, w) \<Rightarrow>
          if err < 0 then Returned ((err, None), m, w)
          else Returned ((int (length (mSensors m)), mSensorList m), m, w))"

text \<open>The \<open>const\<close> method some blobs ask for, a symbol that forwards to the other one.\<close>

definition getSensorList_const :: "service_env \<Rightarrow> sensor_manager \<Rightarrow> binder_world \<Rightarrow>
    ((int \<times> (nat \<times> sensor_pointer list) option) \<times> sensor_manager \<times> binder_world) outcome" where
  "getSensorList_const env m w = getSensorList env m w"

definition getDynamicSensorList :: "service_env \<Rightarrow> sensor_manager \<Rightarrow> binder_world \<Rightarrow>
    ((int \<times> gui_sensor list option) \<times> sensor_manager \<times> binder_world) outcome" where
  "getDynamicSensorList env m0 w0 =
     (case assertStateLocked env m0 w0 of
        Fatal msg \<Rightarrow> Fatal msg
      | Returned (err, m, w) \<Rightarrow>
          if err < 0 then Returned ((err, None), m, w)
          else
            (case mSensorServer m of
               None \<Rightarrow> Fatal ''null pointer''
             | Some s \<Rightarrow>
                 (let dynamic = se_getDynamicSensorList env (bw_calls w) s (mOpPackageName m)
                  in Returned ((int (length dynamic), Some dynamic), m, counted w))))"

text \<open>The loop over the pointers: the first one that matches; each is followed before it is compared.\<close>

fun first_sensor :: "service_env \<Rightarrow> int \<Rightarrow> bool \<Rightarrow> (sensor_pointer \<Rightarrow> gui_sensor option) \<Rightarrow>
    sensor_pointer list \<Rightarrow> sensor_pointer option outcome" where
  "first_sensor env type wakeUp at_pointer [] = Returned None"
| "first_sensor env type wakeUp at_pointer (p # ps) =
     (case at_pointer p of
        None \<Rightarrow> Fatal ''invalid read''
      | Some x \<Rightarrow>
          if se_getType env x = type \<and> se_isWakeUpSensor env x = wakeUp then Returned (Some p)
          else first_sensor env type wakeUp at_pointer ps)"

definition wakeUpSensor :: "gui_h \<Rightarrow> int \<Rightarrow> bool" where
  "wakeUpSensor h type \<longleftrightarrow>
     type = GUI_TYPE_PROXIMITY h \<or> type = GUI_TYPE_SIGNIFICANT_MOTION h \<or>
     type = GUI_TYPE_TILT_DETECTOR h \<or> type = GUI_TYPE_WAKE_GESTURE h \<or>
     type = GUI_TYPE_GLANCE_GESTURE h \<or> type = GUI_TYPE_PICK_UP_GESTURE h \<or>
     type = GUI_TYPE_WRIST_TILT_GESTURE h"

definition getDefaultSensor :: "service_env \<Rightarrow> int \<Rightarrow> sensor_manager \<Rightarrow> binder_world \<Rightarrow>
    (sensor_pointer option \<times> sensor_manager \<times> binder_world) outcome" where
  "getDefaultSensor env type m0 w0 =
     (case assertStateLocked env m0 w0 of
        Fatal msg \<Rightarrow> Fatal msg
      | Returned (err, m, w) \<Rightarrow>
          if err = NO_ERROR then
            (case mSensorList m of
               None \<Rightarrow> if mSensors m = [] then Returned (None, m, w) else Fatal ''null pointer''
             | Some (array, ps) \<Rightarrow>
                 if mSensors m \<noteq> [] \<and> array \<notin> set (bw_live w) then Fatal ''invalid read''
                 else
                   (case first_sensor env type (wakeUpSensor (se_h env) type) (sensor_at m w)
                           (take (length (mSensors m)) ps) of
                      Fatal msg \<Rightarrow> Fatal msg
                    | Returned r \<Rightarrow> Returned (r, m, w)))
          else Returned (None, m, w))"

text \<open>The body of the loop ends with \<open>break\<close>; the queue is known by its connection.\<close>

definition createEventQueue :: "service_env \<Rightarrow> string \<Rightarrow> int \<Rightarrow> sensor_manager \<Rightarrow> binder_world \<Rightarrow>
    (nat option \<times> sensor_manager \<times> binder_world) outcome" where
  "createEventQueue env packageName mode m0 w0 =
     (case assertStateLocked env m0 w0 of
        Fatal msg \<Rightarrow> Fatal msg
      | Returned (err, m, w) \<Rightarrow>
          if err = NO_ERROR then
            (case mSensorServer m of
               None \<Rightarrow> Fatal ''null pointer''
             | Some s \<Rightarrow> Returned (se_createConnection env (bw_calls w) s packageName mode (mOpPackageName m), m, counted w))
          else Returned (None, m, w))"

text \<open>The method of older clients, without arguments.\<close>

definition packageName8 :: string where
  "packageName8 = []"

definition createEventQueue_old :: "service_env \<Rightarrow> sensor_manager \<Rightarrow> binder_world \<Rightarrow>
    (nat option \<times> sensor_manager \<times> binder_world) outcome" where
  "createEventQueue_old env m w = createEventQueue env packageName8 0 m w"

definition isDataInjectionEnabled :: "service_env \<Rightarrow> sensor_manager \<Rightarrow> binder_world \<Rightarrow>
    (bool \<times> sensor_manager \<times> binder_world) outcome" where
  "isDataInjectionEnabled env m0 w0 =
     (case assertStateLocked env m0 w0 of
        Fatal msg \<Rightarrow> Fatal msg
      | Returned (err, m, w) \<Rightarrow>
          if err = NO_ERROR then
            (case mSensorServer m of
               None \<Rightarrow> Fatal ''null pointer''
             | Some s \<Rightarrow> Returned (se_injection env (bw_calls w) s \<noteq> 0, m, counted w))
          else Returned (False, m, w))"

text \<open>The constructors; neither looks at the result of connecting.\<close>

definition SensorManager_ctor :: "service_env \<Rightarrow> package \<Rightarrow> binder_world \<Rightarrow>
    (sensor_manager \<times> binder_world) outcome" where
  "SensorManager_ctor env opPackageName w =
     (case assertStateLocked env (new_manager opPackageName) w of
        Fatal msg \<Rightarrow> Fatal msg
      | Returned (err, m, w') \<Rightarrow> Returned (m, w'))"

definition SensorManager_compat :: "service_env \<Rightarrow> binder_world \<Rightarrow> (sensor_manager \<times> binder_world) outcome" where
  "SensorManager_compat env w =
     (case assertStateLocked env (new_manager []) w of
        Fatal msg \<Rightarrow> Fatal msg
      | Returned (err, m, w') \<Rightarrow> Returned (m, w'))"

section \<open>The instances\<close>

text \<open>The objects by their address, and the static map; \<open>insert\<close> keeps a key that is there.\<close>

record manager_state =
  sPackageInstances :: "package \<rightharpoonup> nat"
  ms_objects :: "sensor_manager list"
  ms_world :: binder_world

definition insert_instance :: "package \<Rightarrow> nat \<Rightarrow> (package \<rightharpoonup> nat) \<Rightarrow> (package \<rightharpoonup> nat)" where
  "insert_instance p a instances =
     (case instances p of None \<Rightarrow> instances(p \<mapsto> a) | Some _ \<Rightarrow> instances)"

definition resolve_package :: "service_env \<Rightarrow> package \<Rightarrow> binder_world \<Rightarrow> package \<times> binder_world" where
  "resolve_package env packageName w =
     (if packageName = [] then
        (case se_packages env (bw_calls w) of
           Some (p # ps) \<Rightarrow> (p, counted w)
         | _ \<Rightarrow> (packageName, counted w))
      else (packageName, w))"

definition getInstanceForPackage :: "service_env \<Rightarrow> package \<Rightarrow> manager_state \<Rightarrow>
    (nat \<times> manager_state) outcome" where
  "getInstanceForPackage env packageName s =
     (case sPackageInstances s packageName of
        Some a \<Rightarrow> Returned (a, s)
      | None \<Rightarrow>
          (let (opPackageName, w) = resolve_package env packageName (ms_world s)
           in case SensorManager_ctor env opPackageName w of
                Fatal msg \<Rightarrow> Fatal msg
              | Returned (m, w') \<Rightarrow>
                  (let a = length (ms_objects s);
                       i1 = (if packageName = [] then insert_instance [] a (sPackageInstances s)
                             else sPackageInstances s);
                       i2 = insert_instance opPackageName a i1
                   in Returned (a, \<lparr>sPackageInstances = i2, ms_objects = ms_objects s @ [m],
                                    ms_world = w'\<rparr>))))"

definition getInstance :: "service_env \<Rightarrow> manager_state \<Rightarrow> (nat \<times> manager_state) outcome" where
  "getInstance env s = getInstanceForPackage env ''MtkCam/SensorListener'' s"

section \<open>Lemmas\<close>

text \<open>\<open>getService\<close> of the binder library: with a service no error, without one this one.\<close>

definition service_documented :: "service_env \<Rightarrow> bool" where
  "service_documented env \<longleftrightarrow>
     (\<forall>k. fst (se_getService env k) =
        (if snd (se_getService env k) = None then NAME_NOT_FOUND else NO_ERROR))"

lemma service_answer:
  assumes "service_documented env"
  shows "snd (se_getService env k) = None \<Longrightarrow> se_getService env k = (NAME_NOT_FOUND, None)"
    and "snd (se_getService env k) = Some x \<Longrightarrow> se_getService env k = (NO_ERROR, Some x)"
proof -
  have f: "fst (se_getService env k) =
      (if snd (se_getService env k) = None then NAME_NOT_FOUND else NO_ERROR)"
    using assms by (simp add: service_documented_def)
  show "snd (se_getService env k) = None \<Longrightarrow> se_getService env k = (NAME_NOT_FOUND, None)"
    "snd (se_getService env k) = Some x \<Longrightarrow> se_getService env k = (NO_ERROR, Some x)"
    using f by (simp_all add: prod_eq_iff)
qed

text \<open>One attempt.\<close>

lemma find_service_Suc:
  assumes "service_documented env"
  shows "snd (se_getService env (bw_calls w)) = None \<Longrightarrow> find_service env (Suc n) s w =
      find_service env n None (w\<lparr>bw_calls := Suc (bw_calls w), bw_sleeps := Suc (bw_sleeps w)\<rparr>)"
    and "snd (se_getService env (bw_calls w)) = Some x \<Longrightarrow>
      find_service env (Suc n) s w = (None, Some x, w\<lparr>bw_calls := Suc (bw_calls w)\<rparr>)"
  using service_answer [OF assms, of "bw_calls w"]
  by (simp_all add: counted_def NO_ERROR_def NAME_NOT_FOUND_def)

lemma find_service_none:
  assumes "service_documented env" "\<forall>i < n. snd (se_getService env (bw_calls w + i)) = None"
  shows "find_service env n s w =
    (None, if n = 0 then s else None,
     w\<lparr>bw_calls := bw_calls w + n, bw_sleeps := bw_sleeps w + n\<rparr>)"
  using assms(2)
proof (induction n arbitrary: s w)
  case (Suc n)
  let ?w = "w\<lparr>bw_calls := Suc (bw_calls w), bw_sleeps := Suc (bw_sleeps w)\<rparr>"
  have "snd (se_getService env (bw_calls w)) = None" using Suc.prems by (metis add_0_right zero_less_Suc)
  moreover have "\<forall>i < n. snd (se_getService env (bw_calls ?w + i)) = None"
    using Suc.prems by fastforce
  ultimately show ?case
    using Suc.IH [of ?w None] find_service_Suc(1) [OF assms(1)] by simp
qed simp

lemma find_service_some:
  assumes "service_documented env" "\<forall>i < j. snd (se_getService env (bw_calls w + i)) = None"
    and "j < n" "snd (se_getService env (bw_calls w + j)) = Some x"
  shows "find_service env n s w =
    (None, Some x, w\<lparr>bw_calls := bw_calls w + Suc j, bw_sleeps := bw_sleeps w + j\<rparr>)"
  using assms(2-4)
proof (induction j arbitrary: s w n)
  case 0
  then show ?case using find_service_Suc(2) [OF assms(1)] by (cases n) simp_all
next
  case (Suc j)
  then obtain n' where n: "n = Suc n'" "j < n'" by (cases n) auto
  let ?w = "w\<lparr>bw_calls := Suc (bw_calls w), bw_sleeps := Suc (bw_sleeps w)\<rparr>"
  have "snd (se_getService env (bw_calls w)) = None" using Suc.prems(1) by (metis add_0_right zero_less_Suc)
  moreover have "\<forall>i < j. snd (se_getService env (bw_calls ?w + i)) = None"
    using Suc.prems(1) by fastforce
  moreover have "snd (se_getService env (bw_calls ?w + j)) = Some x"
    using Suc.prems(3) by simp
  ultimately show ?case
    using Suc.IH [of ?w n' None] n find_service_Suc(1) [OF assms(1)] by simp
qed

text \<open>A manager that has a server has its sensors, and the array points to all of them.\<close>

definition connected :: "sensor_manager \<Rightarrow> bool" where
  "connected m \<longleftrightarrow>
     mSensorServer m \<noteq> None \<and> mDeathObserver m = mSensorServer m \<and>
     (\<exists>storage. mStorage m = Some storage \<and>
        map_option snd (mSensorList m) = Some (map (Pair storage) [0..<length (mSensors m)]))"

definition manager_ok :: "sensor_manager \<Rightarrow> bool" where
  "manager_ok m \<longleftrightarrow> mSensorServer m = None \<or> connected m"

lemma manager_ok_new: "manager_ok (new_manager p)"
  by (simp add: manager_ok_def new_manager_def)

lemma manager_ok_died: "sensorManagerDied m w = Returned (m', w') \<Longrightarrow> manager_ok m'"
  by (auto simp: manager_ok_def sensorManagerDied_def split: outcome.splits)

text \<open>The world in which the search for the service begins, if there is one.\<close>

definition needs_service :: "service_env \<Rightarrow> sensor_manager \<Rightarrow> binder_world \<Rightarrow> bool" where
  "needs_service env m w \<longleftrightarrow>
     (case mSensorServer m of None \<Rightarrow> True | Some s \<Rightarrow> se_ping env (bw_calls w) s \<noteq> NO_ERROR)"

definition search_world :: "sensor_manager \<Rightarrow> binder_world \<Rightarrow> binder_world" where
  "search_world m w = (if mSensorServer m = None then w else counted w)"

lemma search_world_simps [simp]:
  "bw_sleeps (search_world m w) = bw_sleeps w" "bw_allocs (search_world m w) = bw_allocs w"
  "bw_live (search_world m w) = bw_live w"
  by (simp_all add: search_world_def counted_def)

text \<open>
  The answer to the attempt with number \<open>i\<close>, the first attempt that is answered with a server, and the
  sensors this server then has.
\<close>

definition answer_at :: "service_env \<Rightarrow> sensor_manager \<Rightarrow> binder_world \<Rightarrow> nat \<Rightarrow> server option" where
  "answer_at env m w i = snd (se_getService env (bw_calls (search_world m w) + i))"

definition first_answer :: "service_env \<Rightarrow> sensor_manager \<Rightarrow> binder_world \<Rightarrow> nat \<Rightarrow> server \<Rightarrow> bool" where
  "first_answer env m w j s \<longleftrightarrow>
     j < 60 \<and> answer_at env m w j = Some s \<and> (\<forall>i < j. answer_at env m w i = None)"

definition sensors_then :: "service_env \<Rightarrow> sensor_manager \<Rightarrow> binder_world \<Rightarrow> nat \<Rightarrow> server \<Rightarrow> gui_sensor list" where
  "sensors_then env m w j s =
     se_getSensorList env (bw_calls (search_world m w) + Suc j) s (mOpPackageName m)"

lemma assertStateLocked_cases:
  assumes "service_documented env" and v_def: "v = search_world m w"
  shows "(\<not> needs_service env m w \<and> assertStateLocked env m w = Returned (NO_ERROR, m, v)) \<or>
    (needs_service env m w \<and> (\<forall>i < 60. snd (se_getService env (bw_calls v + i)) = None) \<and>
     assertStateLocked env m w = Fatal ''getService(SensorService) NULL'') \<or>
    (\<exists>j s. needs_service env m w \<and> j < 60 \<and>
       (\<forall>i < j. snd (se_getService env (bw_calls v + i)) = None) \<and>
       snd (se_getService env (bw_calls v + j)) = Some s \<and>
       assertStateLocked env m w =
         (let sensors = se_getSensorList env (bw_calls v + Suc j) s (mOpPackageName m)
          in if se_malloc env (Suc (bw_allocs v)) (length sensors) then
               Returned (NO_ERROR,
                 m\<lparr>mSensorServer := Some s, mDeathObserver := Some s, mSensors := sensors,
                   mStorage := Some (bw_allocs v),
                   mSensorList := Some (Suc (bw_allocs v), map (Pair (bw_allocs v)) [0..<length sensors])\<rparr>,
                 v\<lparr>bw_calls := bw_calls v + Suc (Suc j), bw_sleeps := bw_sleeps v + j,
                   bw_allocs := Suc (Suc (bw_allocs v)),
                   bw_live := Suc (bw_allocs v) #
                     filter (\<lambda>b. mStorage m \<noteq> Some b) (bw_allocs v # bw_live v)\<rparr>)
             else Fatal ''mSensorList NULL''))"
proof (cases "needs_service env m w")
  case False
  then show ?thesis
    by (auto simp: assertStateLocked_def needs_service_def v_def search_world_def Let_def
        split: option.splits)
next
  case needs: True
  have state: "assertStateLocked env m w =
      (let (err, server, w') = find_service env 60 (mSensorServer m) v; m1 = m\<lparr>mSensorServer := server\<rparr>
       in case err of
            Some e \<Rightarrow> Returned (e, m1, w')
          | None \<Rightarrow>
              (case server of
                 None \<Rightarrow> Fatal ''getService(SensorService) NULL''
               | Some s \<Rightarrow>
                   (let sensors = se_getSensorList env (bw_calls w') s (mOpPackageName m1);
                        (storage, w1) = allocate (counted w');
                        w2 = release_storage (mStorage m1) w1;
                        count = length sensors
                    in if \<not> se_malloc env (bw_allocs w2) count then Fatal ''mSensorList NULL''
                       else
                         let (array, w3) = allocate w2
                         in Returned (NO_ERROR,
                              m1\<lparr>mDeathObserver := Some s, mSensors := sensors, mStorage := Some storage,
                                 mSensorList := Some (array, map (Pair storage) [0..<count])\<rparr>, w3))))"
    using needs unfolding assertStateLocked_def needs_service_def v_def search_world_def
    by (cases "mSensorServer m") (simp_all add: Let_def)
  show ?thesis
  proof (cases "\<forall>i < 60. snd (se_getService env (bw_calls v + i)) = None")
    case True
    with needs state find_service_none [OF assms(1) this] show ?thesis by simp
  next
    case False
    define j where "j = (LEAST i. snd (se_getService env (bw_calls v + i)) \<noteq> None)"
    obtain i where i: "i < 60" "snd (se_getService env (bw_calls v + i)) \<noteq> None" using False by blast
    have first: "\<forall>i < j. snd (se_getService env (bw_calls v + i)) = None"
      using not_less_Least unfolding j_def by blast
    have "snd (se_getService env (bw_calls v + j)) \<noteq> None" unfolding j_def by (rule LeastI) (rule i(2))
    then obtain s where s: "snd (se_getService env (bw_calls v + j)) = Some s" by blast
    have "j \<le> i" unfolding j_def by (rule Least_le) (rule i(2))
    then have "j < 60" using i(1) by simp
    with state find_service_some [OF assms(1) first this s] needs first s \<open>j < 60\<close> show ?thesis
      by (intro disjI2 exI [of _ j] exI [of _ s]) (simp add: Let_def allocate_def release_storage_def counted_def)
  qed
qed

lemma assertStateLocked_ok:
  assumes "service_documented env" "manager_ok m" "assertStateLocked env m w = Returned (err, m', w')"
  shows "err = NO_ERROR \<and> connected m' \<and> mOpPackageName m' = mOpPackageName m"
proof -
  have "connected m" if "\<not> needs_service env m w"
    using assms(2) that by (auto simp: manager_ok_def needs_service_def)
  with assertStateLocked_cases [OF assms(1) refl, of m w] assms(3) show ?thesis
    by (auto simp: connected_def Let_def split: if_splits)
qed

text \<open>
  The memory of a manager: no address is live that was not allocated, and the manager's array and
  its storage are live and apart.
\<close>

definition memory_ok :: "sensor_manager \<Rightarrow> binder_world \<Rightarrow> bool" where
  "memory_ok m w \<longleftrightarrow>
     (\<forall>a \<in> set (bw_live w). a < bw_allocs w) \<and>
     (\<forall>a ps. mSensorList m = Some (a, ps) \<longrightarrow> a \<in> set (bw_live w) \<and> mStorage m \<noteq> Some a) \<and>
     (\<forall>st. mStorage m = Some st \<longrightarrow> st \<in> set (bw_live w))"

lemma memory_ok_counted [simp]: "memory_ok m (counted w) = memory_ok m w"
  by (simp add: memory_ok_def counted_def)

lemma memory_ok_new: "\<forall>a \<in> set (bw_live w). a < bw_allocs w \<Longrightarrow> memory_ok (new_manager p) w"
  by (simp add: memory_ok_def new_manager_def)

text \<open>
  What connecting does to the memory: nothing if the server is alive; otherwise the manager gets a
  new array and a new storage and its old storage is freed, but not its old array.
\<close>

definition memory_step :: "service_env \<Rightarrow> sensor_manager \<Rightarrow> binder_world \<Rightarrow> sensor_manager \<Rightarrow> binder_world \<Rightarrow> bool" where
  "memory_step env m w m' w' \<longleftrightarrow>
     (if needs_service env m w then
        (\<exists>st a ps. mStorage m' = Some st \<and> mSensorList m' = Some (a, ps) \<and>
           bw_allocs w \<le> st \<and> bw_allocs w \<le> a \<and> bw_allocs w \<le> bw_allocs w' \<and>
           set (bw_live w') = set (bw_live w) - set_option (mStorage m) \<union> {st, a})
      else m' = m \<and> bw_live w' = bw_live w \<and> bw_allocs w' = bw_allocs w)"

lemma assertStateLocked_memory:
  assumes "service_documented env" "memory_ok m w" "assertStateLocked env m w = Returned (err, m', w')"
  shows "memory_ok m' w' \<and> memory_step env m w m' w'"
proof -
  have "st < bw_allocs w" if "mStorage m = Some st" for st
    using assms(2) that by (simp add: memory_ok_def)
  then have old: "mStorage m \<noteq> Some (bw_allocs w)" "mStorage m \<noteq> Some (Suc (bw_allocs w))"
    by fastforce+
  from assertStateLocked_cases [OF assms(1) refl, of m w]
  show ?thesis
  proof (elim disjE conjE exE)
    assume "\<not> needs_service env m w" "assertStateLocked env m w = Returned (NO_ERROR, m, search_world m w)"
    with assms(2,3) show ?thesis by (auto simp: memory_ok_def memory_step_def)
  next
    fix j s
    assume "needs_service env m w" and "assertStateLocked env m w =
       (let sensors = se_getSensorList env (bw_calls (search_world m w) + Suc j) s (mOpPackageName m)
        in if se_malloc env (Suc (bw_allocs (search_world m w))) (length sensors) then
             Returned (NO_ERROR,
               m\<lparr>mSensorServer := Some s, mDeathObserver := Some s, mSensors := sensors,
                 mStorage := Some (bw_allocs (search_world m w)),
                 mSensorList := Some (Suc (bw_allocs (search_world m w)),
                   map (Pair (bw_allocs (search_world m w))) [0..<length sensors])\<rparr>,
               (search_world m w)\<lparr>bw_calls := bw_calls (search_world m w) + Suc (Suc j),
                 bw_sleeps := bw_sleeps (search_world m w) + j,
                 bw_allocs := Suc (Suc (bw_allocs (search_world m w))),
                 bw_live := Suc (bw_allocs (search_world m w)) #
                   filter (\<lambda>b. mStorage m \<noteq> Some b) (bw_allocs (search_world m w) # bw_live (search_world m w))\<rparr>)
           else Fatal ''mSensorList NULL'')"
    with assms(3) have m': "mStorage m' = Some (bw_allocs w) \<and> (\<exists>ps. mSensorList m' = Some (Suc (bw_allocs w), ps)) \<and>
        bw_allocs w' = Suc (Suc (bw_allocs w)) \<and>
        set (bw_live w') = set (bw_live w) - set_option (mStorage m) \<union> {bw_allocs w, Suc (bw_allocs w)}"
      using old by (auto simp: Let_def split: if_splits)
    have "a < Suc (Suc (bw_allocs w))" if "a \<in> set (bw_live w)" for a
      using assms(2) that by (auto simp: memory_ok_def intro: less_SucI)
    with m' \<open>needs_service env m w\<close> show ?thesis by (auto simp: memory_ok_def memory_step_def)
  qed (use assms(3) in simp)
qed

lemma sensorManagerDied_result:
  assumes "memory_ok m w"
  shows "\<exists>w'. sensorManagerDied m w =
      Returned (m\<lparr>mSensorServer := None, mSensorList := None, mSensors := [], mStorage := None\<rparr>, w') \<and>
    bw_calls w' = bw_calls w \<and> bw_sleeps w' = bw_sleeps w \<and> bw_allocs w' = bw_allocs w \<and>
    set (bw_live w') = set (bw_live w) - fst ` set_option (mSensorList m) - set_option (mStorage m)"
  using assms
  by (auto simp: sensorManagerDied_def free_array_def release_storage_def memory_ok_def split: option.splits)

lemma delete_returns: "memory_ok m w \<Longrightarrow> \<exists>w'. delete_SensorManager m w = Returned w'"
  by (auto simp: delete_SensorManager_def free_array_def memory_ok_def split: option.splits)

text \<open>The search through the pointers of a connected manager finds the first sensor that fits.\<close>

definition default_of :: "service_env \<Rightarrow> int \<Rightarrow> gui_sensor list \<Rightarrow> nat option" where
  "default_of env type sensors =
     find (\<lambda>i. se_getType env (sensors ! i) = type \<and>
               se_isWakeUpSensor env (sensors ! i) = wakeUpSensor (se_h env) type) [0..<length sensors]"

lemma first_sensor_find:
  assumes "\<forall>i \<in> set is. at_pointer (st, i) = Some (sensors ! i)"
  shows "first_sensor env type wake at_pointer (map (Pair st) is) =
     Returned (map_option (Pair st)
       (find (\<lambda>i. se_getType env (sensors ! i) = type \<and> se_isWakeUpSensor env (sensors ! i) = wake) is))"
  using assms by (induction "is") simp_all

lemma getDefaultSensor_connected:
  assumes "assertStateLocked env m w = Returned (NO_ERROR, m', w')" "connected m'" "memory_ok m' w'"
    and "mStorage m' = Some st"
  shows "getDefaultSensor env type m w =
    Returned (map_option (Pair st) (default_of env type (mSensors m')), m', w')"
proof -
  obtain array where a: "mSensorList m' = Some (array, map (Pair st) [0..<length (mSensors m')])"
    using assms(2,4) by (auto simp: connected_def)
  have live: "array \<in> set (bw_live w')" "st \<in> set (bw_live w')"
    using assms(3,4) a by (auto simp: memory_ok_def)
  then have "\<forall>i \<in> set [0..<length (mSensors m')]. sensor_at m' w' (st, i) = Some (mSensors m' ! i)"
    using assms(4) by (simp add: sensor_at_def)
  note first_sensor_find [OF this, of env type "wakeUpSensor (se_h env) type"]
  then show ?thesis
    using live by (simp add: getDefaultSensor_def assms(1) a default_of_def)
qed

section \<open>Properties\<close>

text \<open>An environment in which the service comes up at the third attempt.\<close>

definition demo_service :: service_env where
  "demo_service =
     \<lparr>se_ping = (\<lambda>k s. 0),
      se_getService = (\<lambda>k. if k < 2 then (NAME_NOT_FOUND, None) else (NO_ERROR, Some 7)),
      se_getSensorList = (\<lambda>k s p. [sample_sensor 1 8 0, sample_sensor 2 8 1, sample_sensor 3 1 0]),
      se_getDynamicSensorList = (\<lambda>k s p. []), se_createConnection = (\<lambda>k s q m p. Some k),
      se_injection = (\<lambda>k s. 0), se_packages = (\<lambda>k. Some [''com.camera'']),
      se_getType = mType, se_isWakeUpSensor = (\<lambda>x. odd (mFlags x)), se_malloc = (\<lambda>k n. n < 1000),
      se_h = \<lparr>GUI_TYPE_PROXIMITY = 8, GUI_TYPE_SIGNIFICANT_MOTION = 17, GUI_TYPE_TILT_DETECTOR = 22,
               GUI_TYPE_WAKE_GESTURE = 23, GUI_TYPE_GLANCE_GESTURE = 24,
               GUI_TYPE_PICK_UP_GESTURE = 25, GUI_TYPE_WRIST_TILT_GESTURE = 26\<rparr>\<rparr>"

definition demo_binder :: binder_world where
  "demo_binder = \<lparr>bw_calls = 0, bw_sleeps = 0, bw_allocs = 0, bw_live = []\<rparr>"

lemma demo_documented: "service_documented demo_service"
  by (simp add: service_documented_def demo_service_def)

text \<open>
  C31. Connecting is bounded and all or nothing. Let \<open>getService\<close> be as documented. If the server
  answers a ping, asserting the state changes nothing. Otherwise it asks for the service until it
  gets one, with a sleep of a second after each failure, and after the first success in 60 attempts
  it asks this server for its sensors: the manager then has the server, observes its death, and has its
  sensors and an array that points to each of them in order. The process ends exactly if 60
  attempts in a row, and as many seconds, find no service, or if there is no memory for that array.
\<close>

theorem connecting_is_bounded:
  assumes "service_documented env" "manager_ok m"
  shows "case assertStateLocked env m w of
      Returned (err, m', w') \<Rightarrow>
        err = NO_ERROR \<and> connected m' \<and>
        (if \<not> needs_service env m w then m' = m \<and> w' = search_world m w
         else \<exists>j s. first_answer env m w j s \<and> mSensorServer m' = Some s \<and>
           mSensors m' = sensors_then env m w j s \<and>
           bw_sleeps w' = bw_sleeps w + j \<and> bw_calls w' = bw_calls (search_world m w) + j + 2 \<and>
           se_malloc env (Suc (bw_allocs w)) (length (sensors_then env m w j s)))
    | Fatal msg \<Rightarrow>
        needs_service env m w \<and>
        (msg = ''getService(SensorService) NULL'' \<and> (\<forall>i < 60. answer_at env m w i = None) \<and>
           bw_sleeps (snd (snd (find_service env 60 (mSensorServer m) (search_world m w)))) =
             bw_sleeps w + 60 \<or>
         msg = ''mSensorList NULL'' \<and>
           (\<exists>j s. first_answer env m w j s \<and>
              \<not> se_malloc env (Suc (bw_allocs w)) (length (sensors_then env m w j s))))"
proof -
  have kept: "connected m" if "\<not> needs_service env m w"
    using assms(2) that by (auto simp: manager_ok_def needs_service_def)
  from assertStateLocked_cases [OF assms(1) refl, of m w] show ?thesis
  proof (elim disjE conjE exE)
    assume "\<not> needs_service env m w" "assertStateLocked env m w = Returned (NO_ERROR, m, search_world m w)"
    with kept show ?thesis by simp
  next
    assume "needs_service env m w" "assertStateLocked env m w = Fatal ''getService(SensorService) NULL''"
      "\<forall>i < 60. snd (se_getService env (bw_calls (search_world m w) + i)) = None"
    with find_service_none [OF assms(1) this(3)] show ?thesis by (simp add: answer_at_def)
  next
    fix j s
    assume "j < 60" "\<forall>i < j. snd (se_getService env (bw_calls (search_world m w) + i)) = None"
      "snd (se_getService env (bw_calls (search_world m w) + j)) = Some s"
    then have "first_answer env m w j s" by (simp add: first_answer_def answer_at_def)
    moreover assume "needs_service env m w" "assertStateLocked env m w =
       (let sensors = se_getSensorList env (bw_calls (search_world m w) + Suc j) s (mOpPackageName m)
        in if se_malloc env (Suc (bw_allocs (search_world m w))) (length sensors) then
             Returned (NO_ERROR,
               m\<lparr>mSensorServer := Some s, mDeathObserver := Some s, mSensors := sensors,
                 mStorage := Some (bw_allocs (search_world m w)),
                 mSensorList := Some (Suc (bw_allocs (search_world m w)),
                   map (Pair (bw_allocs (search_world m w))) [0..<length sensors])\<rparr>,
               (search_world m w)\<lparr>bw_calls := bw_calls (search_world m w) + Suc (Suc j),
                 bw_sleeps := bw_sleeps (search_world m w) + j,
                 bw_allocs := Suc (Suc (bw_allocs (search_world m w))),
                 bw_live := Suc (bw_allocs (search_world m w)) #
                   filter (\<lambda>b. mStorage m \<noteq> Some b) (bw_allocs (search_world m w) # bw_live (search_world m w))\<rparr>)
           else Fatal ''mSensorList NULL'')"
    ultimately show ?thesis by (auto simp: Let_def connected_def sensors_then_def)
  qed
qed

theorem connecting_is_bounded_witness:
  "\<exists>m' w'. assertStateLocked demo_service (new_manager ''p'') demo_binder = Returned (NO_ERROR, m', w') \<and>
     connected m' \<and> mSensorServer m' = Some 7 \<and> bw_sleeps w' = 2"
proof -
  have "\<exists>m' w'. assertStateLocked demo_service (new_manager ''p'') demo_binder = Returned (NO_ERROR, m', w')"
    by (simp add: assertStateLocked_def new_manager_def demo_service_def demo_binder_def sample_sensor_def
        counted_def allocate_def release_storage_def Let_def numeral_eq_Suc NAME_NOT_FOUND_def NO_ERROR_def)
  then obtain m' w' where
    r: "assertStateLocked demo_service (new_manager ''p'') demo_binder = Returned (NO_ERROR, m', w')"
    by blast
  have at: "answer_at demo_service (new_manager ''p'') demo_binder i = (if i < 2 then None else Some 7)" for i
    by (simp add: answer_at_def search_world_def new_manager_def demo_binder_def demo_service_def)
  have "needs_service demo_service (new_manager ''p'') demo_binder"
    by (simp add: needs_service_def new_manager_def)
  with connecting_is_bounded [OF demo_documented manager_ok_new, of "''p''" demo_binder] r
  obtain j s where j: "first_answer demo_service (new_manager ''p'') demo_binder j s" "connected m'"
    "mSensorServer m' = Some s" "bw_sleeps w' = j"
    by (auto simp: demo_binder_def)
  from j(1) have "j = 2 \<and> s = 7"
    by (auto simp: first_answer_def at split: if_splits)
  with j r show ?thesis by simp
qed

text \<open>
  The default sensor of a type is the first sensor of the manager's list that has the
  type and is a wake-up sensor exactly if the type is one of the seven that are by default;
  there is none only if no sensor is like that.
\<close>

theorem default_sensor_is_the_first:
  assumes "service_documented env" "manager_ok m" "memory_ok m w"
    and "getDefaultSensor env type m w = Returned (r, m', w')"
  defines "fits \<equiv> \<lambda>i. se_getType env (mSensors m' ! i) = type \<and>
    se_isWakeUpSensor env (mSensors m' ! i) = wakeUpSensor (se_h env) type"
  shows "case r of
      Some (st, p) \<Rightarrow> mStorage m' = Some st \<and> p < length (mSensors m') \<and> fits p \<and> (\<forall>i < p. \<not> fits i)
    | None \<Rightarrow> (\<forall>i < length (mSensors m'). \<not> fits i)"
proof -
  obtain err v where a: "assertStateLocked env m w = Returned (err, m', v)"
    using assms(4)
    by (auto simp: getDefaultSensor_def split: outcome.splits if_splits option.splits)
  have c: "err = NO_ERROR" "connected m'" "memory_ok m' v"
    using assertStateLocked_ok [OF assms(1,2) a] assertStateLocked_memory [OF assms(1,3) a] by simp_all
  from c(2) obtain st where st: "mStorage m' = Some st" by (auto simp: connected_def)
  have "r = map_option (Pair st) (find fits [0..<length (mSensors m')])"
    using getDefaultSensor_connected [OF a [unfolded c(1)] c(2,3) st, of type] assms(4)
    by (simp add: default_of_def fits_def)
  then show ?thesis
    using st by (cases "find fits [0..<length (mSensors m')]") (auto simp: find_None_iff find_Some_iff)
qed

text \<open>
  C33. There is one manager per package. Once a call has returned the manager of a package,
  the next call for it returns the same one and changes nothing, also after a call for any
  other package in between. A call adds at most one manager, and never replaces or moves
  one that is there.
\<close>

theorem one_manager_per_package:
  assumes "getInstanceForPackage env p s = Returned (a, s1)"
  shows "getInstanceForPackage env p s1 = Returned (a, s1) \<and>
    (\<forall>q b. sPackageInstances s q = Some b \<longrightarrow> sPackageInstances s1 q = Some b) \<and>
    (\<exists>new. ms_objects s1 = ms_objects s @ new \<and> length new \<le> 1) \<and>
    (\<forall>env' q b s2. getInstanceForPackage env' q s1 = Returned (b, s2) \<longrightarrow>
       getInstanceForPackage env p s2 = Returned (a, s2))"
proof -
  have keeps: "sPackageInstances v2 q = Some b"
    if "getInstanceForPackage env' p' v1 = Returned (c, v2)" "sPackageInstances v1 q = Some b"
    for env' p' v1 c v2 q b
    using that
    by (auto simp: getInstanceForPackage_def SensorManager_ctor_def insert_instance_def Let_def
        split: option.splits prod.splits outcome.splits if_splits)
  have there: "sPackageInstances s1 p = Some a"
    using assms
    by (auto simp: getInstanceForPackage_def SensorManager_ctor_def insert_instance_def resolve_package_def Let_def
        split: option.splits prod.splits outcome.splits if_splits list.splits)
  have again: "getInstanceForPackage env p v = Returned (a, v)" if "sPackageInstances v p = Some a" for v
    using that by (simp add: getInstanceForPackage_def)
  have "\<exists>new. ms_objects s1 = ms_objects s @ new \<and> length new \<le> 1"
    using assms
    by (auto simp: getInstanceForPackage_def SensorManager_ctor_def Let_def
        split: option.splits prod.splits outcome.splits if_splits)
  with keeps [OF assms] keeps [OF _ there] there again show ?thesis by auto
qed

theorem one_manager_per_package_witness:
  "\<exists>a s1. getInstance demo_service \<lparr>sPackageInstances = Map.empty, ms_objects = [], ms_world = demo_binder\<rparr> =
       Returned (a, s1) \<and>
     getInstanceForPackage demo_service ''MtkCam/SensorListener'' s1 = Returned (a, s1)"
proof -
  have "\<exists>a s1. getInstanceForPackage demo_service ''MtkCam/SensorListener''
      \<lparr>sPackageInstances = Map.empty, ms_objects = [], ms_world = demo_binder\<rparr> = Returned (a, s1)"
    by (simp add: getInstanceForPackage_def SensorManager_ctor_def resolve_package_def assertStateLocked_def new_manager_def
        demo_service_def demo_binder_def sample_sensor_def counted_def allocate_def release_storage_def Let_def numeral_eq_Suc NAME_NOT_FOUND_def NO_ERROR_def)
  then obtain a s1 where r: "getInstanceForPackage demo_service ''MtkCam/SensorListener''
      \<lparr>sPackageInstances = Map.empty, ms_objects = [], ms_world = demo_binder\<rparr> = Returned (a, s1)"
    by blast
  from one_manager_per_package [OF r] r show ?thesis by (auto simp: getInstance_def)
qed

end
