(* ===== verification/SensorServer.thy ===== *)
theory SensorServer
  imports SensorManager
begin

text \<open>
  The calls of the sensor service over binder, \<open>libshims/gui/ISensorServer.cpp\<close>: the proxy
  \<open>BpSensorServer\<close> writes the arguments of a call into a parcel and reads its result from another,
  the stub \<open>BnSensorServer\<close> reads the arguments, calls the server and writes the result.
\<close>

section \<open>Parcels\<close>

text \<open>
  Parcels belong to the binder library. Their operations are a parameter, and so are the stub of
  the base class, the first transaction code and a sensor as it is constructed. A connection is a
  number, or \<open>None\<close> for null.
\<close>

record 'p parcel_ops =
  p_new :: 'p
  p_writeInterfaceToken :: "string \<Rightarrow> 'p \<Rightarrow> 'p"
  p_checkInterface :: "string \<Rightarrow> 'p \<Rightarrow> bool \<times> 'p"
  p_writeString16 :: "string \<Rightarrow> 'p \<Rightarrow> 'p"
  p_readString16 :: "'p \<Rightarrow> string \<times> 'p"
  p_writeString8 :: "string \<Rightarrow> 'p \<Rightarrow> 'p"
  p_readString8 :: "'p \<Rightarrow> string \<times> 'p"
  p_writeInt32 :: "int \<Rightarrow> 'p \<Rightarrow> 'p"
  p_readInt32 :: "'p \<Rightarrow> int \<times> 'p"
  p_writeUint32 :: "int \<Rightarrow> 'p \<Rightarrow> 'p"
  p_readUint32 :: "'p \<Rightarrow> int \<times> 'p"
  p_writeSensor :: "gui_sensor \<Rightarrow> 'p \<Rightarrow> 'p"
  p_readSensor :: "gui_sensor \<Rightarrow> 'p \<Rightarrow> gui_sensor \<times> 'p"
  p_writeStrongBinder :: "nat option \<Rightarrow> 'p \<Rightarrow> 'p"
  p_readStrongBinder :: "'p \<Rightarrow> nat option \<times> 'p"
  p_setDataPosition0 :: "'p \<Rightarrow> 'p"
  BBinder_onTransact :: "int \<Rightarrow> 'p \<Rightarrow> 'p \<Rightarrow> int \<times> 'p"
  FIRST_CALL_TRANSACTION :: int
  new_Sensor :: gui_sensor

definition PERMISSION_DENIED :: int where
  "PERMISSION_DENIED = - 1"

definition GET_SENSOR_LIST :: "'p parcel_ops \<Rightarrow> int" where
  "GET_SENSOR_LIST P = FIRST_CALL_TRANSACTION P"

definition CREATE_SENSOR_EVENT_CONNECTION :: "'p parcel_ops \<Rightarrow> int" where
  "CREATE_SENSOR_EVENT_CONNECTION P = FIRST_CALL_TRANSACTION P + 1"

definition ENABLE_DATA_INJECTION :: "'p parcel_ops \<Rightarrow> int" where
  "ENABLE_DATA_INJECTION P = FIRST_CALL_TRANSACTION P + 2"

definition GET_DYNAMIC_SENSOR_LIST :: "'p parcel_ops \<Rightarrow> int" where
  "GET_DYNAMIC_SENSOR_LIST P = FIRST_CALL_TRANSACTION P + 3"

definition interfaceDescriptor :: string where
  "interfaceDescriptor = ''android.gui.SensorServer''"

text \<open>The interface: a server with a state of its own.\<close>

record 'st sensor_server =
  ss_getSensorList :: "string \<Rightarrow> 'st \<Rightarrow> gui_sensor list \<times> 'st"
  ss_getDynamicSensorList :: "string \<Rightarrow> 'st \<Rightarrow> gui_sensor list \<times> 'st"
  ss_createSensorEventConnection :: "string \<Rightarrow> int \<Rightarrow> string \<Rightarrow> 'st \<Rightarrow> nat option \<times> 'st"
  ss_isDataInjectionEnabled :: "'st \<Rightarrow> int \<times> 'st"

text \<open>\<open>remote()->transact\<close>: the status, the reply, and the state of the server.\<close>

type_synonym ('p, 'st) transact = "int \<Rightarrow> 'p \<Rightarrow> 'p \<Rightarrow> 'st \<Rightarrow> (int \<times> 'p) \<times> 'st"

section \<open>The proxy\<close>

text \<open>The loop over \<open>n\<close>; a read that fails leaves the sensor as the read before left it.\<close>

fun read_sensors :: "'p parcel_ops \<Rightarrow> nat \<Rightarrow> gui_sensor \<Rightarrow> gui_sensor list \<Rightarrow> 'p \<Rightarrow> gui_sensor list" where
  "read_sensors P 0 s v reply = v"
| "read_sensors P (Suc n) s v reply =
     (let (s', reply') = p_readSensor P s reply in read_sensors P n s' (v @ [s']) reply')"

definition Bp_getSensorList :: "'p parcel_ops \<Rightarrow> ('p, 'st) transact \<Rightarrow> string \<Rightarrow> 'st \<Rightarrow>
    gui_sensor list \<times> 'st" where
  "Bp_getSensorList P remote opPackageName st =
     (let data = p_writeInterfaceToken P interfaceDescriptor (p_new P);
          data = p_writeString16 P opPackageName data;
          ((status, reply), st) = remote (GET_SENSOR_LIST P) data (p_new P) st;
          (n, reply) = p_readUint32 P reply
      in (read_sensors P (nat n) (new_Sensor P) [] reply, st))"

definition Bp_getDynamicSensorList :: "'p parcel_ops \<Rightarrow> ('p, 'st) transact \<Rightarrow> string \<Rightarrow> 'st \<Rightarrow>
    gui_sensor list \<times> 'st" where
  "Bp_getDynamicSensorList P remote opPackageName st =
     (let data = p_writeInterfaceToken P interfaceDescriptor (p_new P);
          data = p_writeString16 P opPackageName data;
          ((status, reply), st) = remote (GET_DYNAMIC_SENSOR_LIST P) data (p_new P) st;
          (n, reply) = p_readUint32 P reply
      in (read_sensors P (nat n) (new_Sensor P) [] reply, st))"

definition Bp_createSensorEventConnection :: "'p parcel_ops \<Rightarrow> ('p, 'st) transact \<Rightarrow> string \<Rightarrow> int \<Rightarrow>
    string \<Rightarrow> 'st \<Rightarrow> nat option \<times> 'st" where
  "Bp_createSensorEventConnection P remote packageName mode opPackageName st =
     (let data = p_writeInterfaceToken P interfaceDescriptor (p_new P);
          data = p_writeString8 P packageName data;
          data = p_writeInt32 P mode data;
          data = p_writeString16 P opPackageName data;
          ((status, reply), st) = remote (CREATE_SENSOR_EVENT_CONNECTION P) data (p_new P) st
      in (fst (p_readStrongBinder P reply), st))"

definition Bp_isDataInjectionEnabled :: "'p parcel_ops \<Rightarrow> ('p, 'st) transact \<Rightarrow> 'st \<Rightarrow> int \<times> 'st" where
  "Bp_isDataInjectionEnabled P remote st =
     (let data = p_writeInterfaceToken P interfaceDescriptor (p_new P);
          ((status, reply), st) = remote (ENABLE_DATA_INJECTION P) data (p_new P) st
      in (fst (p_readInt32 P reply), st))"

section \<open>The stub\<close>

text \<open>The number of sensors is cast to 32 bits, then every sensor of the vector is written.\<close>

definition write_sensors :: "'p parcel_ops \<Rightarrow> gui_sensor list \<Rightarrow> 'p \<Rightarrow> 'p" where
  "write_sensors P v reply =
     fold (p_writeSensor P) v (p_writeUint32 P (to_uint32 (int (length v))) reply)"

text \<open>\<open>CHECK_INTERFACE\<close> is the early return in the four cases.\<close>

definition onTransact :: "'p parcel_ops \<Rightarrow> 'st sensor_server \<Rightarrow> int \<Rightarrow> 'p \<Rightarrow> 'p \<Rightarrow> 'st \<Rightarrow> (int \<times> 'p) \<times> 'st" where
  "onTransact P S code data reply st =
     (if code = GET_SENSOR_LIST P then
        let (ok, data) = p_checkInterface P interfaceDescriptor data
        in if \<not> ok then ((PERMISSION_DENIED, reply), st)
           else
             let (opPackageName, data) = p_readString16 P data;
                 (v, st) = ss_getSensorList S opPackageName st
             in ((NO_ERROR, write_sensors P v reply), st)
      else if code = CREATE_SENSOR_EVENT_CONNECTION P then
        let (ok, data) = p_checkInterface P interfaceDescriptor data
        in if \<not> ok then ((PERMISSION_DENIED, reply), st)
           else
             let (packageName, data) = p_readString8 P data;
                 (mode, data) = p_readInt32 P data;
                 (opPackageName, data) = p_readString16 P data;
                 (connection, st) = ss_createSensorEventConnection S packageName mode opPackageName st
             in ((NO_ERROR, p_writeStrongBinder P connection reply), st)
      else if code = ENABLE_DATA_INJECTION P then
        let (ok, data) = p_checkInterface P interfaceDescriptor data
        in if \<not> ok then ((PERMISSION_DENIED, reply), st)
           else
             let (ret, st) = ss_isDataInjectionEnabled S st
             in ((NO_ERROR, p_writeInt32 P ret reply), st)
      else if code = GET_DYNAMIC_SENSOR_LIST P then
        let (ok, data) = p_checkInterface P interfaceDescriptor data
        in if \<not> ok then ((PERMISSION_DENIED, reply), st)
           else
             let (opPackageName, data) = p_readString16 P data;
                 (v, st) = ss_getDynamicSensorList S opPackageName st
             in ((NO_ERROR, write_sensors P v reply), st)
      else (BBinder_onTransact P code data reply, st))"

text \<open>\<open>BBinder::transact\<close> rewinds the parcel it is given and the reply it gives back.\<close>

definition local_transact :: "'p parcel_ops \<Rightarrow> 'st sensor_server \<Rightarrow> ('p, 'st) transact" where
  "local_transact P S code data reply st =
     (let ((status, reply), st) = onTransact P S code (p_setDataPosition0 P data) reply st
      in ((status, p_setDataPosition0 P reply), st))"

section \<open>What a parcel promises\<close>

datatype item =
    Token string
  | Str16 string
  | Str8 string
  | Int32 int
  | UInt32 int
  | Sens gui_sensor
  | Strong "nat option"

text \<open>
  The items written into a parcel are kept in their order, and from its beginning they are read
  in that order, by the reader of their kind. A token compares equal to the same name only. Where
  nothing is left to read, a number is zero and a binder null.
\<close>

definition parcel_laws :: "'p parcel_ops \<Rightarrow> ('p \<Rightarrow> item list) \<Rightarrow> ('p \<Rightarrow> item list) \<Rightarrow> bool" where
  "parcel_laws P written unread \<longleftrightarrow>
     written (p_new P) = [] \<and> unread (p_new P) = [] \<and>
     (\<forall>p. unread p = [] \<longrightarrow> fst (p_readUint32 P p) = 0 \<and> fst (p_readInt32 P p) = 0 \<and>
        fst (p_readStrongBinder P p) = None) \<and>
     (\<forall>p. unread (p_setDataPosition0 P p) = written p) \<and>
     (\<forall>p x. written (p_writeInterfaceToken P x p) = written p @ [Token x]) \<and>
     (\<forall>p x. written (p_writeString16 P x p) = written p @ [Str16 x]) \<and>
     (\<forall>p x. written (p_writeString8 P x p) = written p @ [Str8 x]) \<and>
     (\<forall>p x. int32_range x \<longrightarrow> written (p_writeInt32 P x p) = written p @ [Int32 x]) \<and>
     (\<forall>p x. 0 \<le> x \<and> x < 4294967296 \<longrightarrow> written (p_writeUint32 P x p) = written p @ [UInt32 x]) \<and>
     (\<forall>p x. written (p_writeSensor P x p) = written p @ [Sens x]) \<and>
     (\<forall>p x. written (p_writeStrongBinder P x p) = written p @ [Strong x]) \<and>
     (\<forall>p x y rest. unread p = Token x # rest \<longrightarrow> (\<exists>p'. p_checkInterface P y p = (x = y, p') \<and> unread p' = rest)) \<and>
     (\<forall>p x rest. unread p = Str16 x # rest \<longrightarrow> (\<exists>p'. p_readString16 P p = (x, p') \<and> unread p' = rest)) \<and>
     (\<forall>p x rest. unread p = Str8 x # rest \<longrightarrow> (\<exists>p'. p_readString8 P p = (x, p') \<and> unread p' = rest)) \<and>
     (\<forall>p x rest. unread p = Int32 x # rest \<longrightarrow> (\<exists>p'. p_readInt32 P p = (x, p') \<and> unread p' = rest)) \<and>
     (\<forall>p x rest. unread p = UInt32 x # rest \<longrightarrow> (\<exists>p'. p_readUint32 P p = (x, p') \<and> unread p' = rest)) \<and>
     (\<forall>p x s rest. unread p = Sens x # rest \<longrightarrow> (\<exists>p'. p_readSensor P s p = (x, p') \<and> unread p' = rest)) \<and>
     (\<forall>p x rest. unread p = Strong x # rest \<longrightarrow> (\<exists>p'. p_readStrongBinder P p = (x, p') \<and> unread p' = rest))"

lemma written_laws:
  assumes "parcel_laws P written unread"
  shows "written (p_new P) = []" "unread (p_setDataPosition0 P p) = written p"
    "written (p_writeInterfaceToken P x p) = written p @ [Token x]"
    "written (p_writeString16 P x p) = written p @ [Str16 x]"
    "written (p_writeString8 P x p) = written p @ [Str8 x]"
    "int32_range i \<Longrightarrow> written (p_writeInt32 P i p) = written p @ [Int32 i]"
    "0 \<le> i \<Longrightarrow> i < 4294967296 \<Longrightarrow> written (p_writeUint32 P i p) = written p @ [UInt32 i]"
    "written (p_writeSensor P s p) = written p @ [Sens s]"
    "written (p_writeStrongBinder P b p) = written p @ [Strong b]"
  using assms unfolding parcel_laws_def by simp_all

lemma nothing_to_read:
  assumes "parcel_laws P written unread"
  shows "fst (p_readUint32 P (p_new P)) = 0" "fst (p_readInt32 P (p_new P)) = 0"
    "fst (p_readStrongBinder P (p_new P)) = None"
  using assms unfolding parcel_laws_def by simp_all

lemma unread_laws:
  assumes "parcel_laws P written unread"
  shows "unread p = Token x # rest \<Longrightarrow> \<exists>p'. p_checkInterface P y p = (x = y, p') \<and> unread p' = rest"
    "unread p = Str16 x # rest \<Longrightarrow> \<exists>p'. p_readString16 P p = (x, p') \<and> unread p' = rest"
    "unread p = Str8 x # rest \<Longrightarrow> \<exists>p'. p_readString8 P p = (x, p') \<and> unread p' = rest"
    "unread p = Int32 i # rest \<Longrightarrow> \<exists>p'. p_readInt32 P p = (i, p') \<and> unread p' = rest"
    "unread p = UInt32 i # rest \<Longrightarrow> \<exists>p'. p_readUint32 P p = (i, p') \<and> unread p' = rest"
    "unread p = Sens t # rest \<Longrightarrow> \<exists>p'. p_readSensor P s p = (t, p') \<and> unread p' = rest"
    "unread p = Strong b # rest \<Longrightarrow> \<exists>p'. p_readStrongBinder P p = (b, p') \<and> unread p' = rest"
  using assms unfolding parcel_laws_def by simp_all

section \<open>Lemmas\<close>

lemma to_uint32_id: "0 \<le> x \<Longrightarrow> x < 4294967296 \<Longrightarrow> to_uint32 x = x"
  by (simp add: to_uint32_def)

lemma written_sensors:
  assumes "parcel_laws P written unread"
  shows "written (fold (p_writeSensor P) v p) = written p @ map Sens v"
  by (induction v arbitrary: p) (simp_all add: written_laws [OF assms])

lemma write_sensors_written:
  assumes "parcel_laws P written unread" "length v < 4294967296"
  shows "written (write_sensors P v p) = written p @ UInt32 (int (length v)) # map Sens v"
  using assms(2) by (simp add: write_sensors_def written_sensors [OF assms(1)] written_laws [OF assms(1)] to_uint32_id)

lemma read_sensors_unread:
  assumes "parcel_laws P written unread" "unread p = map Sens w @ rest"
  shows "read_sensors P (length w) s v p = v @ w"
  using assms(2)
proof (induction w arbitrary: s v p)
  case (Cons t w)
  then obtain p' where "p_readSensor P s p = (t, p')" "unread p' = map Sens w @ rest"
    using unread_laws(6) [OF assms(1), of p t "map Sens w @ rest" s] by auto
  with Cons.IH show ?case by simp
qed simp

lemma codes_differ:
  "GET_SENSOR_LIST P \<noteq> CREATE_SENSOR_EVENT_CONNECTION P" "GET_SENSOR_LIST P \<noteq> ENABLE_DATA_INJECTION P"
  "GET_SENSOR_LIST P \<noteq> GET_DYNAMIC_SENSOR_LIST P" "CREATE_SENSOR_EVENT_CONNECTION P \<noteq> ENABLE_DATA_INJECTION P"
  "CREATE_SENSOR_EVENT_CONNECTION P \<noteq> GET_DYNAMIC_SENSOR_LIST P" "ENABLE_DATA_INJECTION P \<noteq> GET_DYNAMIC_SENSOR_LIST P"
  by (simp_all add: GET_SENSOR_LIST_def CREATE_SENSOR_EVENT_CONNECTION_def ENABLE_DATA_INJECTION_def
      GET_DYNAMIC_SENSOR_LIST_def)

text \<open>A receiver of the parcel that \<open>data\<close> was sent as.\<close>

lemma received:
  assumes "parcel_laws P written unread" "written data = Token interfaceDescriptor # rest"
  shows "\<exists>p. p_checkInterface P interfaceDescriptor (p_setDataPosition0 P data) = (True, p) \<and> unread p = rest"
  using unread_laws(1) [OF assms(1), of "p_setDataPosition0 P data" interfaceDescriptor rest interfaceDescriptor]
    assms(2) written_laws(2) [OF assms(1)]
  by simp

lemma list_reply:
  assumes laws: "parcel_laws P written unread" and "length v < 4294967296"
  shows "(case p_readUint32 P (p_setDataPosition0 P (write_sensors P v (p_new P))) of (n, reply) \<Rightarrow>
      read_sensors P (nat n) s [] reply) = v"
proof -
  have "unread (p_setDataPosition0 P (write_sensors P v (p_new P))) = UInt32 (int (length v)) # map Sens v"
    by (simp add: written_laws [OF laws] write_sensors_written [OF assms])
  then obtain p where "p_readUint32 P (p_setDataPosition0 P (write_sensors P v (p_new P))) = (int (length v), p)"
    "unread p = map Sens v"
    using unread_laws(5) [OF laws] by blast
  then show ?thesis using read_sensors_unread [OF laws, of p v "[]" s "[]"] by simp
qed

lemma sensor_list_round_trip:
  assumes laws: "parcel_laws P written unread" and len: "length (fst (ss_getSensorList S pkg st)) < 4294967296"
  shows "Bp_getSensorList P (local_transact P S) pkg st = ss_getSensorList S pkg st"
proof -
  let ?data = "p_writeString16 P pkg (p_writeInterfaceToken P interfaceDescriptor (p_new P))"
  obtain v st' where v: "ss_getSensorList S pkg st = (v, st')" by (cases "ss_getSensorList S pkg st")
  obtain d1 where d1: "p_checkInterface P interfaceDescriptor (p_setDataPosition0 P ?data) = (True, d1)"
    "unread d1 = [Str16 pkg]"
    using received [OF laws, of ?data "[Str16 pkg]"] by (auto simp: written_laws [OF laws])
  then obtain d2 where "p_readString16 P d1 = (pkg, d2)" using unread_laws(2) [OF laws] by blast
  with d1 v list_reply [OF laws, of v "new_Sensor P"] len show ?thesis
    by (simp add: Bp_getSensorList_def local_transact_def onTransact_def split: prod.splits)
qed

lemma dynamic_sensor_list_round_trip:
  assumes laws: "parcel_laws P written unread" and
    len: "length (fst (ss_getDynamicSensorList S pkg st)) < 4294967296"
  shows "Bp_getDynamicSensorList P (local_transact P S) pkg st = ss_getDynamicSensorList S pkg st"
proof -
  let ?data = "p_writeString16 P pkg (p_writeInterfaceToken P interfaceDescriptor (p_new P))"
  obtain v st' where v: "ss_getDynamicSensorList S pkg st = (v, st')"
    by (cases "ss_getDynamicSensorList S pkg st")
  obtain d1 where d1: "p_checkInterface P interfaceDescriptor (p_setDataPosition0 P ?data) = (True, d1)"
    "unread d1 = [Str16 pkg]"
    using received [OF laws, of ?data "[Str16 pkg]"] by (auto simp: written_laws [OF laws])
  then obtain d2 where "p_readString16 P d1 = (pkg, d2)" using unread_laws(2) [OF laws] by blast
  with d1 v list_reply [OF laws, of v "new_Sensor P"] len codes_differ [of P] show ?thesis
    by (simp add: Bp_getDynamicSensorList_def local_transact_def onTransact_def split: prod.splits)
qed

lemma connection_round_trip:
  assumes laws: "parcel_laws P written unread" and mode: "int32_range mode"
  shows "Bp_createSensorEventConnection P (local_transact P S) name mode pkg st =
    ss_createSensorEventConnection S name mode pkg st"
proof -
  let ?data = "p_writeString16 P pkg (p_writeInt32 P mode (p_writeString8 P name
    (p_writeInterfaceToken P interfaceDescriptor (p_new P))))"
  obtain c st' where c: "ss_createSensorEventConnection S name mode pkg st = (c, st')"
    by (cases "ss_createSensorEventConnection S name mode pkg st")
  obtain d1 where d1: "p_checkInterface P interfaceDescriptor (p_setDataPosition0 P ?data) = (True, d1)"
    "unread d1 = [Str8 name, Int32 mode, Str16 pkg]"
    using received [OF laws, of ?data "[Str8 name, Int32 mode, Str16 pkg]"] mode
    by (auto simp: written_laws [OF laws])
  then obtain d2 where d2: "p_readString8 P d1 = (name, d2)" "unread d2 = [Int32 mode, Str16 pkg]"
    using unread_laws(3) [OF laws] by blast
  then obtain d3 where d3: "p_readInt32 P d2 = (mode, d3)" "unread d3 = [Str16 pkg]"
    using unread_laws(4) [OF laws] by blast
  then obtain d4 where "p_readString16 P d3 = (pkg, d4)" using unread_laws(2) [OF laws] by blast
  moreover have "unread (p_setDataPosition0 P (p_writeStrongBinder P c (p_new P))) = [Strong c]"
    by (simp add: written_laws [OF laws])
  then have "fst (p_readStrongBinder P (p_setDataPosition0 P (p_writeStrongBinder P c (p_new P)))) = c"
    using unread_laws(7) [OF laws] by fastforce
  ultimately show ?thesis using d1 d2 d3 c codes_differ [of P]
    by (simp add: Bp_createSensorEventConnection_def local_transact_def onTransact_def)
qed

lemma injection_round_trip:
  assumes laws: "parcel_laws P written unread" and ret: "int32_range (fst (ss_isDataInjectionEnabled S st))"
  shows "Bp_isDataInjectionEnabled P (local_transact P S) st = ss_isDataInjectionEnabled S st"
proof -
  let ?data = "p_writeInterfaceToken P interfaceDescriptor (p_new P)"
  obtain r st' where r: "ss_isDataInjectionEnabled S st = (r, st')" by (cases "ss_isDataInjectionEnabled S st")
  obtain d1 where d1: "p_checkInterface P interfaceDescriptor (p_setDataPosition0 P ?data) = (True, d1)"
    using received [OF laws, of ?data "[]"] by (auto simp: written_laws [OF laws])
  have "unread (p_setDataPosition0 P (p_writeInt32 P r (p_new P))) = [Int32 r]"
    using ret r by (simp add: written_laws [OF laws])
  then have "fst (p_readInt32 P (p_setDataPosition0 P (p_writeInt32 P r (p_new P)))) = r"
    using unread_laws(4) [OF laws] by fastforce
  then show ?thesis using d1 r codes_differ [of P]
    by (simp add: Bp_isDataInjectionEnabled_def local_transact_def onTransact_def)
qed

text \<open>Calls of another interface are refused, other codes are the base class's.\<close>

definition server_codes :: "'p parcel_ops \<Rightarrow> int set" where
  "server_codes P =
     {GET_SENSOR_LIST P, CREATE_SENSOR_EVENT_CONNECTION P, ENABLE_DATA_INJECTION P, GET_DYNAMIC_SENSOR_LIST P}"

lemma foreign_call_refused:
  assumes "parcel_laws P written unread" "unread data = Token x # rest" "x \<noteq> interfaceDescriptor"
    "code \<in> server_codes P"
  shows "onTransact P S code data reply st = ((PERMISSION_DENIED, reply), st)"
proof -
  obtain d where "p_checkInterface P interfaceDescriptor data = (False, d)"
    using unread_laws(1) [OF assms(1,2), of interfaceDescriptor] assms(3) by auto
  then show ?thesis using assms(4) by (auto simp: onTransact_def server_codes_def)
qed

lemma other_codes:
  "code \<notin> server_codes P \<Longrightarrow> onTransact P S code data reply st = (BBinder_onTransact P code data reply, st)"
  by (simp add: onTransact_def server_codes_def)

text \<open>
  A transaction that fails, to a server that has died, leaves the reply as it was. The proxy does not
  look at the status: the lists are empty, there is no connection, and the number is zero.
\<close>

definition dead_transact :: "int \<Rightarrow> ('p, 'st) transact" where
  "dead_transact err code data reply st = ((err, reply), st)"

lemma dead_server:
  assumes "parcel_laws P written unread"
  shows "Bp_getSensorList P (dead_transact err) pkg st = ([], st)"
    "Bp_getDynamicSensorList P (dead_transact err) pkg st = ([], st)"
    "Bp_createSensorEventConnection P (dead_transact err) name mode pkg st = (None, st)"
    "Bp_isDataInjectionEnabled P (dead_transact err) st = (0, st)"
  using nothing_to_read [OF assms]
  by (auto simp: Bp_getSensorList_def Bp_getDynamicSensorList_def Bp_createSensorEventConnection_def
      Bp_isDataInjectionEnabled_def dead_transact_def split: prod.splits)

section \<open>The manager over the proxies\<close>

text \<open>
  The servers of a manager's environment, each behind a proxy and a stub, or behind a transaction
  that fails if it is dead at the time of the call.
\<close>

definition server_of :: "service_env \<Rightarrow> nat \<Rightarrow> server \<Rightarrow> unit sensor_server" where
  "server_of env k s =
     \<lparr>ss_getSensorList = (\<lambda>pkg st. (se_getSensorList env k s pkg, st)),
      ss_getDynamicSensorList = (\<lambda>pkg st. (se_getDynamicSensorList env k s pkg, st)),
      ss_createSensorEventConnection = (\<lambda>name mode pkg st. (se_createConnection env k s name mode pkg, st)),
      ss_isDataInjectionEnabled = (\<lambda>st. (se_injection env k s, st))\<rparr>"

definition transact_of :: "'p parcel_ops \<Rightarrow> service_env \<Rightarrow> (nat \<Rightarrow> server \<Rightarrow> int option) \<Rightarrow> nat \<Rightarrow> server \<Rightarrow>
    ('p, unit) transact" where
  "transact_of P env dead k s =
     (case dead k s of None \<Rightarrow> local_transact P (server_of env k s) | Some err \<Rightarrow> dead_transact err)"

definition proxied :: "'p parcel_ops \<Rightarrow> (nat \<Rightarrow> server \<Rightarrow> int option) \<Rightarrow> service_env \<Rightarrow> service_env" where
  "proxied P dead env = env\<lparr>
     se_getSensorList := (\<lambda>k s pkg. fst (Bp_getSensorList P (transact_of P env dead k s) pkg ())),
     se_getDynamicSensorList := (\<lambda>k s pkg. fst (Bp_getDynamicSensorList P (transact_of P env dead k s) pkg ())),
     se_createConnection := (\<lambda>k s name mode pkg.
       fst (Bp_createSensorEventConnection P (transact_of P env dead k s) name mode pkg ())),
     se_injection := (\<lambda>k s. fst (Bp_isDataInjectionEnabled P (transact_of P env dead k s) ()))\<rparr>"

definition answers_fit :: "service_env \<Rightarrow> bool" where
  "answers_fit env \<longleftrightarrow>
     (\<forall>k s pkg. length (se_getSensorList env k s pkg) < 4294967296 \<and>
        length (se_getDynamicSensorList env k s pkg) < 4294967296) \<and>
     (\<forall>k s. int32_range (se_injection env k s))"

text \<open>What a server answers, and what a dead one does.\<close>

definition alive_or :: "'a \<Rightarrow> int option \<Rightarrow> 'a \<Rightarrow> 'a" where
  "alive_or x dead y = (case dead of None \<Rightarrow> y | Some err \<Rightarrow> x)"

lemma proxied_answers:
  assumes "parcel_laws P written unread" "answers_fit env"
  shows "se_getSensorList (proxied P dead env) k s pkg =
      alive_or [] (dead k s) (se_getSensorList env k s pkg)"
    "se_getDynamicSensorList (proxied P dead env) k s pkg =
      alive_or [] (dead k s) (se_getDynamicSensorList env k s pkg)"
    "int32_range mode \<Longrightarrow> se_createConnection (proxied P dead env) k s name mode pkg =
      alive_or None (dead k s) (se_createConnection env k s name mode pkg)"
    "se_injection (proxied P dead env) k s = alive_or 0 (dead k s) (se_injection env k s)"
  using sensor_list_round_trip [OF assms(1), of "server_of env k s" pkg "()"]
    dynamic_sensor_list_round_trip [OF assms(1), of "server_of env k s" pkg "()"]
    connection_round_trip [OF assms(1), of mode "server_of env k s" name pkg "()"]
    injection_round_trip [OF assms(1), of "server_of env k s" "()"] assms(2)
  by (auto simp: proxied_def transact_of_def alive_or_def server_of_def answers_fit_def
      dead_server [OF assms(1)] split: option.split)

section \<open>Properties\<close>

text \<open>
  C40. Marshalling round trip. Through the proxy, a parcel, the stub and the reply, each of the
  four calls of the sensor service calls the server once with its arguments and returns the
  server's result, with every sensor of a list in its place, as long as the numbers fit the widths
  they are written with. A call that names another interface is refused and does not reach the
  server, and neither does a code that is none of the four. If the transaction fails, because the
  server has died, there are no sensors, no connection and no injection. So every answer the sensor
  manager gets over the proxies of its servers is the server's own, or one of these.
\<close>

theorem sensor_service_round_trip:
  assumes "parcel_laws P written unread"
  shows "(length (fst (ss_getSensorList S pkg st)) < 4294967296 \<longrightarrow>
      Bp_getSensorList P (local_transact P S) pkg st = ss_getSensorList S pkg st) \<and>
    (length (fst (ss_getDynamicSensorList S pkg st)) < 4294967296 \<longrightarrow>
      Bp_getDynamicSensorList P (local_transact P S) pkg st = ss_getDynamicSensorList S pkg st) \<and>
    (int32_range mode \<longrightarrow>
      Bp_createSensorEventConnection P (local_transact P S) name mode pkg st =
        ss_createSensorEventConnection S name mode pkg st) \<and>
    (int32_range (fst (ss_isDataInjectionEnabled S st)) \<longrightarrow>
      Bp_isDataInjectionEnabled P (local_transact P S) st = ss_isDataInjectionEnabled S st) \<and>
    (\<forall>x rest. unread data = Token x # rest \<and> x \<noteq> interfaceDescriptor \<and> code \<in> server_codes P \<longrightarrow>
      onTransact P S code data reply st = ((PERMISSION_DENIED, reply), st)) \<and>
    (code \<notin> server_codes P \<longrightarrow> onTransact P S code data reply st = (BBinder_onTransact P code data reply, st)) \<and>
    Bp_getSensorList P (dead_transact err) pkg st = ([], st) \<and>
    Bp_getDynamicSensorList P (dead_transact err) pkg st = ([], st) \<and>
    Bp_createSensorEventConnection P (dead_transact err) name mode pkg st = (None, st) \<and>
    Bp_isDataInjectionEnabled P (dead_transact err) st = (0, st) \<and>
    (answers_fit env \<longrightarrow>
      se_getSensorList (proxied P dead env) k s pkg = alive_or [] (dead k s) (se_getSensorList env k s pkg) \<and>
      se_getDynamicSensorList (proxied P dead env) k s pkg =
        alive_or [] (dead k s) (se_getDynamicSensorList env k s pkg) \<and>
      (int32_range mode \<longrightarrow> se_createConnection (proxied P dead env) k s name mode pkg =
        alive_or None (dead k s) (se_createConnection env k s name mode pkg)) \<and>
      se_injection (proxied P dead env) k s = alive_or 0 (dead k s) (se_injection env k s))"
  using sensor_list_round_trip [OF assms, of S pkg st] dynamic_sensor_list_round_trip [OF assms, of S pkg st]
    connection_round_trip [OF assms, of mode S name pkg st] injection_round_trip [OF assms, of S st]
    foreign_call_refused [OF assms, of data _ _ code S reply st] other_codes [of code P S data reply st]
    dead_server(1,2) [OF assms, of err pkg st] dead_server(3) [OF assms, of err name mode pkg st]
    dead_server(4) [OF assms, of err st] proxied_answers [OF assms, of env]
  by blast

text \<open>A parcel as the lists of the items written and not yet read.\<close>

definition list_parcel :: "(item list \<times> item list) parcel_ops" where
  "list_parcel =
     \<lparr>p_new = ([], []),
      p_writeInterfaceToken = (\<lambda>x (w, u). (w @ [Token x], [])),
      p_checkInterface = (\<lambda>y (w, u). case u of Token x # rest \<Rightarrow> (x = y, (w, rest)) | _ \<Rightarrow> (False, (w, u))),
      p_writeString16 = (\<lambda>x (w, u). (w @ [Str16 x], [])),
      p_readString16 = (\<lambda>(w, u). case u of Str16 x # rest \<Rightarrow> (x, (w, rest)) | _ \<Rightarrow> ([], (w, u))),
      p_writeString8 = (\<lambda>x (w, u). (w @ [Str8 x], [])),
      p_readString8 = (\<lambda>(w, u). case u of Str8 x # rest \<Rightarrow> (x, (w, rest)) | _ \<Rightarrow> ([], (w, u))),
      p_writeInt32 = (\<lambda>x (w, u). (w @ [Int32 x], [])),
      p_readInt32 = (\<lambda>(w, u). case u of Int32 x # rest \<Rightarrow> (x, (w, rest)) | _ \<Rightarrow> (0, (w, u))),
      p_writeUint32 = (\<lambda>x (w, u). (w @ [UInt32 x], [])),
      p_readUint32 = (\<lambda>(w, u). case u of UInt32 x # rest \<Rightarrow> (x, (w, rest)) | _ \<Rightarrow> (0, (w, u))),
      p_writeSensor = (\<lambda>x (w, u). (w @ [Sens x], [])),
      p_readSensor = (\<lambda>s (w, u). case u of Sens x # rest \<Rightarrow> (x, (w, rest)) | _ \<Rightarrow> (s, (w, u))),
      p_writeStrongBinder = (\<lambda>x (w, u). (w @ [Strong x], [])),
      p_readStrongBinder = (\<lambda>(w, u). case u of Strong x # rest \<Rightarrow> (x, (w, rest)) | _ \<Rightarrow> (None, (w, u))),
      p_setDataPosition0 = (\<lambda>(w, u). (w, w)),
      BBinder_onTransact = (\<lambda>code data reply. (- 38, reply)),
      FIRST_CALL_TRANSACTION = 1,
      new_Sensor = sample_sensor 0 0 0\<rparr>"

lemma list_parcel_laws: "parcel_laws list_parcel fst snd"
  by (simp add: parcel_laws_def list_parcel_def split: prod.splits)

definition demo_server :: "nat sensor_server" where
  "demo_server =
     \<lparr>ss_getSensorList = (\<lambda>pkg st. ([sample_sensor 1 1 0,
        sample_sensor 2 8 1], Suc st)),
      ss_getDynamicSensorList = (\<lambda>pkg st. ([], Suc st)),
      ss_createSensorEventConnection = (\<lambda>name mode pkg st. (Some st, Suc st)),
      ss_isDataInjectionEnabled = (\<lambda>st. (0, Suc st))\<rparr>"

theorem sensor_service_round_trip_witness:
  "Bp_getSensorList list_parcel (local_transact list_parcel demo_server) ''app'' 5 =
     ([sample_sensor 1 1 0, sample_sensor 2 8 1], 6) \<and>
   Bp_createSensorEventConnection list_parcel (local_transact list_parcel demo_server) ''app'' (- 1) ''app'' 5 =
     (Some 5, 6)"
  using sensor_service_round_trip [OF list_parcel_laws, of demo_server "''app''" 5 "- 1" "''app''"]
  by (simp add: demo_server_def int32_range_def INT32_MIN_def INT32_MAX_def)

end
