(* ===== verification/ManagerRuns.thy ===== *)
theory ManagerRuns
  imports SensorServer
begin

text \<open>
  A client's use of one sensor manager of \<open>libshims/gui/SensorManager.cpp\<close>: any sequence of its
  calls, between which the service may die and come up again. Every call holds the mutex of the
  manager from its beginning to its end, and so does the notice of a death, which makes
  them steps of one sequence.
\<close>

section \<open>Calls\<close>

datatype manager_call =
    ListSensors
  | ListSensorsConst
  | ListDynamicSensors
  | DefaultSensor int
  | NewEventQueue string int
  | OldEventQueue
  | DataInjection
  | ServiceDied

datatype manager_answer =
    SensorArray "int \<times> (nat \<times> sensor_pointer list) option"
  | DynamicSensors "int \<times> gui_sensor list option"
  | OneSensor "sensor_pointer option"
  | Connection "nat option"
  | Injection bool
  | NoAnswer

text \<open>The answer of an operation, in one type.\<close>

definition answered :: "('a \<Rightarrow> manager_answer) \<Rightarrow> ('a \<times> sensor_manager \<times> binder_world) outcome \<Rightarrow>
    (manager_answer \<times> sensor_manager \<times> binder_world) outcome" where
  "answered f r =
     (case r of Fatal msg \<Rightarrow> Fatal msg | Returned (a, m, w) \<Rightarrow> Returned (f a, m, w))"

fun manager_step :: "service_env \<Rightarrow> manager_call \<Rightarrow> sensor_manager \<Rightarrow> binder_world \<Rightarrow>
    (manager_answer \<times> sensor_manager \<times> binder_world) outcome" where
  "manager_step env ListSensors m w = answered SensorArray (getSensorList env m w)"
| "manager_step env ListSensorsConst m w = answered SensorArray (getSensorList_const env m w)"
| "manager_step env ListDynamicSensors m w = answered DynamicSensors (getDynamicSensorList env m w)"
| "manager_step env (DefaultSensor type) m w = answered OneSensor (getDefaultSensor env type m w)"
| "manager_step env (NewEventQueue name mode) m w = answered Connection (createEventQueue env name mode m w)"
| "manager_step env OldEventQueue m w = answered Connection (createEventQueue_old env m w)"
| "manager_step env DataInjection m w = answered Injection (isDataInjectionEnabled env m w)"
| "manager_step env ServiceDied m w =
     (case sensorManagerDied m w of
        Fatal msg \<Rightarrow> Fatal msg
      | Returned (m', w') \<Rightarrow> Returned (NoAnswer, m', w'))"

text \<open>A run gives each answer together with the manager and the world as the call left them.\<close>

record call_record =
  cr_answer :: manager_answer
  cr_manager :: sensor_manager
  cr_world :: binder_world

fun manager_run :: "service_env \<Rightarrow> manager_call list \<Rightarrow> sensor_manager \<Rightarrow> binder_world \<Rightarrow>
    (call_record list \<times> sensor_manager \<times> binder_world) outcome" where
  "manager_run env [] m w = Returned ([], m, w)"
| "manager_run env (call # calls) m w =
     (case manager_step env call m w of
        Fatal msg \<Rightarrow> Fatal msg
      | Returned (a, m1, w1) \<Rightarrow>
          (case manager_run env calls m1 w1 of
             Fatal msg \<Rightarrow> Fatal msg
           | Returned (rs, m', w') \<Rightarrow>
               Returned (\<lparr>cr_answer = a, cr_manager = m1, cr_world = w1\<rparr> # rs, m', w')))"

text \<open>The manager and the world before the call at a position of a run.\<close>

definition manager_before :: "sensor_manager \<Rightarrow> call_record list \<Rightarrow> nat \<Rightarrow> sensor_manager" where
  "manager_before m rs i = (if i = 0 then m else cr_manager (rs ! (i - 1)))"

definition world_before :: "binder_world \<Rightarrow> call_record list \<Rightarrow> nat \<Rightarrow> binder_world" where
  "world_before w rs i = (if i = 0 then w else cr_world (rs ! (i - 1)))"

lemma before_simps [simp]:
  "manager_before m rs 0 = m" "world_before w rs 0 = w"
  "manager_before m rs (Suc i) = cr_manager (rs ! i)" "world_before w rs (Suc i) = cr_world (rs ! i)"
  by (simp_all add: manager_before_def world_before_def)

lemma before_Cons:
  "manager_before m (r # rs) (Suc i) = manager_before (cr_manager r) rs i"
  "world_before w (r # rs) (Suc i) = world_before (cr_world r) rs i"
  by (cases i; simp)+

lemma manager_run_steps:
  assumes "manager_run env calls m w = Returned (rs, m', w')"
  shows "length rs = length calls" "m' = manager_before m rs (length calls)"
    "w' = world_before w rs (length calls)"
    "i < length calls \<Longrightarrow> manager_step env (calls ! i) (manager_before m rs i) (world_before w rs i) =
       Returned (cr_answer (rs ! i), cr_manager (rs ! i), cr_world (rs ! i))"
proof -
  have "length rs = length calls \<and> m' = manager_before m rs (length calls) \<and>
      w' = world_before w rs (length calls) \<and>
      (\<forall>i < length calls. manager_step env (calls ! i) (manager_before m rs i) (world_before w rs i) =
         Returned (cr_answer (rs ! i), cr_manager (rs ! i), cr_world (rs ! i)))"
    using assms
  proof (induction calls arbitrary: m w rs)
    case (Cons call calls)
    then obtain a m1 w1 rs1 where s: "manager_step env call m w = Returned (a, m1, w1)"
      "manager_run env calls m1 w1 = Returned (rs1, m', w')"
      "rs = \<lparr>cr_answer = a, cr_manager = m1, cr_world = w1\<rparr> # rs1"
      by (auto split: outcome.splits prod.splits)
    show ?case
      using Cons.IH [OF s(2)] s(1) by (auto simp: s(3) before_Cons nth_Cons split: nat.split)
  qed simp
  then show "length rs = length calls" "m' = manager_before m rs (length calls)"
    "w' = world_before w rs (length calls)"
    "i < length calls \<Longrightarrow> manager_step env (calls ! i) (manager_before m rs i) (world_before w rs i) =
       Returned (cr_answer (rs ! i), cr_manager (rs ! i), cr_world (rs ! i))"
    by blast+
qed

section \<open>What a call promises\<close>

text \<open>
  A manager without a server and without sensors, or connected to a server and with the sensors
  it gave.
\<close>

definition synced :: "service_env \<Rightarrow> sensor_manager \<Rightarrow> bool" where
  "synced env m \<longleftrightarrow>
     (case mSensorServer m of
        None \<Rightarrow> mSensorList m = None \<and> mSensors m = [] \<and> mStorage m = None
      | Some s \<Rightarrow> connected m \<and> (\<exists>k. mSensors m = se_getSensorList env k s (mOpPackageName m)))"

text \<open>The answer to a call that asks the server, if it does, as the call with number \<open>k\<close>.\<close>

fun answer_of :: "service_env \<Rightarrow> nat \<Rightarrow> sensor_manager \<Rightarrow> manager_call \<Rightarrow> manager_answer" where
  "answer_of env k m ListSensors = SensorArray (int (length (mSensors m)), mSensorList m)"
| "answer_of env k m ListSensorsConst = SensorArray (int (length (mSensors m)), mSensorList m)"
| "answer_of env k m ListDynamicSensors =
     (let v = se_getDynamicSensorList env k (the (mSensorServer m)) (mOpPackageName m)
      in DynamicSensors (int (length v), Some v))"
| "answer_of env k m (DefaultSensor type) =
     OneSensor (map_option (Pair (the (mStorage m))) (default_of env type (mSensors m)))"
| "answer_of env k m (NewEventQueue name mode) =
     Connection (se_createConnection env k (the (mSensorServer m)) name mode (mOpPackageName m))"
| "answer_of env k m OldEventQueue =
     Connection (se_createConnection env k (the (mSensorServer m)) [] 0 (mOpPackageName m))"
| "answer_of env k m DataInjection = Injection (se_injection env k (the (mSensorServer m)) \<noteq> 0)"
| "answer_of env k m ServiceDied = NoAnswer"

definition fatal_messages :: "string set" where
  "fatal_messages = {''getService(SensorService) NULL'', ''mSensorList NULL''}"

lemma synced_ok: "synced env m \<Longrightarrow> manager_ok m"
  by (auto simp: synced_def manager_ok_def split: option.splits)

lemma synced_new: "synced env (new_manager p)"
  by (simp add: synced_def new_manager_def)

text \<open>A manager of a package that has a server.\<close>

definition serves :: "service_env \<Rightarrow> server \<Rightarrow> package \<Rightarrow> sensor_manager \<Rightarrow> bool" where
  "serves env s p m \<longleftrightarrow> mSensorServer m = Some s \<and> mOpPackageName m = p \<and> synced env m"

lemma servesD:
  assumes "serves env s p m"
  shows "mSensorServer m = Some s" "mOpPackageName m = p" "connected m"
    "\<exists>k. mSensors m = se_getSensorList env k s p" 
    "\<exists>a st. mStorage m = Some st \<and> mSensorList m = Some (a, map (Pair st) [0..<length (mSensors m)])"
  using assms by (auto simp: serves_def synced_def connected_def)

text \<open>
  The outcome of a call: a fatal message, or an answer from the manager it leaves, which is connected,
  after less than a minute of sleep, with what connecting does to the memory.
\<close>

definition promise :: "service_env \<Rightarrow> (nat \<Rightarrow> sensor_manager \<Rightarrow> 'a) \<Rightarrow> sensor_manager \<Rightarrow> binder_world \<Rightarrow>
    ('a \<times> sensor_manager \<times> binder_world) outcome \<Rightarrow> bool" where
  "promise env right m w r \<longleftrightarrow>
     (case r of
        Fatal msg \<Rightarrow> msg \<in> fatal_messages
      | Returned (a, m', w') \<Rightarrow>
          bw_sleeps w' \<le> bw_sleeps w + 59 \<and> (\<exists>s. serves env s (mOpPackageName m) m') \<and> memory_ok m' w' \<and>
          memory_step env m w m' w' \<and>
          (\<exists>k. bw_calls w \<le> k \<and> k \<le> bw_calls w' \<and> a = right k m'))"

lemma promiseE:
  assumes "promise env right m w r"
  obtains msg where "r = Fatal msg" "msg \<in> fatal_messages"
  | a m' w' s k where "r = Returned (a, m', w')" "bw_sleeps w' \<le> bw_sleeps w + 59"
      "serves env s (mOpPackageName m) m'" "memory_ok m' w'" "memory_step env m w m' w'"
      "bw_calls w \<le> k" "k \<le> bw_calls w'" "a = right k m'"
  using assms by (auto simp: promise_def split: outcome.splits prod.splits)

lemma assert_promise:
  assumes "service_documented env" "synced env m" "memory_ok m w"
  shows "promise env (\<lambda>k m. NO_ERROR) m w (assertStateLocked env m w)"
proof (cases "assertStateLocked env m w")
  case (Fatal msg)
  with assertStateLocked_cases [OF assms(1) refl, of m w] show ?thesis
    by (auto simp: promise_def fatal_messages_def Let_def split: if_splits)
next
  case (Returned r)
  then obtain err m' w' where r: "assertStateLocked env m w = Returned (err, m', w')" by (cases r) auto
  have v: "bw_calls w \<le> bw_calls (search_world m w)" by (simp add: search_world_def counted_def)
  have kept: "\<exists>s. serves env s (mOpPackageName m) m" if "\<not> needs_service env m w"
    using that assms(2) by (auto simp: serves_def needs_service_def split: option.splits)
  have "(\<exists>s. serves env s (mOpPackageName m) m') \<and> err = NO_ERROR \<and> bw_sleeps w' \<le> bw_sleeps w + 59 \<and>
      bw_calls w \<le> bw_calls w'"
    using assertStateLocked_cases [OF assms(1) refl, of m w] r v kept
    by (auto simp: serves_def synced_def connected_def Let_def split: if_splits)
  with assertStateLocked_memory [OF assms(1,3) r] r show ?thesis by (auto simp: promise_def)
qed

text \<open>A service that is there whenever it is asked for, and memory for its sensors.\<close>

definition service_up :: "service_env \<Rightarrow> bool" where
  "service_up env \<longleftrightarrow> (\<forall>k. snd (se_getService env k) \<noteq> None) \<and> (\<forall>k n. se_malloc env k n)"

lemma assert_up:
  assumes "service_documented env" "service_up env"
  shows "\<exists>r. assertStateLocked env m w = Returned r"
proof -
  have up: "\<exists>x. snd (se_getService env k) = Some x" "se_malloc env k n" for k n
    using assms(2) by (auto simp: service_up_def)
  have never: "\<not> (\<forall>i < (60 :: nat). snd (se_getService env (k + i)) = None)" for k
    using up(1) [of "k + 0"] by (metis option.distinct(1) zero_less_numeral)
  then show ?thesis
    using assertStateLocked_cases [OF assms(1) refl, of m w]
    by (elim disjE exE conjE) (use never in blast | simp add: Let_def up(2))+
qed

section \<open>The operations of the client\<close>

text \<open>
  The contract they share: the operation connects, ends if that ends, and answers from the
  manager that connecting leaves, with at most one more call to the server.
\<close>

locale manager_operation =
  fixes op :: "service_env \<Rightarrow> sensor_manager \<Rightarrow> binder_world \<Rightarrow> ('a \<times> sensor_manager \<times> binder_world) outcome"
    and right :: "service_env \<Rightarrow> nat \<Rightarrow> sensor_manager \<Rightarrow> 'a"
  assumes fatal: "assertStateLocked env m w = Fatal msg \<Longrightarrow> op env m w = Fatal msg"
    and answers: "assertStateLocked env m w = Returned (NO_ERROR, m', w') \<Longrightarrow> serves env s p m' \<Longrightarrow>
      memory_ok m' w' \<Longrightarrow> \<exists>w'' \<in> {w', counted w'}. op env m w = Returned (right env (bw_calls w') m', m', w'')"
begin

lemma kept:
  assumes "service_documented env" "synced env m" "memory_ok m w"
  shows "promise env (right env) m w (op env m w)"
  using assert_promise [OF assms]
proof (cases rule: promiseE)
  case (1 msg)
  then show ?thesis by (simp add: fatal promise_def)
next
  case (2 a m' w' s k)
  then obtain w'' where w: "w'' \<in> {w', counted w'}" "op env m w = Returned (right env (bw_calls w') m', m', w'')"
    using answers [of env m w m' w' s "mOpPackageName m"] by auto
  then have "bw_sleeps w'' = bw_sleeps w'" "bw_calls w' \<le> bw_calls w''" "memory_ok m' w''"
    "memory_step env m w m' w''"
    using 2(4,5) by (auto simp: counted_def memory_ok_def memory_step_def)
  moreover have "bw_calls w \<le> bw_calls w'" using 2(6,7) by simp
  ultimately show ?thesis
    unfolding promise_def w(2) using 2(2,3) by (simp, intro conjI) blast+
qed

lemma returns:
  assumes "service_documented env" "synced env m" "memory_ok m w" "service_up env"
  shows "\<exists>r. op env m w = Returned r"
  using assert_promise [OF assms(1-3)] assert_up [OF assms(1,4), of m w]
proof (cases rule: promiseE)
  case (2 a m' w' s k)
  then show ?thesis using answers [of env m w m' w' s "mOpPackageName m"] by auto
qed auto

end

interpretation sensor_list: manager_operation getSensorList
  "\<lambda>env k m. (int (length (mSensors m)), mSensorList m)"
  by unfold_locales (simp_all add: getSensorList_def NO_ERROR_def)

interpretation dynamic_list: manager_operation getDynamicSensorList
  "\<lambda>env k m. let v = se_getDynamicSensorList env k (the (mSensorServer m)) (mOpPackageName m)
     in (int (length v), Some v)"
  by unfold_locales (auto simp: getDynamicSensorList_def NO_ERROR_def Let_def dest!: servesD(1))

interpretation default_sensor: manager_operation "\<lambda>env. getDefaultSensor env type"
  "\<lambda>env k m. map_option (Pair (the (mStorage m))) (default_of env type (mSensors m))" for type
proof unfold_locales
  fix env m w m' w' s p
  assume "assertStateLocked env m w = Returned (NO_ERROR, m', w')" "serves env s p m'" "memory_ok m' w'"
  then show "\<exists>w'' \<in> {w', counted w'}. getDefaultSensor env type m w =
      Returned (map_option (Pair (the (mStorage m'))) (default_of env type (mSensors m')), m', w'')"
    using getDefaultSensor_connected servesD(3,5) by fastforce
qed (simp add: getDefaultSensor_def)

interpretation event_queue: manager_operation "\<lambda>env. createEventQueue env name mode"
  "\<lambda>env k m. se_createConnection env k (the (mSensorServer m)) name mode (mOpPackageName m)" for name mode
  by unfold_locales (auto simp: createEventQueue_def dest!: servesD(1))

interpretation injection: manager_operation isDataInjectionEnabled
  "\<lambda>env k m. se_injection env k (the (mSensorServer m)) \<noteq> 0"
  by unfold_locales (auto simp: isDataInjectionEnabled_def dest!: servesD(1))

section \<open>Runs\<close>

lemma answered_promise:
  "promise env right m w r \<Longrightarrow> promise env (\<lambda>k m. f (right k m)) m w (answered f r)"
  by (auto simp: promise_def answered_def split: outcome.splits prod.splits)

lemma manager_step_promise:
  assumes "service_documented env" "synced env m" "memory_ok m w" "call \<noteq> ServiceDied"
  shows "promise env (\<lambda>k m. answer_of env k m call) m w (manager_step env call m w)"
  using answered_promise [OF sensor_list.kept [OF assms(1-3)]]
    answered_promise [OF dynamic_list.kept [OF assms(1-3)]]
    answered_promise [OF default_sensor.kept [OF assms(1-3)]]
    answered_promise [OF event_queue.kept [OF assms(1-3)]]
    answered_promise [OF injection.kept [OF assms(1-3)]] assms(4)
  by (cases call) (simp_all add: getSensorList_const_def createEventQueue_old_def packageName8_def Let_def)

text \<open>What every call keeps, and what the notice of a death does.\<close>

definition right_step :: "service_env \<Rightarrow> manager_call \<Rightarrow> sensor_manager \<Rightarrow> binder_world \<Rightarrow>
    manager_answer \<Rightarrow> sensor_manager \<Rightarrow> binder_world \<Rightarrow> bool" where
  "right_step env call m w a m' w' \<longleftrightarrow>
     synced env m' \<and> memory_ok m' w' \<and> mOpPackageName m' = mOpPackageName m \<and>
     bw_sleeps w' \<le> bw_sleeps w + 59 \<and>
     (if call = ServiceDied then
        a = NoAnswer \<and> mSensorServer m' = None \<and> mSensorList m' = None \<and> mStorage m' = None \<and>
        bw_allocs w' = bw_allocs w \<and>
        set (bw_live w') = set (bw_live w) - fst ` set_option (mSensorList m) - set_option (mStorage m)
      else memory_step env m w m' w' \<and>
        (\<exists>s k. serves env s (mOpPackageName m) m' \<and> bw_calls w \<le> k \<and> k \<le> bw_calls w' \<and>
          a = answer_of env k m' call))"

lemma manager_step_cases:
  assumes "service_documented env" "synced env m" "memory_ok m w"
  shows "case manager_step env call m w of
      Fatal msg \<Rightarrow> msg \<in> fatal_messages
    | Returned (a, m', w') \<Rightarrow> right_step env call m w a m' w'"
proof (cases "call = ServiceDied")
  case True
  with sensorManagerDied_result [OF assms(3)] assms(3) show ?thesis
    by (auto simp: right_step_def synced_def memory_ok_def)
next
  case False
  with manager_step_promise [OF assms False] show ?thesis
    by (elim promiseE) (auto simp: right_step_def serves_def)
qed

lemma manager_run_right:
  assumes "service_documented env" "synced env m" "memory_ok m w"
  shows "case manager_run env calls m w of
      Fatal msg \<Rightarrow> msg \<in> fatal_messages
    | Returned (rs, m', w') \<Rightarrow>
        synced env m' \<and> memory_ok m' w' \<and> bw_sleeps w' \<le> bw_sleeps w + 59 * length calls \<and>
        (\<forall>i < length calls.
           right_step env (calls ! i) (manager_before m rs i) (world_before w rs i)
             (cr_answer (rs ! i)) (cr_manager (rs ! i)) (cr_world (rs ! i)))"
  using assms(2,3)
proof (induction calls arbitrary: m w)
  case (Cons call calls)
  show ?case
  proof (cases "manager_step env call m w")
    case (Fatal msg)
    with manager_step_cases [OF assms(1) Cons.prems, of call] show ?thesis by simp
  next
    case (Returned r)
    then obtain a m1 w1 where r: "manager_step env call m w = Returned (a, m1, w1)" by (cases r) auto
    with manager_step_cases [OF assms(1) Cons.prems, of call] have s: "right_step env call m w a m1 w1" by simp
    then have "synced env m1" "memory_ok m1 w1" "bw_sleeps w1 \<le> bw_sleeps w + 59"
      by (auto simp: right_step_def)
    with Cons.IH [of m1 w1] r s show ?thesis
      by (auto simp: before_Cons nth_Cons split: outcome.splits nat.split)
  qed
qed simp

lemma answered_returns: "\<exists>r. x = Returned r \<Longrightarrow> \<exists>r. answered f x = Returned r"
  by (auto simp: answered_def split: outcome.splits)

lemma manager_step_returns:
  assumes "service_documented env" "synced env m" "memory_ok m w" "service_up env"
  shows "\<exists>r. manager_step env call m w = Returned r"
  using answered_returns [OF sensor_list.returns [OF assms]] answered_returns [OF dynamic_list.returns [OF assms]]
    answered_returns [OF default_sensor.returns [OF assms]] answered_returns [OF event_queue.returns [OF assms]]
    answered_returns [OF injection.returns [OF assms]] sensorManagerDied_result [OF assms(3)]
  by (cases call) (auto simp only: manager_step.simps getSensorList_const_def createEventQueue_old_def
      outcome.case prod.case)

lemma manager_run_returns:
  assumes "service_documented env" "service_up env" "synced env m" "memory_ok m w"
  shows "\<exists>r. manager_run env calls m w = Returned r"
  using assms(3,4)
proof (induction calls arbitrary: m w)
  case (Cons call calls)
  from manager_step_returns [OF assms(1) Cons.prems assms(2), of call]
  obtain a m1 w1 where r: "manager_step env call m w = Returned (a, m1, w1)" by auto
  with manager_step_cases [OF assms(1) Cons.prems, of call] have "synced env m1" "memory_ok m1 w1"
    by (auto simp: right_step_def)
  from Cons.IH [OF this] r show ?case by auto
qed simp

subsection \<open>The memory a client was given\<close>

text \<open>
  A block that was once the manager's and is not any more: no later call frees it or allocates it
  again.
\<close>

definition detached :: "nat \<Rightarrow> sensor_manager \<Rightarrow> binder_world \<Rightarrow> bool" where
  "detached b m w \<longleftrightarrow>
     b < bw_allocs w \<and> mStorage m \<noteq> Some b \<and> b \<notin> fst ` set_option (mSensorList m)"

lemma detached_step:
  assumes "right_step env call m w a m' w'" "detached b m w"
  shows "detached b m' w' \<and> (b \<in> set (bw_live w') \<longleftrightarrow> b \<in> set (bw_live w))"
  using assms by (cases "mStorage m") (auto simp: right_step_def memory_step_def detached_def split: if_splits)

lemma attached_step:
  assumes "right_step env call m w a m' w'" "memory_ok m w"
    and "mStorage m = Some st" "mSensorList m = Some (array, ps)"
  shows "if call \<noteq> ServiceDied \<and> \<not> needs_service env m w then m' = m
    else detached st m' w' \<and> st \<notin> set (bw_live w') \<and> detached array m' w' \<and>
      (array \<in> set (bw_live w') \<longleftrightarrow> call \<noteq> ServiceDied)"
proof -
  have "st < bw_allocs w" "array < bw_allocs w" "array \<in> set (bw_live w)" "array \<noteq> st"
    using assms(2-4) by (auto simp: memory_ok_def)
  with assms(1,3,4) show ?thesis
    by (auto simp: right_step_def memory_step_def detached_def split: if_splits)
qed

text \<open>After the call at \<open>i\<close> and up to the one at \<open>j\<close>, no death is reported and no call connects anew.\<close>

definition undisturbed :: "service_env \<Rightarrow> sensor_manager \<Rightarrow> binder_world \<Rightarrow> manager_call list \<Rightarrow>
    call_record list \<Rightarrow> nat \<Rightarrow> nat \<Rightarrow> bool" where
  "undisturbed env m w calls rs i j \<longleftrightarrow>
     (\<forall>l \<in> {i<..j}. calls ! l \<noteq> ServiceDied \<and>
        \<not> needs_service env (manager_before m rs l) (world_before w rs l))"

lemma atLeast_Suc_between: "i \<le> j \<Longrightarrow> {i<..Suc j} = insert (Suc j) {i<..j}"
  by auto

lemma undisturbed_simps:
  "undisturbed env m w calls rs i i"
  "i \<le> j \<Longrightarrow> undisturbed env m w calls rs i (Suc j) \<longleftrightarrow>
     undisturbed env m w calls rs i j \<and> calls ! Suc j \<noteq> ServiceDied \<and>
     \<not> needs_service env (cr_manager (rs ! j)) (cr_world (rs ! j))"
  by (auto simp: undisturbed_def atLeast_Suc_between)

lemma handed_out_memory:
  assumes "service_documented env" "synced env m" "memory_ok m w"
    and run: "manager_run env calls m w = Returned (rs, m', w')"
    and st: "mStorage (cr_manager (rs ! i)) = Some st" "mSensorList (cr_manager (rs ! i)) = Some (array, ps)"
    and "i \<le> j" "j < length calls"
  shows "if undisturbed env m w calls rs i j then cr_manager (rs ! j) = cr_manager (rs ! i)
    else detached st (cr_manager (rs ! j)) (cr_world (rs ! j)) \<and> st \<notin> set (bw_live (cr_world (rs ! j))) \<and>
      detached array (cr_manager (rs ! j)) (cr_world (rs ! j)) \<and>
      (array \<in> set (bw_live (cr_world (rs ! j))) \<longleftrightarrow>
         (\<forall>l \<in> {i<..j}. calls ! l = ServiceDied \<longrightarrow> \<not> undisturbed env m w calls rs i (l - 1)))"
  using assms(7,8)
proof (induction j rule: nat_induct_at_least)
  case base
  then show ?case by (simp add: undisturbed_simps)
next
  case (Suc j)
  let ?m = "cr_manager (rs ! j)" and ?w = "cr_world (rs ! j)"
  have right: "right_step env (calls ! l) (manager_before m rs l) (world_before w rs l)
      (cr_answer (rs ! l)) (cr_manager (rs ! l)) (cr_world (rs ! l))" if "l < length calls" for l
    using manager_run_right [OF assms(1-3), of calls] run that by simp
  have step: "right_step env (calls ! Suc j) ?m ?w (cr_answer (rs ! Suc j)) (cr_manager (rs ! Suc j))
      (cr_world (rs ! Suc j))"
    using right [OF Suc.prems] by simp
  have ok: "memory_ok ?m ?w" using right [of j] Suc.prems by (simp add: right_step_def)
  show ?case
  proof (cases "undisturbed env m w calls rs i j")
    case True
    then have same: "?m = cr_manager (rs ! i)" using Suc by simp
    have "\<forall>l \<in> {i<..j}. calls ! l \<noteq> ServiceDied" using True by (simp add: undisturbed_def)
    then show ?thesis
      using attached_step [OF step ok] st True Suc.hyps same
      by (auto simp: undisturbed_simps atLeast_Suc_between)
  next
    case False
    then show ?thesis
      using Suc detached_step [OF step, of st] detached_step [OF step, of array]
      by (auto simp: undisturbed_simps atLeast_Suc_between)
  qed
qed

text \<open>
  Over the proxies, with transactions that fail when the server is dead, a run is one of the same
  kind: the sensors of the manager are then its server's own, or none.
\<close>

lemma proxied_documented: "service_documented (proxied P dead env) = service_documented env"
  by (simp add: service_documented_def proxied_def)

lemma manager_over_proxies:
  assumes "parcel_laws P written unread" "answers_fit env" "service_documented env"
    and "synced (proxied P dead env) m" "memory_ok m w"
    and run: "manager_run (proxied P dead env) calls m w = Returned (rs, m', w')"
    and i: "i < length calls" "calls ! i \<noteq> ServiceDied"
  shows "\<exists>s j. mSensorServer (cr_manager (rs ! i)) = Some s \<and>
    mSensors (cr_manager (rs ! i)) =
      alive_or [] (dead j s) (se_getSensorList env j s (mOpPackageName (cr_manager (rs ! i))))"
proof -
  have "right_step (proxied P dead env) (calls ! i) (manager_before m rs i) (world_before w rs i)
      (cr_answer (rs ! i)) (cr_manager (rs ! i)) (cr_world (rs ! i))"
    using manager_run_right [OF _ assms(4,5), of calls] run i assms(3) by (simp add: proxied_documented)
  then show ?thesis
    using i(2) proxied_answers(1) [OF assms(1,2), of dead] by (auto simp: right_step_def serves_def synced_def)
qed

section \<open>Properties\<close>

text \<open>
  C32. The manager answers from the live server and uses its memory safely. Take any sequence of
  calls to a manager, new or used before, with deaths of the service reported anywhere in between,
  and let every call to the service manager and the servers answer as it likes, \<open>getService\<close> as
  documented. The only ends of the process are the two fatal messages: no null pointer is followed,
  no array and no sensor is read and no array freed that is not allocated, also when the manager is
  deleted. After each
  other call the manager is connected to a server, its sensors are what that server answered, and
  the answer is the one that the manager then implies, together with at most one answer of this
  server during the call. A call sleeps at most 59 seconds, a death leaves no server, and a
  service that is up lets every run return.
\<close>

theorem manager_answers_from_the_live_server:
  assumes "service_documented env" "synced env m" "memory_ok m w"
  shows "(case manager_run env calls m w of
      Fatal msg \<Rightarrow> msg \<in> {''getService(SensorService) NULL'', ''mSensorList NULL''}
    | Returned (rs, m', w') \<Rightarrow>
        length rs = length calls \<and> synced env m' \<and> memory_ok m' w' \<and>
        bw_sleeps w' \<le> bw_sleeps w + 59 * length calls \<and>
        (\<exists>w''. delete_SensorManager m' w' = Returned w'') \<and>
        (\<forall>i < length calls.
           if calls ! i = ServiceDied then mSensorServer (cr_manager (rs ! i)) = None
           else \<exists>s j k. mSensorServer (cr_manager (rs ! i)) = Some s \<and> connected (cr_manager (rs ! i)) \<and>
             mSensors (cr_manager (rs ! i)) = se_getSensorList env j s (mOpPackageName (cr_manager (rs ! i))) \<and>
             bw_calls (world_before w rs i) \<le> k \<and> k \<le> bw_calls (cr_world (rs ! i)) \<and>
             cr_answer (rs ! i) = answer_of env k (cr_manager (rs ! i)) (calls ! i))) \<and>
    (service_up env \<longrightarrow> (\<exists>r. manager_run env calls m w = Returned r))"
proof (intro conjI impI)
  show "service_up env \<Longrightarrow> \<exists>r. manager_run env calls m w = Returned r"
    by (rule manager_run_returns [OF assms(1) _ assms(2,3)])
  note right = manager_run_right [OF assms, of calls]
  have step: "right_step env call m0 w0 a m1 w1 \<Longrightarrow>
      if call = ServiceDied then mSensorServer m1 = None
      else \<exists>s j k. mSensorServer m1 = Some s \<and> connected m1 \<and>
        mSensors m1 = se_getSensorList env j s (mOpPackageName m1) \<and>
        bw_calls w0 \<le> k \<and> k \<le> bw_calls w1 \<and> a = answer_of env k m1 call" for call m0 w0 a m1 w1
    by (auto simp: right_step_def serves_def synced_def)
  show "case manager_run env calls m w of
      Fatal msg \<Rightarrow> msg \<in> {''getService(SensorService) NULL'', ''mSensorList NULL''}
    | Returned (rs, m', w') \<Rightarrow>
        length rs = length calls \<and> synced env m' \<and> memory_ok m' w' \<and>
        bw_sleeps w' \<le> bw_sleeps w + 59 * length calls \<and>
        (\<exists>w''. delete_SensorManager m' w' = Returned w'') \<and>
        (\<forall>i < length calls.
           if calls ! i = ServiceDied then mSensorServer (cr_manager (rs ! i)) = None
           else \<exists>s j k. mSensorServer (cr_manager (rs ! i)) = Some s \<and> connected (cr_manager (rs ! i)) \<and>
             mSensors (cr_manager (rs ! i)) = se_getSensorList env j s (mOpPackageName (cr_manager (rs ! i))) \<and>
             bw_calls (world_before w rs i) \<le> k \<and> k \<le> bw_calls (cr_world (rs ! i)) \<and>
             cr_answer (rs ! i) = answer_of env k (cr_manager (rs ! i)) (calls ! i))"
  proof (cases "manager_run env calls m w")
    case (Fatal msg)
    with right show ?thesis by (simp add: fatal_messages_def)
  next
    case (Returned r)
    then obtain rs m' w' where r: "manager_run env calls m w = Returned (rs, m', w')" by (cases r) auto
    have all: "\<forall>i < length calls. right_step env (calls ! i) (manager_before m rs i) (world_before w rs i)
        (cr_answer (rs ! i)) (cr_manager (rs ! i)) (cr_world (rs ! i))"
      "synced env m'" "memory_ok m' w'" "bw_sleeps w' \<le> bw_sleeps w + 59 * length calls"
      using right r by simp_all
    show ?thesis
      unfolding r outcome.case prod.case
      using manager_run_steps(1) [OF r] all(2-) delete_returns [OF all(3)] step [OF all(1) [rule_format]] by blast
  qed
qed

theorem manager_answers_from_the_live_server_witness:
  "\<exists>rs m' w'. manager_run demo_service [DefaultSensor 8, ServiceDied, ListSensors] (new_manager ''p'') demo_binder =
       Returned (rs, m', w') \<and>
     memory_ok m' w' \<and> bw_sleeps w' \<le> 177 \<and> mSensorServer (cr_manager (rs ! 1)) = None \<and>
     (\<exists>j. mSensors (cr_manager (rs ! 2)) = se_getSensorList demo_service j 7 ''p'')"
proof -
  let ?calls = "[DefaultSensor 8, ServiceDied, ListSensors]"
  have "\<exists>rs m' w'. manager_run demo_service ?calls (new_manager ''p'') demo_binder = Returned (rs, m', w') \<and>
      mSensorServer (cr_manager (rs ! 2)) = Some 7 \<and> mOpPackageName (cr_manager (rs ! 2)) = ''p''"
    by (simp add: getDefaultSensor_def sensor_at_def getSensorList_def answered_def wakeUpSensor_def assertStateLocked_def
        sensorManagerDied_def free_array_def new_manager_def demo_service_def demo_binder_def sample_sensor_def counted_def
        allocate_def release_storage_def Let_def numeral_eq_Suc NAME_NOT_FOUND_def NO_ERROR_def)
  then obtain rs m' w' where r: "manager_run demo_service ?calls (new_manager ''p'') demo_binder = Returned (rs, m', w')"
    "mSensorServer (cr_manager (rs ! 2)) = Some 7" "mOpPackageName (cr_manager (rs ! 2)) = ''p''"
    by blast
  have "memory_ok (new_manager ''p'') demo_binder" by (simp add: memory_ok_new demo_binder_def)
  from manager_answers_from_the_live_server [OF demo_documented synced_new this, of ?calls] r
  show ?thesis by (auto simp: demo_binder_def All_less_Suc numeral_eq_Suc)
qed

text \<open>
  C3. How long what the manager hands out may be used. In a run as in C32, a call that lists the
  sensors returns the manager's own array of pointers to the sensors of its vector, in order, and one
  that asks for a default sensor such a pointer. These pointers lead to the same sensors until a
  death of the service is reported or a call connects the manager anew, because the server does not
  answer its ping: from then on the storage they point into is freed, and they dangle. The array
  itself is freed by a report of a death that comes before any call connects anew. After one that
  does, it is never freed, full of pointers that dangle.
\<close>

theorem handed_out_array_lives:
  assumes "service_documented env" "synced env m" "memory_ok m w"
    and "manager_run env calls m w = Returned (rs, m', w')"
    and "i < length calls" "calls ! i \<noteq> ServiceDied"
  shows "\<exists>n array storage. n = length (mSensors (cr_manager (rs ! i))) \<and>
      (calls ! i \<in> {ListSensors, ListSensorsConst} \<longrightarrow>
         cr_answer (rs ! i) = SensorArray (int n, Some (array, map (Pair storage) [0..<n]))) \<and>
      (\<forall>type. calls ! i = DefaultSensor type \<longrightarrow>
         cr_answer (rs ! i) = OneSensor None \<or>
         (\<exists>p < n. cr_answer (rs ! i) = OneSensor (Some (storage, p)))) \<and>
      (\<forall>j. i \<le> j \<and> j < length calls \<longrightarrow>
         (storage \<in> set (bw_live (cr_world (rs ! j))) \<longleftrightarrow> undisturbed env m w calls rs i j) \<and>
         (undisturbed env m w calls rs i j \<longrightarrow>
            (\<forall>p < n. sensor_at (cr_manager (rs ! j)) (cr_world (rs ! j)) (storage, p) =
               Some (mSensors (cr_manager (rs ! i)) ! p))) \<and>
         (array \<in> set (bw_live (cr_world (rs ! j))) \<longleftrightarrow>
            (\<forall>l \<in> {i<..j}. calls ! l = ServiceDied \<longrightarrow> \<not> undisturbed env m w calls rs i (l - 1))))"
proof -
  have right: "right_step env (calls ! k) (manager_before m rs k) (world_before w rs k)
      (cr_answer (rs ! k)) (cr_manager (rs ! k)) (cr_world (rs ! k))" if "k < length calls" for k
    using manager_run_right [OF assms(1-3), of calls] assms(4) that by simp
  let ?m = "cr_manager (rs ! i)"
  obtain s k where s: "serves env s (mOpPackageName (manager_before m rs i)) ?m"
    "cr_answer (rs ! i) = answer_of env k ?m (calls ! i)"
    using right [OF assms(5)] assms(6) by (auto simp: right_step_def)
  obtain array st where st: "mStorage ?m = Some st" "mSensorList ?m = Some (array, map (Pair st) [0..<length (mSensors ?m)])"
    using servesD(5) [OF s(1)] by blast
  have "default_of env type (mSensors ?m) = Some p \<Longrightarrow> p < length (mSensors ?m)" for type p
    by (auto simp: default_of_def find_Some_iff)
  then have one: "calls ! i = DefaultSensor type \<longrightarrow> cr_answer (rs ! i) = OneSensor None \<or>
      (\<exists>p < length (mSensors ?m). cr_answer (rs ! i) = OneSensor (Some (st, p)))" for type
    using s(2) st(1) by (cases "default_of env type (mSensors ?m)") auto
  have "(st \<in> set (bw_live (cr_world (rs ! j))) \<longleftrightarrow> undisturbed env m w calls rs i j) \<and>
      (undisturbed env m w calls rs i j \<longrightarrow>
         (\<forall>p < length (mSensors ?m). sensor_at (cr_manager (rs ! j)) (cr_world (rs ! j)) (st, p) =
            Some (mSensors ?m ! p))) \<and>
      (array \<in> set (bw_live (cr_world (rs ! j))) \<longleftrightarrow>
         (\<forall>l \<in> {i<..j}. calls ! l = ServiceDied \<longrightarrow> \<not> undisturbed env m w calls rs i (l - 1)))"
    if j: "i \<le> j" "j < length calls" for j
  proof -
    have "memory_ok (cr_manager (rs ! j)) (cr_world (rs ! j))"
      using right [OF j(2)] by (simp add: right_step_def)
    with handed_out_memory [OF assms(1-4) st j] st show ?thesis
      by (cases "undisturbed env m w calls rs i j")
        (auto simp: memory_ok_def sensor_at_def undisturbed_def)
  qed
  moreover have "calls ! i \<in> {ListSensors, ListSensorsConst} \<longrightarrow>
      cr_answer (rs ! i) = SensorArray (int (length (mSensors ?m)), Some (array, map (Pair st) [0..<length (mSensors ?m)]))"
    using s(2) st by auto
  ultimately show ?thesis using one by blast
qed

theorem handed_out_array_lives_witness:
  "\<exists>rs m' w' array storage.
     manager_run demo_service [ListSensors, OldEventQueue, ServiceDied] (new_manager ''p'') demo_binder =
       Returned (rs, m', w') \<and>
     cr_answer (rs ! 0) = SensorArray (3, Some (array, [(storage, 0), (storage, 1), (storage, 2)])) \<and>
     array \<in> set (bw_live (cr_world (rs ! 1))) \<and> storage \<in> set (bw_live (cr_world (rs ! 1))) \<and>
     array \<notin> set (bw_live (cr_world (rs ! 2))) \<and> storage \<notin> set (bw_live (cr_world (rs ! 2)))"
proof -
  let ?calls = "[ListSensors, OldEventQueue, ServiceDied]"
  have "\<exists>rs m' w'. manager_run demo_service ?calls (new_manager ''p'') demo_binder = Returned (rs, m', w') \<and>
      length (mSensors (cr_manager (rs ! 0))) = 3 \<and>
      \<not> needs_service demo_service (cr_manager (rs ! 0)) (cr_world (rs ! 0))"
    by (simp add: getSensorList_def createEventQueue_old_def createEventQueue_def answered_def
        assertStateLocked_def sensorManagerDied_def free_array_def needs_service_def
        new_manager_def demo_service_def demo_binder_def sample_sensor_def counted_def
        allocate_def release_storage_def Let_def numeral_eq_Suc NAME_NOT_FOUND_def NO_ERROR_def)
  then obtain rs m' w' where r: "manager_run demo_service ?calls (new_manager ''p'') demo_binder = Returned (rs, m', w')"
    "length (mSensors (cr_manager (rs ! 0))) = 3"
    "\<not> needs_service demo_service (cr_manager (rs ! 0)) (cr_world (rs ! 0))"
    by blast
  have u: "undisturbed demo_service (new_manager ''p'') demo_binder ?calls rs 0 0"
    "undisturbed demo_service (new_manager ''p'') demo_binder ?calls rs 0 1"
    "\<not> undisturbed demo_service (new_manager ''p'') demo_binder ?calls rs 0 2"
    using r(3) by (simp_all add: undisturbed_simps numeral_2_eq_2)
  have "memory_ok (new_manager ''p'') demo_binder" by (simp add: memory_ok_new demo_binder_def)
  note lives = handed_out_array_lives [OF demo_documented synced_new this r(1), of 0]
  have "0 < length ?calls" "?calls ! 0 \<noteq> ServiceDied" by simp_all
  from lives [OF this] obtain n array storage where
    n: "n = length (mSensors (cr_manager (rs ! 0)))" and
    given: "?calls ! 0 \<in> {ListSensors, ListSensorsConst} \<longrightarrow>
      cr_answer (rs ! 0) = SensorArray (int n, Some (array, map (Pair storage) [0..<n]))" and
    live: "\<forall>j. 0 \<le> j \<and> j < length ?calls \<longrightarrow>
      (storage \<in> set (bw_live (cr_world (rs ! j))) \<longleftrightarrow>
         undisturbed demo_service (new_manager ''p'') demo_binder ?calls rs 0 j) \<and>
      (array \<in> set (bw_live (cr_world (rs ! j))) \<longleftrightarrow>
         (\<forall>l \<in> {0<..j}. ?calls ! l = ServiceDied \<longrightarrow>
            \<not> undisturbed demo_service (new_manager ''p'') demo_binder ?calls rs 0 (l - 1)))"
    by (elim exE conjE) (rule that, assumption, assumption, simp)
  have "array \<in> set (bw_live (cr_world (rs ! 1)))" "storage \<in> set (bw_live (cr_world (rs ! 1)))"
    using live [rule_format, of 1] u(2) by (simp_all add: atLeast_Suc_between [of 0 0, simplified])
  moreover have "array \<notin> set (bw_live (cr_world (rs ! 2)))" "storage \<notin> set (bw_live (cr_world (rs ! 2)))"
    using live [rule_format, of 2] u(2,3) by (simp_all add: bexI [of _ 2])
  moreover have "cr_answer (rs ! 0) = SensorArray (3, Some (array, [(storage, 0), (storage, 1), (storage, 2)]))"
    using given n r(2) by (simp add: upt_conv_Cons)
  ultimately show ?thesis using r(1) by blast
qed

end
