(* ===== verification/AudioHal.thy ===== *)
theory AudioHal
  imports Float32 "HOL-Library.Word"
begin

text \<open>
  The interface of the audio HAL, \<open>include/hardware/audio.h\<close>: the tables of functions a stream and
  a device offer, as records, and the inline functions that call through them.
\<close>

section \<open>What the header takes from others\<close>

text \<open>
  Structures and functions of the system's headers are opaque here: types without a definition,
  and a record of the functions and sizes the inline functions use. The table of a hardware
  module and that of a hardware device are known by the function pointer the code calls, and
  the macro that counts bits belongs to another header too.
\<close>

typedecl effect_handle_t
typedecl playback_track_metadata
typedecl record_track_metadata
typedecl timespec
typedecl audio_mmap_buffer_info
typedecl audio_mmap_position
typedecl audio_microphone_characteristic_t
typedecl audio_config
typedecl audio_port_config
typedecl audio_port

type_synonym address = nat

text \<open>
  A pointer to a function is \<open>None\<close> if it is null. The function acts on the state \<open>'st\<close> of the
  program. A parameter that points to a variable is the variable's value before the call, and
  its value after the call is a part of the result; a buffer with its size is the list of its bytes.
  The parameter that points to the table itself is left out. Enumerations and flags are integers.
\<close>

type_synonym ('r, 'st) action = "'st \<Rightarrow> 'r \<times> 'st"

record audio_h =
  audio_has_proportional_frames :: "int \<Rightarrow> bool"
  audio_bytes_per_sample :: "int \<Rightarrow> int"
  audio_channel_count_from_out_mask :: "int \<Rightarrow> int"
  audio_channel_count_from_in_mask :: "int \<Rightarrow> int"
  popcount :: "int \<Rightarrow> int"
  size_t_bits :: nat

definition AUDIO_HARDWARE_INTERFACE :: string where
  "AUDIO_HARDWARE_INTERFACE = ''audio_hw_if''"

section \<open>Streams\<close>

record 'st audio_stream =
  get_sample_rate :: "(int, 'st) action option"
  set_sample_rate :: "(int \<Rightarrow> (int, 'st) action) option"
  get_buffer_size :: "(int, 'st) action option"
  get_channels :: "(int, 'st) action option"
  get_format :: "(int, 'st) action option"
  set_format :: "(int \<Rightarrow> (int, 'st) action) option"
  standby :: "(int, 'st) action option"
  dump :: "(int \<Rightarrow> (int, 'st) action) option"
  get_device :: "(int, 'st) action option"
  set_device :: "(int \<Rightarrow> (int, 'st) action) option"
  set_parameters :: "(string \<Rightarrow> (int, 'st) action) option"
  get_parameters :: "(string \<Rightarrow> (string option, 'st) action) option"
  add_audio_effect :: "(effect_handle_t \<Rightarrow> (int, 'st) action) option"
  remove_audio_effect :: "(effect_handle_t \<Rightarrow> (int, 'st) action) option"

datatype stream_callback_event_t =
    STREAM_CBK_EVENT_WRITE_READY
  | STREAM_CBK_EVENT_DRAIN_READY
  | STREAM_CBK_EVENT_ERROR

type_synonym 'st stream_callback_t =
  "(stream_callback_event_t \<Rightarrow> address \<Rightarrow> address \<Rightarrow> (int, 'st) action) option"

datatype audio_drain_type_t = AUDIO_DRAIN_ALL | AUDIO_DRAIN_EARLY_NOTIFY

text \<open>The tracks are an array of \<open>track_count\<close> elements.\<close>

record source_metadata =
  source_tracks :: "playback_track_metadata list"

record sink_metadata =
  sink_tracks :: "record_track_metadata list"

record 'st audio_stream_out =
  out_common :: "'st audio_stream"
  get_latency :: "(int, 'st) action option"
  set_volume :: "(float32 \<Rightarrow> float32 \<Rightarrow> (int, 'st) action) option"
  write_bytes :: "(8 word list \<Rightarrow> (int, 'st) action) option"
  get_render_position :: "(int \<Rightarrow> (int \<times> int, 'st) action) option"
  get_next_write_timestamp :: "(int \<Rightarrow> (int \<times> int, 'st) action) option"
  set_callback :: "('st stream_callback_t \<Rightarrow> address \<Rightarrow> (int, 'st) action) option"
  pause :: "(int, 'st) action option"
  resume :: "(int, 'st) action option"
  drain :: "(audio_drain_type_t \<Rightarrow> (int, 'st) action) option"
  flush_out :: "(int, 'st) action option"
  get_presentation_position :: "(int \<Rightarrow> timespec \<Rightarrow> (int \<times> int \<times> timespec, 'st) action) option"
  out_start :: "(int, 'st) action option"
  out_stop :: "(int, 'st) action option"
  out_create_mmap_buffer ::
    "(int \<Rightarrow> audio_mmap_buffer_info \<Rightarrow> (int \<times> audio_mmap_buffer_info, 'st) action) option"
  out_get_mmap_position :: "(audio_mmap_position \<Rightarrow> (int \<times> audio_mmap_position, 'st) action) option"
  update_source_metadata :: "(source_metadata \<Rightarrow> (unit, 'st) action) option"

record 'st audio_stream_in =
  in_common :: "'st audio_stream"
  set_gain :: "(float32 \<Rightarrow> (int, 'st) action) option"
  read_bytes :: "(8 word list \<Rightarrow> (int \<times> 8 word list, 'st) action) option"
  get_input_frames_lost :: "(int, 'st) action option"
  get_capture_position :: "(int \<Rightarrow> int \<Rightarrow> (int \<times> int \<times> int, 'st) action) option"
  in_start :: "(int, 'st) action option"
  in_stop :: "(int, 'st) action option"
  in_create_mmap_buffer ::
    "(int \<Rightarrow> audio_mmap_buffer_info \<Rightarrow> (int \<times> audio_mmap_buffer_info, 'st) action) option"
  in_get_mmap_position :: "(audio_mmap_position \<Rightarrow> (int \<times> audio_mmap_position, 'st) action) option"
  get_active_microphones :: "(audio_microphone_characteristic_t list \<Rightarrow> int \<Rightarrow>
    (int \<times> audio_microphone_characteristic_t list \<times> int, 'st) action) option"
  update_sink_metadata :: "(sink_metadata \<Rightarrow> (unit, 'st) action) option"

section \<open>Modules and devices\<close>

text \<open>
  A module and a device begin with the table of a hardware module or device, \<open>'module\<close> and
  \<open>'hw\<close>. A stream that a device opens is \<open>None\<close> if the null pointer was stored.
\<close>

record 'module audio_module =
  module_common :: 'module

record ('hw, 'st) audio_hw_device =
  device_common :: 'hw
  get_supported_devices :: "(int, 'st) action option"
  init_check :: "(int, 'st) action option"
  set_voice_volume :: "(float32 \<Rightarrow> (int, 'st) action) option"
  set_master_volume :: "(float32 \<Rightarrow> (int, 'st) action) option"
  get_master_volume :: "(float32 \<Rightarrow> (int \<times> float32, 'st) action) option"
  set_mode :: "(int \<Rightarrow> (int, 'st) action) option"
  set_mic_mute :: "(bool \<Rightarrow> (int, 'st) action) option"
  get_mic_mute :: "(bool \<Rightarrow> (int \<times> bool, 'st) action) option"
  device_set_parameters :: "(string \<Rightarrow> (int, 'st) action) option"
  device_get_parameters :: "(string \<Rightarrow> (string option, 'st) action) option"
  get_input_buffer_size :: "(audio_config \<Rightarrow> (int, 'st) action) option"
  open_output_stream :: "(int \<Rightarrow> int \<Rightarrow> int \<Rightarrow> audio_config \<Rightarrow> 'st audio_stream_out option \<Rightarrow> string option \<Rightarrow>
    (int \<times> audio_config \<times> 'st audio_stream_out option, 'st) action) option"
  close_output_stream :: "('st audio_stream_out \<Rightarrow> (unit, 'st) action) option"
  open_input_stream :: "(int \<Rightarrow> int \<Rightarrow> audio_config \<Rightarrow> 'st audio_stream_in option \<Rightarrow> int \<Rightarrow> string option \<Rightarrow> int \<Rightarrow>
    (int \<times> audio_config \<times> 'st audio_stream_in option, 'st) action) option"
  close_input_stream :: "('st audio_stream_in \<Rightarrow> (unit, 'st) action) option"
  device_dump :: "(int \<Rightarrow> (int, 'st) action) option"
  set_master_mute :: "(bool \<Rightarrow> (int, 'st) action) option"
  get_master_mute :: "(bool \<Rightarrow> (int \<times> bool, 'st) action) option"
  create_audio_patch :: "(audio_port_config list \<Rightarrow> audio_port_config list \<Rightarrow> int \<Rightarrow> (int \<times> int, 'st) action) option"
  release_audio_patch :: "(int \<Rightarrow> (int, 'st) action) option"
  get_audio_port :: "(audio_port \<Rightarrow> (int \<times> audio_port, 'st) action) option"
  set_audio_port_config :: "(audio_port_config \<Rightarrow> (int, 'st) action) option"
  get_microphones :: "(audio_microphone_characteristic_t list \<Rightarrow> int \<Rightarrow>
    (int \<times> audio_microphone_characteristic_t list \<times> int, 'st) action) option"

section \<open>The inline functions\<close>

text \<open>A call through a pointer has no result if the pointer is null.\<close>

definition call_through :: "('r, 'st) action option \<Rightarrow> 'st \<Rightarrow> ('r \<times> 'st) option" where
  "call_through f st = (case f of None \<Rightarrow> None | Some f \<Rightarrow> Some (f st))"

definition size_t_mult :: "audio_h \<Rightarrow> int \<Rightarrow> int \<Rightarrow> int" where
  "size_t_mult A x y = (x * y) mod 2 ^ size_t_bits A"

definition audio_stream_frame_size :: "audio_h \<Rightarrow> 'st audio_stream \<Rightarrow> 'st \<Rightarrow> (int \<times> 'st) option" where
  "audio_stream_frame_size A s st =
     (case call_through (get_format s) st of
        None \<Rightarrow> None
      | Some (format, st) \<Rightarrow>
          if audio_has_proportional_frames A format then
            let chan_samp_sz = audio_bytes_per_sample A format
            in case call_through (get_channels s) st of
                 None \<Rightarrow> None
               | Some (channels, st) \<Rightarrow> Some (size_t_mult A (popcount A channels) chan_samp_sz, st)
          else Some (1, st))"

definition audio_stream_out_frame_size :: "audio_h \<Rightarrow> 'st audio_stream_out \<Rightarrow> 'st \<Rightarrow> (int \<times> 'st) option" where
  "audio_stream_out_frame_size A s st =
     (case call_through (get_format (out_common s)) st of
        None \<Rightarrow> None
      | Some (format, st) \<Rightarrow>
          if audio_has_proportional_frames A format then
            let chan_samp_sz = audio_bytes_per_sample A format
            in case call_through (get_channels (out_common s)) st of
                 None \<Rightarrow> None
               | Some (channels, st) \<Rightarrow>
                   Some (size_t_mult A (audio_channel_count_from_out_mask A channels) chan_samp_sz, st)
          else Some (1, st))"

definition audio_stream_in_frame_size :: "audio_h \<Rightarrow> 'st audio_stream_in \<Rightarrow> 'st \<Rightarrow> (int \<times> 'st) option" where
  "audio_stream_in_frame_size A s st =
     (case call_through (get_format (in_common s)) st of
        None \<Rightarrow> None
      | Some (format, st) \<Rightarrow>
          if audio_has_proportional_frames A format then
            let chan_samp_sz = audio_bytes_per_sample A format
            in case call_through (get_channels (in_common s)) st of
                 None \<Rightarrow> None
               | Some (channels, st) \<Rightarrow>
                   Some (size_t_mult A (audio_channel_count_from_in_mask A channels) chan_samp_sz, st)
          else Some (1, st))"

text \<open>
  The functions the two tables of hardware headers hold: \<open>methods->open\<close> of a module, which
  stores the device, and \<open>close\<close> of a device.
\<close>

record ('module, 'hw, 'st) hardware_h =
  methods_open :: "'module \<Rightarrow> (string \<Rightarrow> ('hw, 'st) audio_hw_device option \<Rightarrow>
    (int \<times> ('hw, 'st) audio_hw_device option, 'st) action) option"
  hw_close :: "'hw \<Rightarrow> (int, 'st) action option"

definition audio_hw_device_open :: "('module, 'hw, 'st) hardware_h \<Rightarrow> 'module \<Rightarrow>
    ('hw, 'st) audio_hw_device option \<Rightarrow> 'st \<Rightarrow>
    ((int \<times> ('hw, 'st) audio_hw_device option) \<times> 'st) option" where
  "audio_hw_device_open H module device st =
     call_through (map_option (\<lambda>f. f AUDIO_HARDWARE_INTERFACE device) (methods_open H module)) st"

definition audio_hw_device_close :: "('module, 'hw, 'st) hardware_h \<Rightarrow> ('hw, 'st) audio_hw_device \<Rightarrow> 'st \<Rightarrow>
    (int \<times> 'st) option" where
  "audio_hw_device_close H device st = call_through (hw_close H (device_common device)) st"

section \<open>Lemmas\<close>

text \<open>The three sizes of a frame are one function of the way channels are counted.\<close>

definition frame_size_by :: "(int \<Rightarrow> int) \<Rightarrow> audio_h \<Rightarrow> 'st audio_stream \<Rightarrow> 'st \<Rightarrow> (int \<times> 'st) option" where
  "frame_size_by count A s st =
     (case call_through (get_format s) st of
        None \<Rightarrow> None
      | Some (format, st) \<Rightarrow>
          if \<not> audio_has_proportional_frames A format then Some (1, st)
          else map_option (map_prod (\<lambda>channels. size_t_mult A (count channels) (audio_bytes_per_sample A format)) id)
                 (call_through (get_channels s) st))"

lemma frame_sizes_by:
  "audio_stream_frame_size A s = frame_size_by (popcount A) A s"
  "audio_stream_out_frame_size A out = frame_size_by (audio_channel_count_from_out_mask A) A (out_common out)"
  "audio_stream_in_frame_size A inp = frame_size_by (audio_channel_count_from_in_mask A) A (in_common inp)"
  by (rule ext, simp add: frame_size_by_def audio_stream_frame_size_def audio_stream_out_frame_size_def
      audio_stream_in_frame_size_def map_prod_def id_def split: option.split prod.split)+

section \<open>Properties\<close>

text \<open>
  What the header of the audio formats says: a sample has at most 8 bytes, and a mask has at most
  32 channels, one for each bit.
\<close>

definition formats_documented :: "audio_h \<Rightarrow> bool" where
  "formats_documented A \<longleftrightarrow>
     32 \<le> size_t_bits A \<and>
     (\<forall>format. 0 \<le> audio_bytes_per_sample A format \<and> audio_bytes_per_sample A format \<le> 8) \<and>
     (\<forall>mask. 0 \<le> popcount A mask \<and> popcount A mask \<le> 32) \<and>
     (\<forall>mask. 0 \<le> audio_channel_count_from_out_mask A mask \<and> audio_channel_count_from_out_mask A mask \<le> 32) \<and>
     (\<forall>mask. 0 \<le> audio_channel_count_from_in_mask A mask \<and> audio_channel_count_from_in_mask A mask \<le> 32)"

text \<open>The bytes of one sample for each channel, or one byte; computed without a width.\<close>

definition frame_bytes :: "(int \<Rightarrow> int) \<Rightarrow> audio_h \<Rightarrow> int \<Rightarrow> int \<Rightarrow> int" where
  "frame_bytes count A format channels =
     (if audio_has_proportional_frames A format then count channels * audio_bytes_per_sample A format else 1)"

text \<open>The size of a frame of a stream, as a client of the header expects it.\<close>

definition right_frame_size :: "(int \<Rightarrow> int) \<Rightarrow> audio_h \<Rightarrow> 'st audio_stream \<Rightarrow> 'st \<Rightarrow>
    (int \<times> 'st) option \<Rightarrow> bool" where
  "right_frame_size count A s st r \<longleftrightarrow>
     (case get_format s of
        None \<Rightarrow> r = None
      | Some f \<Rightarrow>
          (let (format, st1) = f st in
             if audio_has_proportional_frames A format then
               (case get_channels s of
                  None \<Rightarrow> r = None
                | Some g \<Rightarrow>
                    r = Some (frame_bytes count A format (fst (g st1)), snd (g st1)) \<and>
                    0 \<le> frame_bytes count A format (fst (g st1)) \<and>
                    frame_bytes count A format (fst (g st1)) \<le> 256)
             else r = Some (1, st1)))"

lemma right_frame_size:
  assumes "32 \<le> size_t_bits A" "\<forall>f. 0 \<le> audio_bytes_per_sample A f \<and> audio_bytes_per_sample A f \<le> 8"
    "\<forall>c. 0 \<le> count c \<and> count c \<le> 32"
  shows "right_frame_size count A s st (frame_size_by count A s st)"
proof -
  have n: "count c * audio_bytes_per_sample A f \<le> 256" for c f
    using mult_mono [of "count c" 32 "audio_bytes_per_sample A f" 8] assms(2,3) by simp
  have big: "(256 :: int) < 2 ^ size_t_bits A"
    by (rule less_le_trans [of _ "2 ^ 32"]) (simp, rule power_increasing, use assms(1) in simp_all)
  have p: "0 \<le> count c * audio_bytes_per_sample A f" for c f using assms(2,3) by simp
  have "size_t_mult A (count c) (audio_bytes_per_sample A f) = count c * audio_bytes_per_sample A f" for c f
    unfolding size_t_mult_def using p le_less_trans [OF n big] by (intro mod_pos_pos_trivial)
  then show ?thesis
    by (auto simp: right_frame_size_def frame_size_by_def frame_bytes_def call_through_def map_prod_def n p
        split: option.splits prod.splits)
qed

text \<open>
  C18. The sizes of a frame, of any stream, an output stream and an input stream. A null
  pointer is followed exactly if the stream has no function for its format, or has none for its
  channels although frames of the format have a size for each channel. Otherwise the size is the exact
  product of the number of channels and the bytes of a sample, or 1, is at most 256 and does not wrap
  around; the channels are asked for only if they matter. The deprecated
  function agrees with the one for output streams where the channels of a mask are its bits.
\<close>

theorem frame_sizes_are_exact:
  assumes "formats_documented A"
  shows "right_frame_size (popcount A) A s st (audio_stream_frame_size A s st) \<and>
    right_frame_size (audio_channel_count_from_out_mask A) A (out_common out) st
      (audio_stream_out_frame_size A out st) \<and>
    right_frame_size (audio_channel_count_from_in_mask A) A (in_common inp) st
      (audio_stream_in_frame_size A inp st) \<and>
    (audio_channel_count_from_out_mask A = popcount A \<longrightarrow>
       audio_stream_out_frame_size A out st = audio_stream_frame_size A (out_common out) st)"
  using assms by (simp add: formats_documented_def frame_sizes_by right_frame_size)

text \<open>Samples of 16 bits on two channels, of a format with number 1; other formats are not proportional.\<close>

definition demo_formats :: audio_h where
  "demo_formats =
     (let bits = (\<lambda>mask. int (length (filter (\<lambda>i. odd (mask div 2 ^ i)) [0..<32])))
      in \<lparr>audio_has_proportional_frames = (\<lambda>format. format = 1), audio_bytes_per_sample = (\<lambda>format. 2),
          audio_channel_count_from_out_mask = bits, audio_channel_count_from_in_mask = bits, popcount = bits,
          size_t_bits = 32\<rparr>)"

definition demo_stream :: "int \<Rightarrow> nat audio_stream" where
  "demo_stream format =
     \<lparr>get_sample_rate = None, set_sample_rate = None, get_buffer_size = None,
      get_channels = Some (\<lambda>st. (3, Suc st)), get_format = Some (\<lambda>st. (format, Suc st)),
      set_format = None, standby = None, dump = None, get_device = None, set_device = None,
      set_parameters = None, get_parameters = None, add_audio_effect = None, remove_audio_effect = None\<rparr>"

theorem frame_sizes_are_exact_witness:
  "audio_stream_frame_size demo_formats (demo_stream 1) 0 = Some (4, 2) \<and>
   audio_stream_frame_size demo_formats (demo_stream 5) 0 = Some (1, 1)"
proof -
  have d: "formats_documented demo_formats"
    using length_filter_le [of _ "[0..<32]"] by (simp add: formats_documented_def demo_formats_def Let_def)
  have f: "popcount demo_formats 3 = 2" "audio_has_proportional_frames demo_formats 1"
    "\<not> audio_has_proportional_frames demo_formats 5" "audio_bytes_per_sample demo_formats 1 = 2"
    by code_simp+
  have s: "get_format (demo_stream k) = Some (\<lambda>st. (k, Suc st))"
    "get_channels (demo_stream k) = Some (\<lambda>st. (3, Suc st))" for k
    by (simp_all add: demo_stream_def)
  note right = conjunct1 [OF frame_sizes_are_exact [OF d]]
  show ?thesis
    using right [of "demo_stream 1" 0] right [of "demo_stream 5" 0]
    by (simp add: right_frame_size_def frame_bytes_def f s numeral_2_eq_2)
qed

end
