(* ===== verification/AudioVolume.thy ===== *)
theory AudioVolume
  imports AudioHal
begin

text \<open>
  The master volume in the service of the audio HAL, as
  \<open>Audio-skip-setMasterVolume-if-not-implement.patch\<close> (under \<open>patches/upstream/\<close>) leaves the two
  functions it changes: they call through the table of functions of AudioHal.
\<close>

section \<open>The two functions\<close>

text \<open>
  The results, the test of a volume and the translation of a status belong to the service, whose
  other code is elsewhere: they are a parameter.
\<close>

record 'r volume_h =
  Result_NOT_SUPPORTED :: 'r
  Result_INVALID_ARGUMENTS :: 'r
  isGainNormalized :: "float32 \<Rightarrow> bool"
  analyzeStatus :: "string \<Rightarrow> int \<Rightarrow> 'r"

text \<open>\<open>mDevice\<close> is the device of the HAL, \<open>None\<close> if the pointer is null.\<close>

definition Device_setMasterVolume :: "'r volume_h \<Rightarrow> ('hw, 'st) audio_hw_device option \<Rightarrow> float32 \<Rightarrow> 'st \<Rightarrow>
    ('r \<times> 'st) option" where
  "Device_setMasterVolume V mDevice volume st =
     (if mDevice = None \<or> set_master_volume (the mDevice) = None then Some (Result_NOT_SUPPORTED V, st)
      else if \<not> isGainNormalized V volume then Some (Result_INVALID_ARGUMENTS V, st)
      else
        (case call_through (map_option (\<lambda>f. f volume) (set_master_volume (the mDevice))) st of
           None \<Rightarrow> None
         | Some (status, st') \<Rightarrow> Some (analyzeStatus V ''set_master_volume'' status, st')))"

text \<open>Here \<open>mDevice\<close> is a pointer to the object above.\<close>

definition PrimaryDevice_setMasterVolume :: "'r volume_h \<Rightarrow> ('hw, 'st) audio_hw_device option option \<Rightarrow>
    float32 \<Rightarrow> 'st \<Rightarrow> ('r \<times> 'st) option" where
  "PrimaryDevice_setMasterVolume V mDevice volume st =
     (case mDevice of
        None \<Rightarrow> Some (Result_NOT_SUPPORTED V, st)
      | Some device \<Rightarrow> Device_setMasterVolume V device volume st)"

section \<open>Lemmas\<close>

text \<open>The function of the HAL that a call would reach, if every pointer on the way to it is set.\<close>

definition volume_function :: "('hw, 'st) audio_hw_device option option \<Rightarrow> (float32 \<Rightarrow> (int, 'st) action) option" where
  "volume_function mDevice = Option.bind (Option.bind mDevice id) set_master_volume"

lemma volume_not_supported:
  "volume_function mDevice = None \<Longrightarrow>
     PrimaryDevice_setMasterVolume V mDevice volume st = Some (Result_NOT_SUPPORTED V, st)"
  by (auto simp: volume_function_def PrimaryDevice_setMasterVolume_def Device_setMasterVolume_def
      bind_eq_None_conv split: option.splits)

lemma volume_passed_on:
  assumes "volume_function mDevice = Some f"
  shows "PrimaryDevice_setMasterVolume V mDevice volume st =
     (if isGainNormalized V volume
      then Some (map_prod (analyzeStatus V ''set_master_volume'') id (f volume st))
      else Some (Result_INVALID_ARGUMENTS V, st))"
  using assms
  by (auto simp: volume_function_def PrimaryDevice_setMasterVolume_def Device_setMasterVolume_def
      call_through_def bind_eq_Some_conv split: prod.splits)

text \<open>No null pointer is followed, whichever of the three pointers on the way is null.\<close>

lemma volume_is_guarded: "PrimaryDevice_setMasterVolume V mDevice volume st \<noteq> None"
  by (cases "volume_function mDevice") (simp_all add: volume_not_supported volume_passed_on)

text \<open>The HAL's function sees normalized volumes only: otherwise the state is left as it was.\<close>

lemma volume_needs_normalized:
  assumes "\<not> isGainNormalized V volume"
  shows "\<exists>r \<in> {Result_NOT_SUPPORTED V, Result_INVALID_ARGUMENTS V}.
    PrimaryDevice_setMasterVolume V mDevice volume st = Some (r, st)"
  using assms by (cases "volume_function mDevice") (simp_all add: volume_not_supported volume_passed_on)

end
