(* ===== verification/ScreenPower.thy ===== *)
theory ScreenPower
  imports Prelude
begin

text \<open>
  The power of the display: what \<open>surfaceflinger-powerdown-lcd-on-off.patch\<close> (under
  \<open>patches/frameworks/native/\<close>) adds to \<open>setPowerModeInternal\<close> of \<open>SurfaceFlinger.cpp\<close>. When the mode
  is off or normal, it blanks or unblanks the frame buffer by a call to its driver.
\<close>

section \<open>The added code\<close>

definition FBIOBLANK :: int where "FBIOBLANK = 0x4611"
definition FB_BLANK_UNBLANK :: int where "FB_BLANK_UNBLANK = 0"
definition FB_BLANK_POWERDOWN :: int where "FB_BLANK_POWERDOWN = 4"

text \<open>The constants of other headers.\<close>

record power_h =
  HWC_POWER_MODE_OFF :: int
  HWC_POWER_MODE_NORMAL :: int
  O_WRONLY :: int

text \<open>The calls made to the system are a log; the answer to a call may depend on those before it.\<close>

datatype fb_call = FbOpen string int | FbIoctl int int int | FbClose int

type_synonym fb_answer = "fb_call list \<Rightarrow> fb_call \<Rightarrow> int"

definition fb_do :: "fb_answer \<Rightarrow> fb_call \<Rightarrow> fb_call list \<Rightarrow> int \<times> fb_call list" where
  "fb_do answer call log = (answer log call, log @ [call])"

definition blank_display :: "power_h \<Rightarrow> fb_answer \<Rightarrow> int \<Rightarrow> fb_call list \<Rightarrow> fb_call list" where
  "blank_display K answer mode log =
     (if mode = HWC_POWER_MODE_OFF K \<or> mode = HWC_POWER_MODE_NORMAL K then
        (let fbBlankMode = (if mode = HWC_POWER_MODE_OFF K then FB_BLANK_POWERDOWN else FB_BLANK_UNBLANK);
             (fd, log) = fb_do answer (FbOpen ''/dev/graphics/fb0'' (O_WRONLY K)) log
         in if fd < 0 then log
            else
              let (ret, log) = fb_do answer (FbIoctl fd FBIOBLANK fbBlankMode) log;
                  (closed, log) = fb_do answer (FbClose fd) log
              in log)
      else log)"

section \<open>Lemmas\<close>

definition fb_open :: "power_h \<Rightarrow> fb_call" where
  "fb_open K = FbOpen ''/dev/graphics/fb0'' (O_WRONLY K)"

lemma blank_display_other_mode:
  "mode \<noteq> HWC_POWER_MODE_OFF K \<Longrightarrow> mode \<noteq> HWC_POWER_MODE_NORMAL K \<Longrightarrow> blank_display K answer mode log = log"
  by (simp add: blank_display_def)

text \<open>A frame buffer that cannot be opened is left alone.\<close>

lemma blank_display_failed:
  assumes "mode \<in> {HWC_POWER_MODE_OFF K, HWC_POWER_MODE_NORMAL K}" "answer log (fb_open K) < 0"
  shows "blank_display K answer mode log = log @ [fb_open K]"
  using assms by (auto simp: blank_display_def fb_do_def fb_open_def Let_def)

text \<open>
  Otherwise the driver is asked once, with the mode that fits, and whatever it answers the
  descriptor is closed, once and last.
\<close>

lemma blank_display_opened:
  assumes "mode \<in> {HWC_POWER_MODE_OFF K, HWC_POWER_MODE_NORMAL K}" "0 \<le> answer log (fb_open K)"
  shows "blank_display K answer mode log = log @
     [fb_open K,
      FbIoctl (answer log (fb_open K)) 0x4611 (if mode = HWC_POWER_MODE_OFF K then 4 else 0),
      FbClose (answer log (fb_open K))]"
  using assms
  by (auto simp: blank_display_def fb_do_def fb_open_def FBIOBLANK_def FB_BLANK_POWERDOWN_def
      FB_BLANK_UNBLANK_def Let_def)

text \<open>Off and on again, with a frame buffer that opens both times: the last mode is the unblanked one.\<close>

lemma blank_display_off_on:
  assumes "HWC_POWER_MODE_OFF K \<noteq> HWC_POWER_MODE_NORMAL K" "\<forall>log. answer log (fb_open K) = fd" "0 \<le> fd"
  shows "blank_display K answer (HWC_POWER_MODE_NORMAL K) (blank_display K answer (HWC_POWER_MODE_OFF K) log) =
     log @ [fb_open K, FbIoctl fd 0x4611 4, FbClose fd, fb_open K, FbIoctl fd 0x4611 0, FbClose fd]"
  using assms by (simp add: blank_display_opened)

end
