(* ===== verification/Shims.thy ===== *)
theory Shims
  imports Prelude
begin

text \<open>
  The small parts of the device tree: the command \<open>dlopener/dlopen.c\<close>, the white list of
  \<open>include/fd_utils-inl-extra.h\<close> and the stub in
  \<open>libshims/libshim_log.cpp\<close>.
\<close>

section \<open>The library opener\<close>

text \<open>
  The dynamic linker is a parameter: the handle of a library, or nothing, and the text of the
  error. The result is the status and the lines printed.
\<close>

definition opener_main :: "(string \<Rightarrow> nat option) \<Rightarrow> string option \<Rightarrow> string list \<Rightarrow> int \<times> string list" where
  "opener_main dlopen dlerror argv =
     (let status = - EINVAL
      in if length argv \<le> 1 then (status, [''Please specify a module to load!''])
         else
           let path = argv ! 1
           in case dlopen path of
                None \<Rightarrow>
                  (- EINVAL, [''load: module='' @ path, case dlerror of Some err_str \<Rightarrow> err_str | None \<Rightarrow> ''unknown''])
              | Some handle \<Rightarrow> (status, [''load: module='' @ path @ '' '' @ ''Success!'']))"

text \<open>The status is the same for every outcome.\<close>

lemma opener_status: "fst (opener_main dlopen dlerror argv) = - EINVAL"
  by (simp add: opener_main_def Let_def split: option.splits)

definition android_janklog_print :: int where
  "android_janklog_print = 0"

section \<open>The extra white list\<close>

text \<open>Files the zygote may have open when it forks, beyond those of its own list.\<close>

definition PATH_WHITELIST_EXTRA_H :: "string list" where
  "PATH_WHITELIST_EXTRA_H = [''/system/bin/logcat'', ''/cache/logcat.txt'']"

end
