(* ===== verification/HwcLayer.thy ===== *)
theory HwcLayer
  imports Float32 "HOL-Library.Monad_Syntax"
begin

text \<open>
  The description of a layer for the overlay engine of the display, in the patch
  \<open>hwc2onfbadapter-hisi-dss-overlay-fallback.patch\<close> to the composer of \<open>hardware/interfaces\<close>: the
  format of a buffer, read from the words of its handle, and \<open>fillDssLayer\<close>. A result \<open>None\<close> of
  the outer option is undefined behaviour: a word read outside the handle, a difference
  outside \<open>int\<close>, a \<open>float\<close> outside \<open>uint32_t\<close>.
\<close>

unbundle bit_operations_syntax

section \<open>The data\<close>

text \<open>The constants of the headers of the platform are a parameter.\<close>

record hwc_h =
  HAL_PIXEL_FORMAT_RGBA_8888 :: int
  HAL_PIXEL_FORMAT_RGBX_8888 :: int
  HAL_PIXEL_FORMAT_RGB_565 :: int
  HAL_PIXEL_FORMAT_BGRA_8888 :: int
  HAL_PIXEL_FORMAT_YCbCr_422_SP :: int
  HAL_PIXEL_FORMAT_YCrCb_420_SP :: int
  HAL_PIXEL_FORMAT_YV12 :: int
  HWC_TRANSFORM_FLIP_H :: int
  HWC_TRANSFORM_FLIP_V :: int
  HWC_TRANSFORM_ROT_90 :: int
  HWC_TRANSFORM_ROT_180 :: int
  HWC_TRANSFORM_ROT_270 :: int
  HWC2_BLEND_MODE_NONE :: int
  HWC2_BLEND_MODE_PREMULTIPLIED :: int
  HWC2_BLEND_MODE_COVERAGE :: int
  HWC2_COMPOSITION_CLIENT :: int
  HWC2_COMPOSITION_DEVICE :: int

definition kHisiHandleMagic :: int where
  "kHisiHandleMagic = 0x03141592"

definition kHisiMaxLayers :: nat where
  "kHisiMaxLayers = 9"

text \<open>\<open>HisiPixelFormat\<close>.\<close>

definition HISI_FB_PIXEL_FORMAT_RGB_565 :: int where
  "HISI_FB_PIXEL_FORMAT_RGB_565 = 0"

definition HISI_FB_PIXEL_FORMAT_RGBX_8888 :: int where
  "HISI_FB_PIXEL_FORMAT_RGBX_8888 = 5"

definition HISI_FB_PIXEL_FORMAT_RGBA_8888 :: int where
  "HISI_FB_PIXEL_FORMAT_RGBA_8888 = 6"

definition HISI_FB_PIXEL_FORMAT_BGRA_8888 :: int where
  "HISI_FB_PIXEL_FORMAT_BGRA_8888 = 13"

definition HISI_FB_PIXEL_FORMAT_YUV_422_I :: int where
  "HISI_FB_PIXEL_FORMAT_YUV_422_I = 14"

definition HISI_FB_PIXEL_FORMAT_YCbCr_422_SP :: int where
  "HISI_FB_PIXEL_FORMAT_YCbCr_422_SP = 15"

definition HISI_FB_PIXEL_FORMAT_YCbCr_420_SP :: int where
  "HISI_FB_PIXEL_FORMAT_YCbCr_420_SP = 17"

definition HISI_FB_PIXEL_FORMAT_YCrCb_420_SP :: int where
  "HISI_FB_PIXEL_FORMAT_YCrCb_420_SP = 18"

definition HISI_FB_PIXEL_FORMAT_YCbCr_420_P :: int where
  "HISI_FB_PIXEL_FORMAT_YCbCr_420_P = 21"

definition HISI_FB_PIXEL_FORMAT_YCrCb_420_P :: int where
  "HISI_FB_PIXEL_FORMAT_YCrCb_420_P = 22"

lemmas hisi_formats =
  HISI_FB_PIXEL_FORMAT_RGB_565_def HISI_FB_PIXEL_FORMAT_RGBX_8888_def
  HISI_FB_PIXEL_FORMAT_RGBA_8888_def HISI_FB_PIXEL_FORMAT_BGRA_8888_def
  HISI_FB_PIXEL_FORMAT_YUV_422_I_def HISI_FB_PIXEL_FORMAT_YCbCr_422_SP_def
  HISI_FB_PIXEL_FORMAT_YCbCr_420_SP_def HISI_FB_PIXEL_FORMAT_YCrCb_420_SP_def
  HISI_FB_PIXEL_FORMAT_YCbCr_420_P_def HISI_FB_PIXEL_FORMAT_YCrCb_420_P_def

text \<open>\<open>HisiBlendMode\<close>, \<open>HisiTransform\<close>, \<open>HisiChannel\<close>, \<open>HisiScene\<close>, \<open>HisiCapability\<close>.\<close>

definition HISI_FB_BLENDING_NONE :: int where
  "HISI_FB_BLENDING_NONE = 0"

definition HISI_FB_BLENDING_PREMULT :: int where
  "HISI_FB_BLENDING_PREMULT = 1"

definition HISI_FB_BLENDING_COVERAGE :: int where
  "HISI_FB_BLENDING_COVERAGE = 2"

definition HISI_FB_TRANSFORM_NOP :: int where
  "HISI_FB_TRANSFORM_NOP = 0"

definition HISI_FB_TRANSFORM_FLIP_H :: int where
  "HISI_FB_TRANSFORM_FLIP_H = 1"

definition HISI_FB_TRANSFORM_FLIP_V :: int where
  "HISI_FB_TRANSFORM_FLIP_V = 2"

definition HISI_FB_TRANSFORM_ROT_90 :: int where
  "HISI_FB_TRANSFORM_ROT_90 = 4"

definition HISI_FB_TRANSFORM_ROT_180 :: int where
  "HISI_FB_TRANSFORM_ROT_180 = 3"

definition HISI_FB_TRANSFORM_ROT_270 :: int where
  "HISI_FB_TRANSFORM_ROT_270 = 7"

definition DPE0_CHN0 :: int where
  "DPE0_CHN0 = 0"

definition DPE0_CHN3 :: int where
  "DPE0_CHN3 = 3"

definition DSS_SCENE_PDP_ONLINE :: int where
  "DSS_SCENE_PDP_ONLINE = 1"

definition CAP_CSC :: int where
  "CAP_CSC = 64"

definition CAP_SCL :: int where
  "CAP_SCL = 128"

definition CAP_DMA :: int where
  "CAP_DMA = 32"

definition CAP_FB_POST :: int where
  "CAP_FB_POST = 2"

record dss_rect_t =
  rect_x :: int
  rect_y :: int
  rect_w :: int
  rect_h :: int

record dss_img_t =
  img_format :: int
  img_width :: int
  img_height :: int
  img_bpp :: int
  img_stride :: int
  img_uStride :: int
  img_vStride :: int
  img_buf_size :: int
  img_phy_addr :: int
  img_vir_addr :: int
  img_uOffset :: int
  img_vOffset :: int
  img_ptba :: int
  img_ptva :: int
  img_is_tile :: int
  img_mmu_enable :: int
  img_csc_mode :: int
  img_secure_mode :: int
  img_shared_fd :: int
  img_reserved0 :: int

record dss_block_info_t =
  first_tile :: int
  last_tile :: int
  acc_hscl :: int
  h_ratio :: int
  v_ratio :: int
  h_v_order :: int

record dss_layer_t =
  layer_src :: dss_img_t
  layer_src_rect :: dss_rect_t
  layer_src_rect_mask :: dss_rect_t
  layer_dst_rect :: dss_rect_t
  layer_transform :: int
  layer_blending :: int
  layer_glb_alpha :: int
  layer_color :: int
  layer_layer_idx :: int
  layer_chn_idx :: int
  layer_need_cap :: int
  layer_flags :: int
  layer_acquire_fence :: int
  layer_reserved0 :: int
  layer_block_info :: dss_block_info_t

text \<open>What \<open>memset\<close> makes of them.\<close>

definition zero_rect :: dss_rect_t where
  "zero_rect = \<lparr>rect_x = 0, rect_y = 0, rect_w = 0, rect_h = 0\<rparr>"

definition zero_img :: dss_img_t where
  "zero_img =
     \<lparr>img_format = 0, img_width = 0, img_height = 0, img_bpp = 0, img_stride = 0, img_uStride = 0,
      img_vStride = 0, img_buf_size = 0, img_phy_addr = 0, img_vir_addr = 0, img_uOffset = 0,
      img_vOffset = 0, img_ptba = 0, img_ptva = 0, img_is_tile = 0, img_mmu_enable = 0,
      img_csc_mode = 0, img_secure_mode = 0, img_shared_fd = 0, img_reserved0 = 0\<rparr>"

definition zero_layer :: dss_layer_t where
  "zero_layer =
     \<lparr>layer_src = zero_img, layer_src_rect = zero_rect, layer_src_rect_mask = zero_rect,
      layer_dst_rect = zero_rect, layer_transform = 0, layer_blending = 0, layer_glb_alpha = 0,
      layer_color = 0, layer_layer_idx = 0, layer_chn_idx = 0, layer_need_cap = 0, layer_flags = 0,
      layer_acquire_fence = 0, layer_reserved0 = 0,
      layer_block_info = \<lparr>first_tile = 0, last_tile = 0, acc_hscl = 0, h_ratio = 0, v_ratio = 0,
        h_v_order = 0\<rparr>\<rparr>"

text \<open>
  A \<open>native_handle_t\<close>: its \<open>data\<close> is an array of \<open>numFds + numInts\<close> words, at offset 12. A pointer
  to one is \<open>None\<close> if it is null.
\<close>

record native_handle_t =
  numFds :: int
  numInts :: int
  nh_data :: "int list"

type_synonym buffer_handle_t = "native_handle_t option"

record hwc_rect_t =
  rect_left :: int
  rect_top :: int
  rect_right :: int
  rect_bottom :: int

record hwc_frect_t =
  crop_left :: float32
  crop_top :: float32
  crop_right :: float32
  crop_bottom :: float32

section \<open>The format of a buffer\<close>

definition handleWord :: "native_handle_t \<Rightarrow> nat \<Rightarrow> int option" where
  "handleWord h byteOffset =
     (let i = (byteOffset - 12) div 4
      in if i < length (nh_data h) then Some (nh_data h ! i) else None)"

definition isHisiHandle :: "buffer_handle_t \<Rightarrow> bool option" where
  "isHisiHandle handle =
     (case handle of
        None \<Rightarrow> Some False
      | Some h \<Rightarrow>
          if numFds h \<ge> 1 \<and> numInts h \<ge> 48 then
            do { w \<leftarrow> handleWord h 16; Some (to_uint32 w = kHisiHandleMagic) }
          else Some False)"

definition isYuvFormat :: "int \<Rightarrow> bool" where
  "isYuvFormat format \<longleftrightarrow>
     format \<ge> HISI_FB_PIXEL_FORMAT_YUV_422_I \<and> format \<le> HISI_FB_PIXEL_FORMAT_YCrCb_420_P"

text \<open>The format and the bytes per pixel, or nothing where the code returns false.\<close>

definition convertHisiFormat :: "hwc_h \<Rightarrow> int \<Rightarrow> (int \<times> int) option" where
  "convertHisiFormat H halFormat =
     (if halFormat = HAL_PIXEL_FORMAT_RGBA_8888 H then Some (HISI_FB_PIXEL_FORMAT_RGBA_8888, 4)
      else if halFormat = HAL_PIXEL_FORMAT_RGBX_8888 H then Some (HISI_FB_PIXEL_FORMAT_RGBX_8888, 4)
      else if halFormat = HAL_PIXEL_FORMAT_RGB_565 H then Some (HISI_FB_PIXEL_FORMAT_RGB_565, 2)
      else if halFormat = HAL_PIXEL_FORMAT_BGRA_8888 H then Some (HISI_FB_PIXEL_FORMAT_BGRA_8888, 4)
      else if halFormat = HAL_PIXEL_FORMAT_YCbCr_422_SP H
        then Some (HISI_FB_PIXEL_FORMAT_YCbCr_422_SP, 2)
      else if halFormat = HAL_PIXEL_FORMAT_YCrCb_420_SP H
        then Some (HISI_FB_PIXEL_FORMAT_YCrCb_420_SP, 1)
      else if halFormat = 0x100 then Some (HISI_FB_PIXEL_FORMAT_YCbCr_420_SP, 1)
      else if halFormat = 0x101 then Some (HISI_FB_PIXEL_FORMAT_YCbCr_420_P, 1)
      else if halFormat = HAL_PIXEL_FORMAT_YV12 H then Some (HISI_FB_PIXEL_FORMAT_YCrCb_420_P, 1)
      else None)"

definition getHisiFormat :: "hwc_h \<Rightarrow> buffer_handle_t \<Rightarrow> int option option" where
  "getHisiFormat H handle =
     do {
       hisi \<leftarrow> isHisiHandle handle;
       case handle of
         Some h \<Rightarrow>
           if hisi then do { w \<leftarrow> handleWord h 20; Some (map_option fst (convertHisiFormat H w)) }
           else Some None
       | None \<Rightarrow> Some None
     }"

definition mapHwcTransform :: "hwc_h \<Rightarrow> int \<Rightarrow> int" where
  "mapHwcTransform H transform =
     (if transform = HWC_TRANSFORM_FLIP_H H then HISI_FB_TRANSFORM_FLIP_H
      else if transform = HWC_TRANSFORM_FLIP_V H then HISI_FB_TRANSFORM_FLIP_V
      else if transform = HWC_TRANSFORM_ROT_90 H then HISI_FB_TRANSFORM_ROT_90
      else if transform = HWC_TRANSFORM_ROT_180 H then HISI_FB_TRANSFORM_ROT_180
      else if transform = HWC_TRANSFORM_ROT_270 H then HISI_FB_TRANSFORM_ROT_270
      else HISI_FB_TRANSFORM_NOP)"

definition mapHwcBlendMode :: "hwc_h \<Rightarrow> int \<Rightarrow> int" where
  "mapHwcBlendMode H blendMode =
     (if blendMode = HWC2_BLEND_MODE_PREMULTIPLIED H then HISI_FB_BLENDING_PREMULT
      else if blendMode = HWC2_BLEND_MODE_COVERAGE H then HISI_FB_BLENDING_COVERAGE
      else HISI_FB_BLENDING_NONE)"

section \<open>Rectangles\<close>

definition rectIsValid :: "hwc_rect_t \<Rightarrow> bool" where
  "rectIsValid rect \<longleftrightarrow> rect_right rect > rect_left rect \<and> rect_bottom rect > rect_top rect"

text \<open>A difference of two \<open>int\<close>, converted to \<open>uint32_t\<close>.\<close>

definition extent :: "int \<Rightarrow> int \<Rightarrow> int option" where
  "extent a b = (if int32_range (a - b) then Some (to_uint32 (a - b)) else None)"

definition rectWidth :: "hwc_rect_t \<Rightarrow> int option" where
  "rectWidth rect = extent (rect_right rect) (rect_left rect)"

definition rectHeight :: "hwc_rect_t \<Rightarrow> int option" where
  "rectHeight rect = extent (rect_bottom rect) (rect_top rect)"

definition cropIsValid :: "hwc_frect_t \<Rightarrow> bool" where
  "cropIsValid crop \<longleftrightarrow>
     f_less (crop_left crop) (crop_right crop) \<and> f_less (crop_top crop) (crop_bottom crop)"

text \<open>The size of the display, of type \<open>uint32_t\<close>.\<close>

record info =
  info_width :: int
  info_height :: int

definition frameFitsDisplay :: "hwc_rect_t \<Rightarrow> info \<Rightarrow> bool" where
  "frameFitsDisplay rect i \<longleftrightarrow>
     rect_left rect \<ge> 0 \<and> rect_top rect \<ge> 0 \<and>
     rect_right rect \<le> to_int32 (info_width i) \<and> rect_bottom rect \<le> to_int32 (info_height i)"

definition frameArea :: "hwc_rect_t \<Rightarrow> int option" where
  "frameArea rect =
     (if \<not> rectIsValid rect then Some 0
      else do { w \<leftarrow> rectWidth rect; h \<leftarrow> rectHeight rect; Some ((w * h) mod 2 ^ 64) })"

definition roundNonNegative :: "float32 \<Rightarrow> int option" where
  "roundNonNegative value = f_uint32 (f_max (f_int 0) (f_round value))"

section \<open>The layer\<close>

text \<open>The words of the handle that describe the image.\<close>

definition dss_image :: "native_handle_t \<Rightarrow> int \<Rightarrow> int \<Rightarrow> int \<Rightarrow> int \<Rightarrow> dss_img_t option" where
  "dss_image h width height hisiFormat bpp =
     do {
       stride \<leftarrow> handleWord h 32;
       uStride \<leftarrow> handleWord h 100;
       vStride \<leftarrow> handleWord h 104;
       buf_size \<leftarrow> handleWord h 120;
       phy_addr \<leftarrow> handleWord h 96;
       vir_addr \<leftarrow> handleWord h 116;
       uOffset \<leftarrow> handleWord h 108;
       vOffset \<leftarrow> handleWord h 112;
       ptba \<leftarrow> handleWord h 124;
       ptva \<leftarrow> handleWord h 128;
       is_tile \<leftarrow> handleWord h 132;
       shared_fd \<leftarrow> handleWord h 12;
       Some \<lparr>img_format = hisiFormat, img_width = width, img_height = height, img_bpp = bpp,
         img_stride = to_uint32 stride, img_uStride = to_uint32 uStride,
         img_vStride = to_uint32 vStride, img_buf_size = to_uint32 buf_size,
         img_phy_addr = to_uint32 phy_addr, img_vir_addr = to_uint32 vir_addr,
         img_uOffset = to_uint32 uOffset, img_vOffset = to_uint32 vOffset,
         img_ptba = to_uint32 ptba, img_ptva = to_uint32 ptva,
         img_is_tile = c_bool (is_tile = 1), img_mmu_enable = c_bool (to_uint32 phy_addr = 0),
         img_csc_mode = 0, img_secure_mode = 0, img_shared_fd = shared_fd, img_reserved0 = 0\<rparr>
     }"

text \<open>A layer, or nothing where the code returns false.\<close>

definition fillDssLayer :: "hwc_h \<Rightarrow> buffer_handle_t \<Rightarrow> hwc_frect_t \<Rightarrow> hwc_rect_t \<Rightarrow> int \<Rightarrow>
    float32 \<Rightarrow> int \<Rightarrow> int \<Rightarrow> int \<Rightarrow> int \<Rightarrow> dss_layer_t option option" where
  "fillDssLayer H handle sourceCrop displayFrame blendMode planeAlpha transform layerIndex channel needCap =
     do {
       hisi \<leftarrow> isHisiHandle handle;
       case handle of
         None \<Rightarrow> Some None
       | Some h \<Rightarrow>
           if \<not> hisi \<or> \<not> cropIsValid sourceCrop \<or> \<not> rectIsValid displayFrame then Some None
           else do {
             width \<leftarrow> map_option to_uint32 (handleWord h 88);
             height \<leftarrow> map_option to_uint32 (handleWord h 92);
             if width = 0 \<or> height = 0 \<or> f_less (crop_left sourceCrop) (f_int 0) \<or>
                f_less (crop_top sourceCrop) (f_int 0) \<or>
                f_less (f_int width) (crop_right sourceCrop) \<or>
                f_less (f_int height) (crop_bottom sourceCrop)
             then Some None
             else do {
               format \<leftarrow> handleWord h 20;
               case convertHisiFormat H format of
                 None \<Rightarrow> Some None
               | Some (hisiFormat, bpp) \<Rightarrow>
                   do {
                     src \<leftarrow> dss_image h width height hisiFormat bpp;
                     src_x \<leftarrow> roundNonNegative (crop_left sourceCrop);
                     src_y \<leftarrow> roundNonNegative (crop_top sourceCrop);
                     src_w \<leftarrow> roundNonNegative (f_sub (crop_right sourceCrop) (crop_left sourceCrop));
                     src_h \<leftarrow> roundNonNegative (f_sub (crop_bottom sourceCrop) (crop_top sourceCrop));
                     dst_w \<leftarrow> rectWidth displayFrame;
                     dst_h \<leftarrow> rectHeight displayFrame;
                     alpha \<leftarrow> f_uint32 (f_mul (f_max (f_int 0) (f_min (f_int 1) planeAlpha)) (f_int 255));
                     let needCap1 = (if isYuvFormat hisiFormat then needCap OR CAP_CSC else needCap);
                         needCap2 = (if src_w \<noteq> dst_w \<or> src_h \<noteq> dst_h then needCap1 OR CAP_SCL
                                     else needCap1)
                     in Some (Some (zero_layer\<lparr>
                          layer_src := src,
                          layer_src_rect := \<lparr>rect_x = src_x, rect_y = src_y, rect_w = src_w, rect_h = src_h\<rparr>,
                          layer_dst_rect := \<lparr>rect_x = to_uint32 (rect_left displayFrame),
                            rect_y = to_uint32 (rect_top displayFrame), rect_w = dst_w, rect_h = dst_h\<rparr>,
                          layer_transform := mapHwcTransform H transform,
                          layer_blending := mapHwcBlendMode H blendMode,
                          layer_glb_alpha := alpha,
                          layer_layer_idx := layerIndex,
                          layer_chn_idx := channel,
                          layer_need_cap := needCap2,
                          layer_flags := DSS_SCENE_PDP_ONLINE,
                          layer_acquire_fence := - 1\<rparr>))
                   }
             }
           }
     }"

section \<open>Lemmas: the words of a handle\<close>

text \<open>A handle whose array has the length its counts say.\<close>

definition wf_handle :: "native_handle_t \<Rightarrow> bool" where
  "wf_handle h \<longleftrightarrow> int (length (nh_data h)) = numFds h + numInts h"

definition word_le :: "int \<Rightarrow> native_handle_t \<Rightarrow> nat \<Rightarrow> bool" where
  "word_le M h byteOffset =
     (case handleWord h byteOffset of None \<Rightarrow> True | Some w \<Rightarrow> to_uint32 w \<le> M)"

text \<open>What is asked of a buffer: a well-formed handle, of an image of at most \<open>M\<close> pixels a side.\<close>

definition buffer_ok :: "int \<Rightarrow> buffer_handle_t \<Rightarrow> bool" where
  "buffer_ok M handle =
     (case handle of
        None \<Rightarrow> True
      | Some h \<Rightarrow> wf_handle h \<and> word_le M h 88 \<and> word_le M h 92)"

definition frame_ok :: "hwc_rect_t \<Rightarrow> bool" where
  "frame_ok rect \<longleftrightarrow>
     int32_range (rect_right rect - rect_left rect) \<and> int32_range (rect_bottom rect - rect_top rect)"

lemma to_uint32_range: "0 \<le> to_uint32 x" "to_uint32 x < 4294967296"
  by (simp_all add: to_uint32_def)

lemma handleWord_hisi:
  assumes "wf_handle h" "numFds h \<ge> 1" "numInts h \<ge> 48" "byteOffset \<le> 204"
  shows "handleWord h byteOffset = Some (nh_data h ! ((byteOffset - 12) div 4))"
proof -
  have "(byteOffset - 12) div 4 \<le> 48" using assms(4) by simp
  moreover have "48 < length (nh_data h)" using assms(1-3) by (simp add: wf_handle_def)
  ultimately show ?thesis by (simp add: handleWord_def)
qed

lemma isHisiHandle_defined:
  assumes "buffer_ok M handle"
  obtains b where "isHisiHandle handle = Some b"
    "b \<Longrightarrow> \<exists>h. handle = Some h \<and> wf_handle h \<and> numFds h \<ge> 1 \<and> numInts h \<ge> 48"
proof (cases handle)
  case None
  then show ?thesis using that [of False] by (simp add: isHisiHandle_def)
next
  case (Some h)
  with assms have wf: "wf_handle h" by (simp add: buffer_ok_def)
  show ?thesis
  proof (cases "numFds h \<ge> 1 \<and> numInts h \<ge> 48")
    case True
    then show ?thesis
      using that Some wf handleWord_hisi [OF wf, of 16] by (simp add: isHisiHandle_def)
  next
    case False
    then show ?thesis using that [of False] Some by (auto simp: isHisiHandle_def)
  qed
qed

lemma getHisiFormat_defined:
  assumes "buffer_ok M handle"
  shows "\<exists>r. getHisiFormat H handle = Some r"
proof -
  obtain b where b: "isHisiHandle handle = Some b"
    "b \<Longrightarrow> \<exists>h. handle = Some h \<and> wf_handle h \<and> numFds h \<ge> 1 \<and> numInts h \<ge> 48"
    using isHisiHandle_defined [OF assms] by blast
  show ?thesis
  proof (cases b)
    case True
    with b obtain h where "handle = Some h" "wf_handle h" "numFds h \<ge> 1" "numInts h \<ge> 48" by blast
    then show ?thesis using b(1) handleWord_hisi [of h 20] by (simp add: getHisiFormat_def)
  next
    case False
    then show ?thesis using b(1) by (cases handle) (simp_all add: getHisiFormat_def)
  qed
qed

lemma dss_image_defined:
  assumes "wf_handle h" "numFds h \<ge> 1" "numInts h \<ge> 48"
  shows "\<exists>src. dss_image h width height format bpp = Some src \<and> img_format src = format \<and>
    img_width src = width \<and> img_height src = height \<and> img_bpp src = bpp"
  using handleWord_hisi [OF assms] by (simp add: dss_image_def)

section \<open>Lemmas: one side of the source rectangle\<close>

lemma crop_side:
  assumes "f_less l r" "\<not> f_less l (f_int 0)" "\<not> f_less (f_int n) r"
    and "0 \<le> n" "n \<le> N" "representable N" "N \<le> 4294967040"
  shows "\<exists>a b. l = Finite a \<and> r = Finite b \<and> 0 \<le> a \<and> a < b \<and> b \<le> N * 2 ^ 149 \<and>
    roundNonNegative l = Some (pixel a) \<and>
    roundNonNegative (f_sub r l) = Some (pixel (round_at 0 (b - a))) \<and>
    0 \<le> pixel a \<and> pixel a \<le> N \<and>
    0 \<le> pixel (round_at 0 (b - a)) \<and> pixel (round_at 0 (b - a)) \<le> N"
proof -
  obtain m where m: "f_int n = Finite m" "m \<le> N * 2 ^ 149"
    using f_int_bound [OF assms(4-6)] assms(7) by auto
  obtain a b where ab: "l = Finite a" "r = Finite b" "0 \<le> a" "a < b" "b \<le> m"
    using assms(1-3) m(1) by (cases l; cases r) auto
  have b: "b \<le> N * 2 ^ 149" using ab(5) m(2) by simp
  have rep: "representable (N * 2 ^ 149)" using assms(6) by (rule representable_shift)
  have N: "N * 2 ^ 149 < 2 ^ 277" using assms(7) by simp
  have sub: "f_sub r l = Finite (round_at 0 (b - a))" "0 \<le> round_at 0 (b - a)"
    "round_at 0 (b - a) \<le> N * 2 ^ 149"
    using f_result_nonneg [of "b - a" "N * 2 ^ 149" 0, OF _ rep _ N] ab b by simp_all
  note p = pixel_bounds [OF ab(3), of N] pixel_bounds [OF sub(2,3)]
  show ?thesis
    using ab b p sub(1) assms(7)
      f_round_uint32 [OF ab(3)] f_round_uint32 [OF sub(2)]
    by (simp add: roundNonNegative_def)
qed

text \<open>Rounding the offset and the length apart goes at most one pixel beyond the end.\<close>

lemma crop_side_sum:
  assumes "0 \<le> a" "a < b" "b \<le> N * 2 ^ 149" "N \<le> 16777216"
  shows "pixel a + pixel (round_at 0 (b - a)) \<le> N + 1"
proof -
  have "\<bar>2 * (round_at 0 (b - a) - (b - a))\<bar> \<le> 2 ^ 149"
  proof (cases "b - a = 16777216 * 2 ^ 149")
    case True
    have "representable (16777216 * 2 ^ 149)"
      by (rule representable_shift, rule representable_small) simp_all
    from round_at_exact [OF this, of 0] True show ?thesis by simp
  next
    case False
    have "b \<le> 16777216 * 2 ^ 149" using assms(3,4) by simp
    with False assms(1) have "b - a < 16777216 * 2 ^ 149" by linarith
    with assms(2) show ?thesis by (intro round_at_error) simp_all
  qed
  with pixel_error [of a] pixel_error [of "round_at 0 (b - a)"]
  have "2 * ((pixel a + pixel (round_at 0 (b - a))) * 2 ^ 149) \<le> 2 * b + 3 * 2 ^ 149"
    by (simp add: abs_le_iff)
  with assms(3) have "2 * ((pixel a + pixel (round_at 0 (b - a))) * 2 ^ 149) < 2 * (N + 2) * 2 ^ 149"
    by simp
  then show ?thesis by simp
qed

text \<open>A side on pixel borders is exact.\<close>

lemma crop_side_exact:
  assumes "0 \<le> i" "i < j" "j \<le> 16777216"
  shows "pixel (i * 2 ^ 149) = i" "pixel (round_at 0 (j * 2 ^ 149 - i * 2 ^ 149)) = j - i"
proof -
  show "pixel (i * 2 ^ 149) = i" by (rule pixel_exact)
  have "representable ((j - i) * 2 ^ 149)"
    using assms by (intro representable_shift representable_small) simp_all
  from round_at_exact [OF this, of 0]
  have "round_at 0 (j * 2 ^ 149 - i * 2 ^ 149) = (j - i) * 2 ^ 149" by (simp add: left_diff_distrib)
  then show "pixel (round_at 0 (j * 2 ^ 149 - i * 2 ^ 149)) = j - i" by (simp only: pixel_exact)
qed

lemma glb_alpha_defined:
  "\<exists>v. f_uint32 (f_mul (f_max (f_int 0) (f_min (f_int 1) planeAlpha)) (f_int 255)) = Some v \<and>
     0 \<le> v \<and> v \<le> 255"
proof -
  have one: "f_int 1 = Finite (2 ^ 149)" "f_int 255 = Finite (255 * 2 ^ 149)"
    using f_int_exact [of 1] f_int_exact [of 255] by simp_all
  have "\<exists>m. f_max (f_int 0) (f_min (f_int 1) planeAlpha) = Finite m \<and> 0 \<le> m \<and> m \<le> 2 ^ 149"
    by (cases planeAlpha) (auto simp: one f_max_def f_min_def)
  then obtain m where m: "f_max (f_int 0) (f_min (f_int 1) planeAlpha) = Finite m" "0 \<le> m" "m \<le> 2 ^ 149"
    by blast
  have rep: "representable (255 * 2 ^ 149)"
    by (rule representable_shift, rule representable_small) simp_all
  have mul: "f_mul (Finite m) (f_int 255) = Finite (round_at 149 (m * (255 * 2 ^ 149)))"
    "0 \<le> round_at 149 (m * (255 * 2 ^ 149))" "round_at 149 (m * (255 * 2 ^ 149)) \<le> 255 * 2 ^ 149"
    using f_result_nonneg [of "m * (255 * 2 ^ 149)" "255 * 2 ^ 149" 149, OF _ rep] m(2,3)
    by (simp_all add: one)
  have v: "0 \<le> r div 2 ^ 149" "r div 2 ^ 149 \<le> 255" "sgn r * (\<bar>r\<bar> div 2 ^ 149) = r div 2 ^ 149"
    if "0 \<le> r" "r \<le> 255 * 2 ^ 149" for r :: int
    using that zdiv_mono1 [of r "255 * 2 ^ 149" "2 ^ 149"] by (cases "r = 0"; simp)+
  show ?thesis unfolding m(1) mul(1) f_uint32.simps Let_def v(3) [OF mul(2,3)]
    using v(1,2) [OF mul(2,3)] by auto
qed

section \<open>Lemmas: the layer\<close>

lemma extent_defined: "int32_range (a - b) \<Longrightarrow> b < a \<Longrightarrow> extent a b = Some (a - b)"
  by (simp add: extent_def to_uint32_def int32_range_def INT32_MAX_def)

text \<open>The layer for an image of the given size and format, with the numbers \<open>a < b\<close>, \<open>c < d\<close> as
  borders of the crop.\<close>

definition dss_layer_for :: "hwc_h \<Rightarrow> dss_img_t \<Rightarrow> int \<Rightarrow> int \<Rightarrow> int \<Rightarrow> int \<Rightarrow> hwc_rect_t \<Rightarrow> int \<Rightarrow> int \<Rightarrow>
    int \<Rightarrow> int \<Rightarrow> int \<Rightarrow> int \<Rightarrow> dss_layer_t" where
  "dss_layer_for H src a b c d frame blendMode alpha transform layerIndex channel needCap =
     (let w = pixel (round_at 0 (b - a)); h = pixel (round_at 0 (d - c));
          dst_w = rect_right frame - rect_left frame; dst_h = rect_bottom frame - rect_top frame;
          cap1 = (if isYuvFormat (img_format src) then needCap OR CAP_CSC else needCap)
      in zero_layer\<lparr>
           layer_src := src,
           layer_src_rect := \<lparr>rect_x = pixel a, rect_y = pixel c, rect_w = w, rect_h = h\<rparr>,
           layer_dst_rect := \<lparr>rect_x = to_uint32 (rect_left frame), rect_y = to_uint32 (rect_top frame),
             rect_w = dst_w, rect_h = dst_h\<rparr>,
           layer_transform := mapHwcTransform H transform,
           layer_blending := mapHwcBlendMode H blendMode,
           layer_glb_alpha := alpha,
           layer_layer_idx := layerIndex,
           layer_chn_idx := channel,
           layer_need_cap := (if w \<noteq> dst_w \<or> h \<noteq> dst_h then cap1 OR CAP_SCL else cap1),
           layer_flags := DSS_SCENE_PDP_ONLINE,
           layer_acquire_fence := - 1\<rparr>)"

text \<open>What a successful call has read and written.\<close>

inductive fills :: "hwc_h \<Rightarrow> buffer_handle_t \<Rightarrow> hwc_frect_t \<Rightarrow> hwc_rect_t \<Rightarrow> int \<Rightarrow> int \<Rightarrow> int \<Rightarrow> int \<Rightarrow>
    int \<Rightarrow> dss_layer_t \<Rightarrow> bool" where
  filled:
    "wf_handle h \<Longrightarrow> numFds h \<ge> 1 \<Longrightarrow> numInts h \<ge> 48 \<Longrightarrow> rectIsValid frame \<Longrightarrow>
     img_width src = to_uint32 (nh_data h ! 19) \<Longrightarrow> img_height src = to_uint32 (nh_data h ! 20) \<Longrightarrow>
     convertHisiFormat H (nh_data h ! 2) = Some (img_format src, img_bpp src) \<Longrightarrow>
     0 \<le> a \<Longrightarrow> a < b \<Longrightarrow> \<not> f_less (f_int (img_width src)) (Finite b) \<Longrightarrow>
     0 \<le> c \<Longrightarrow> c < d \<Longrightarrow> \<not> f_less (f_int (img_height src)) (Finite d) \<Longrightarrow>
     0 \<le> alpha \<Longrightarrow> alpha \<le> 255 \<Longrightarrow>
     fills H (Some h)
       \<lparr>crop_left = Finite a, crop_top = Finite c, crop_right = Finite b, crop_bottom = Finite d\<rparr>
       frame blendMode transform layerIndex channel needCap
       (dss_layer_for H src a b c d frame blendMode alpha transform layerIndex channel needCap)"

inductive_cases fillsE:
  "fills H handle crop frame blendMode transform layerIndex channel needCap l"

lemma fillDssLayer_defined:
  assumes "buffer_ok 4294967040 handle" "frame_ok frame"
  shows "\<exists>r. fillDssLayer H handle crop frame blendMode planeAlpha transform layerIndex channel needCap = Some r \<and>
    (\<forall>l. r = Some l \<longrightarrow> fills H handle crop frame blendMode transform layerIndex channel needCap l)"
    (is "\<exists>r. ?f = Some r \<and> ?P r")
proof -
  obtain hisi where hisi: "isHisiHandle handle = Some hisi"
    "hisi \<Longrightarrow> \<exists>h. handle = Some h \<and> wf_handle h \<and> numFds h \<ge> 1 \<and> numInts h \<ge> 48"
    using isHisiHandle_defined [OF assms(1)] by blast
  show ?thesis
  proof (cases "hisi \<and> cropIsValid crop \<and> rectIsValid frame")
    case False
    then have "?f = Some None" using hisi(1) by (cases handle) (auto simp: fillDssLayer_def)
    then show ?thesis by simp
  next
    case True
    then obtain h where h: "handle = Some h" "wf_handle h" "numFds h \<ge> 1" "numInts h \<ge> 48"
      using hisi(2) by blast
    note word = handleWord_hisi [OF h(2-4)]
    let ?w = "to_uint32 (nh_data h ! 19)" and ?h = "to_uint32 (nh_data h ! 20)"
    have le: "0 \<le> ?w" "?w \<le> 4294967040" "0 \<le> ?h" "?h \<le> 4294967040"
      using assms(1) h(1) word [of 88] word [of 92]
      by (simp_all add: buffer_ok_def word_le_def to_uint32_range)
    show ?thesis
    proof (cases "?w = 0 \<or> ?h = 0 \<or> f_less (crop_left crop) (f_int 0) \<or> f_less (crop_top crop) (f_int 0) \<or>
        f_less (f_int ?w) (crop_right crop) \<or> f_less (f_int ?h) (crop_bottom crop)")
      case out: True
      have "?f = Some None"
        unfolding fillDssLayer_def using hisi(1) h(1) True word [of 88] word [of 92] out by auto
      then show ?thesis by simp
    next
      case inside: False
      show ?thesis
      proof (cases "convertHisiFormat H (nh_data h ! 2)")
        case None
        then have "?f = Some None"
          unfolding fillDssLayer_def
          using hisi(1) h(1) True word [of 88] word [of 92] word [of 20] inside by auto
        then show ?thesis by simp
      next
        case (Some fb)
        obtain format bpp where fb: "fb = (format, bpp)" by (cases fb)
        obtain src where src: "dss_image h ?w ?h format bpp = Some src" "img_format src = format"
          "img_width src = ?w" "img_height src = ?h" "img_bpp src = bpp"
          using dss_image_defined [OF h(2-4)] by blast
        have rep: "representable 4294967040"
          using representable_shift [OF representable_small, of 16777215 8] by simp
        obtain a b where ab: "crop_left crop = Finite a" "crop_right crop = Finite b" "0 \<le> a" "a < b"
          "roundNonNegative (crop_left crop) = Some (pixel a)"
          "roundNonNegative (f_sub (crop_right crop) (crop_left crop)) = Some (pixel (round_at 0 (b - a)))"
          using crop_side [of "crop_left crop" "crop_right crop" ?w 4294967040] True inside le rep
          by (auto simp: cropIsValid_def)
        obtain c d where cd: "crop_top crop = Finite c" "crop_bottom crop = Finite d" "0 \<le> c" "c < d"
          "roundNonNegative (crop_top crop) = Some (pixel c)"
          "roundNonNegative (f_sub (crop_bottom crop) (crop_top crop)) = Some (pixel (round_at 0 (d - c)))"
          using crop_side [of "crop_top crop" "crop_bottom crop" ?h 4294967040] True inside le rep
          by (auto simp: cropIsValid_def)
        have dst: "rectWidth frame = Some (rect_right frame - rect_left frame)"
          "rectHeight frame = Some (rect_bottom frame - rect_top frame)"
          using True assms(2)
          by (simp_all add: rectWidth_def rectHeight_def frame_ok_def rectIsValid_def extent_defined)
        obtain v where v: "f_uint32 (f_mul (f_max (f_int 0) (f_min (f_int 1) planeAlpha)) (f_int 255)) = Some v"
          "0 \<le> v" "v \<le> 255"
          using glb_alpha_defined by blast
        have "?f = Some (Some (dss_layer_for H src a b c d frame blendMode v transform layerIndex channel needCap))"
          unfolding fillDssLayer_def
          using hisi(1) h(1) True word [of 88] word [of 92] word [of 20] inside Some fb src ab cd dst v
          by (simp add: dss_layer_for_def Let_def)
        moreover have crop: "crop = \<lparr>crop_left = Finite a, crop_top = Finite c, crop_right = Finite b,
            crop_bottom = Finite d\<rparr>"
          using ab(1,2) cd(1,2) by (cases crop) simp
        moreover have "fills H handle crop frame blendMode transform layerIndex channel needCap
            (dss_layer_for H src a b c d frame blendMode v transform layerIndex channel needCap)"
          unfolding h(1) crop
          by (rule filled) (use h(2-4) True src Some fb ab(2-4) cd(2-4) v(2,3) inside in simp_all)
        ultimately show ?thesis by simp
      qed
    qed
  qed
qed

lemma buffer_ok_mono: "buffer_ok M handle \<Longrightarrow> M \<le> N \<Longrightarrow> buffer_ok N handle"
  by (auto simp: buffer_ok_def word_le_def split: option.splits)

text \<open>The two numbers for one side, in an image of at most \<open>2 ^ 24\<close> pixels a side.\<close>

lemma side_in_bounds:
  assumes "0 \<le> a" "a < b" "\<not> f_less (f_int n) (Finite b)" "0 \<le> n" "n \<le> 16777216"
  shows "0 \<le> pixel a" "pixel a \<le> n" "0 \<le> pixel (round_at 0 (b - a))" "pixel (round_at 0 (b - a)) \<le> n"
    "pixel a + pixel (round_at 0 (b - a)) \<le> n + 1"
    "\<And>i j. Finite a = f_int i \<Longrightarrow> Finite b = f_int j \<Longrightarrow> i \<in> {0..16777216} \<Longrightarrow> j \<in> {0..16777216} \<Longrightarrow>
       pixel a = i \<and> pixel (round_at 0 (b - a)) = j - i"
proof -
  have b: "b \<le> n * 2 ^ 149" using assms(3) f_int_exact [OF assms(4,5)] by simp
  have rep: "representable (n * 2 ^ 149)" by (rule representable_shift, rule representable_small [OF assms(4,5)])
  have r: "0 \<le> round_at 0 (b - a)" "round_at 0 (b - a) \<le> n * 2 ^ 149"
    using round_at_nonneg [of "b - a" 0] round_at_le [OF rep, of "b - a" 0] assms(1,2) b by simp_all
  show "0 \<le> pixel a" "pixel a \<le> n" using pixel_bounds [OF assms(1), of n] assms(2) b by simp_all
  show "0 \<le> pixel (round_at 0 (b - a))" "pixel (round_at 0 (b - a)) \<le> n" using pixel_bounds [OF r] by simp_all
  show "pixel a + pixel (round_at 0 (b - a)) \<le> n + 1" by (rule crop_side_sum [OF assms(1,2) b assms(5)])
  fix i j
  assume ij: "Finite a = f_int i" "Finite b = f_int j" "i \<in> {0..16777216}" "j \<in> {0..16777216}"
  then have "a = i * 2 ^ 149" "b = j * 2 ^ 149" using f_int_exact [of i] f_int_exact [of j] by simp_all
  moreover from this assms(2) have "i < j" by simp
  ultimately show "pixel a = i \<and> pixel (round_at 0 (b - a)) = j - i"
    using crop_side_exact [of i j] ij(3,4) by simp
qed

lemma dss_layer_for_simps [simp]:
  "layer_src (dss_layer_for H src a b c d frame bm alpha tr idx chn cap) = src"
  "layer_src_rect (dss_layer_for H src a b c d frame bm alpha tr idx chn cap) =
     \<lparr>rect_x = pixel a, rect_y = pixel c, rect_w = pixel (round_at 0 (b - a)),
      rect_h = pixel (round_at 0 (d - c))\<rparr>"
  "layer_dst_rect (dss_layer_for H src a b c d frame bm alpha tr idx chn cap) =
     \<lparr>rect_x = to_uint32 (rect_left frame), rect_y = to_uint32 (rect_top frame),
      rect_w = rect_right frame - rect_left frame, rect_h = rect_bottom frame - rect_top frame\<rparr>"
  "layer_glb_alpha (dss_layer_for H src a b c d frame bm alpha tr idx chn cap) = alpha"
  "layer_layer_idx (dss_layer_for H src a b c d frame bm alpha tr idx chn cap) = idx"
  "layer_chn_idx (dss_layer_for H src a b c d frame bm alpha tr idx chn cap) = chn"
  "layer_blending (dss_layer_for H src a b c d frame bm alpha tr idx chn cap) = mapHwcBlendMode H bm"
  "layer_transform (dss_layer_for H src a b c d frame bm alpha tr idx chn cap) = mapHwcTransform H tr"
  "layer_flags (dss_layer_for H src a b c d frame bm alpha tr idx chn cap) = DSS_SCENE_PDP_ONLINE"
  "layer_acquire_fence (dss_layer_for H src a b c d frame bm alpha tr idx chn cap) = - 1"
  by (simp_all add: dss_layer_for_def Let_def)

text \<open>The rectangles of a layer and the image it shows.\<close>

definition layer_in_bounds :: "hwc_frect_t \<Rightarrow> hwc_rect_t \<Rightarrow> dss_layer_t \<Rightarrow> bool" where
  "layer_in_bounds crop frame l \<longleftrightarrow>
     (let w = img_width (layer_src l); h = img_height (layer_src l);
          src = layer_src_rect l; dst = layer_dst_rect l
      in 0 \<le> rect_x src \<and> rect_x src \<le> w \<and> 0 \<le> rect_w src \<and> rect_w src \<le> w \<and>
         rect_x src + rect_w src \<le> w + 1 \<and>
         0 \<le> rect_y src \<and> rect_y src \<le> h \<and> 0 \<le> rect_h src \<and> rect_h src \<le> h \<and>
         rect_y src + rect_h src \<le> h + 1 \<and>
         rect_w dst = rect_right frame - rect_left frame \<and>
         rect_h dst = rect_bottom frame - rect_top frame \<and>
         0 \<le> layer_glb_alpha l \<and> layer_glb_alpha l \<le> 255)"

lemma fills_in_bounds:
  assumes "fills H handle crop frame bm tr idx chn cap l" "buffer_ok 16777216 handle"
  shows "layer_in_bounds crop frame l"
    and "crop = \<lparr>crop_left = f_int x, crop_top = f_int y, crop_right = f_int x', crop_bottom = f_int y'\<rparr> \<Longrightarrow>
      {x, y, x', y'} \<subseteq> {0..16777216} \<Longrightarrow>
      layer_src_rect l = \<lparr>rect_x = x, rect_y = y, rect_w = x' - x, rect_h = y' - y\<rparr>"
proof -
  obtain src h a b c d alpha where l:
    "l = dss_layer_for H src a b c d frame bm alpha tr idx chn cap" "handle = Some h"
    "crop = \<lparr>crop_left = Finite a, crop_top = Finite c, crop_right = Finite b, crop_bottom = Finite d\<rparr>"
    "wf_handle h" "numFds h \<ge> 1" "numInts h \<ge> 48"
    "img_width src = to_uint32 (nh_data h ! 19)" "img_height src = to_uint32 (nh_data h ! 20)"
    "0 \<le> a" "a < b" "\<not> f_less (f_int (to_uint32 (nh_data h ! 19))) (Finite b)"
    "0 \<le> c" "c < d" "\<not> f_less (f_int (to_uint32 (nh_data h ! 20))) (Finite d)"
    "0 \<le> alpha" "alpha \<le> 255"
    using assms(1) by (rule fillsE) blast
  have size: "0 \<le> img_width src" "img_width src \<le> 16777216" "0 \<le> img_height src" "img_height src \<le> 16777216"
    using assms(2) l(2,7,8) handleWord_hisi [OF l(4-6), of 88] handleWord_hisi [OF l(4-6), of 92]
    by (simp_all add: buffer_ok_def word_le_def to_uint32_range)
  note x = side_in_bounds [OF l(9,10) l(11) [folded l(7)] size(1,2)]
    and y = side_in_bounds [OF l(12,13) l(14) [folded l(8)] size(3,4)]
  show "layer_in_bounds crop frame l"
    unfolding layer_in_bounds_def Let_def l(1) using x(1-5) y(1-5) l(15,16) by simp
  assume "crop = \<lparr>crop_left = f_int x, crop_top = f_int y, crop_right = f_int x', crop_bottom = f_int y'\<rparr>"
    "{x, y, x', y'} \<subseteq> {0..16777216}"
  with x(6) [of x x'] y(6) [of y y'] l(3)
  show "layer_src_rect l = \<lparr>rect_x = x, rect_y = y, rect_w = x' - x, rect_h = y' - y\<rparr>"
    unfolding l(1) by simp
qed

section \<open>Properties\<close>

text \<open>A handle of the vendor's allocator for a YUV image of 1920 by 1080 pixels.\<close>

definition demo_hwc :: hwc_h where
  "demo_hwc =
     \<lparr>HAL_PIXEL_FORMAT_RGBA_8888 = 1, HAL_PIXEL_FORMAT_RGBX_8888 = 2, HAL_PIXEL_FORMAT_RGB_565 = 4,
      HAL_PIXEL_FORMAT_BGRA_8888 = 5, HAL_PIXEL_FORMAT_YCbCr_422_SP = 16,
      HAL_PIXEL_FORMAT_YCrCb_420_SP = 17, HAL_PIXEL_FORMAT_YV12 = 0x32315659,
      HWC_TRANSFORM_FLIP_H = 1, HWC_TRANSFORM_FLIP_V = 2, HWC_TRANSFORM_ROT_90 = 4,
      HWC_TRANSFORM_ROT_180 = 3, HWC_TRANSFORM_ROT_270 = 7, HWC2_BLEND_MODE_NONE = 1,
      HWC2_BLEND_MODE_PREMULTIPLIED = 2, HWC2_BLEND_MODE_COVERAGE = 3,
      HWC2_COMPOSITION_CLIENT = 1, HWC2_COMPOSITION_DEVICE = 2\<rparr>"

definition demo_handle :: "int \<Rightarrow> native_handle_t" where
  "demo_handle format =
     \<lparr>numFds = 1, numInts = 48,
      nh_data = [0, kHisiHandleMagic, format] @ replicate 16 0 @ [1920, 1080] @ replicate 28 0\<rparr>"

text \<open>A frame whose sides overflow an \<open>int\<close> never becomes a filled layer of the model.\<close>

lemma fillDssLayer_overflow:
  assumes "\<not> frame_ok frame"
  shows "fillDssLayer H handle crop frame blendMode planeAlpha transform layerIndex channel needCap \<noteq> Some (Some l)"
proof -
  have "rectWidth frame = None \<or> rectHeight frame = None"
    using assms by (auto simp: frame_ok_def rectWidth_def rectHeight_def extent_def)
  then show ?thesis
    by (auto simp: fillDssLayer_def Let_def bind_eq_Some_conv split: option.splits prod.splits if_splits)
qed

text \<open>
  C34. \<open>fillDssLayer\<close> is safe: for a null handle or a handle as long as it says, of an image of at
  most \<open>2 ^ 24\<close> pixels a side, and a frame whose width and height are in the range of \<open>int\<close>, it reads
  no word outside the handle and converts no number outside its range, whatever the crop, infinite
  and undefined numbers included. If it fills the layer, then the offset and the size of the source
  rectangle are each within the image and together at most one pixel beyond it; a crop on pixel
  borders is taken as it is, and then is within the image; the target has the size of the frame, and
  the alpha is at most 255. The frame is not checked: with one whose sides are not in that
  range, such as one from \<open>INT_MIN\<close> to \<open>INT_MAX\<close>, the subtraction of its borders overflows, unless an
  earlier test returns false.
\<close>

theorem dss_layer_in_bounds:
  assumes "buffer_ok 16777216 handle"
  shows "(frame_ok frame \<longrightarrow>
      (\<exists>r. fillDssLayer H handle crop frame blendMode planeAlpha transform layerIndex channel needCap = Some r \<and>
        (\<forall>l. r = Some l \<longrightarrow> layer_in_bounds crop frame l \<and>
          (\<forall>x y x' y'. crop = \<lparr>crop_left = f_int x, crop_top = f_int y, crop_right = f_int x', crop_bottom = f_int y'\<rparr> \<and>
               {x, y, x', y'} \<subseteq> {0..16777216} \<longrightarrow>
             layer_src_rect l = \<lparr>rect_x = x, rect_y = y, rect_w = x' - x, rect_h = y' - y\<rparr>)))) \<and>
    (\<not> frame_ok frame \<longrightarrow>
      fillDssLayer H handle crop frame blendMode planeAlpha transform layerIndex channel needCap \<in> {None, Some None})"
proof (intro conjI impI)
  assume frame: "frame_ok frame"
  have "buffer_ok 4294967040 handle" by (rule buffer_ok_mono [OF assms]) simp
  from fillDssLayer_defined [OF this frame] obtain r where
    r: "fillDssLayer H handle crop frame blendMode planeAlpha transform layerIndex channel needCap = Some r"
    "\<And>l. r = Some l \<Longrightarrow> fills H handle crop frame blendMode transform layerIndex channel needCap l"
    by blast
  then show "\<exists>r. fillDssLayer H handle crop frame blendMode planeAlpha transform layerIndex channel needCap = Some r \<and>
        (\<forall>l. r = Some l \<longrightarrow> layer_in_bounds crop frame l \<and>
          (\<forall>x y x' y'. crop = \<lparr>crop_left = f_int x, crop_top = f_int y, crop_right = f_int x', crop_bottom = f_int y'\<rparr> \<and>
               {x, y, x', y'} \<subseteq> {0..16777216} \<longrightarrow>
             layer_src_rect l = \<lparr>rect_x = x, rect_y = y, rect_w = x' - x, rect_h = y' - y\<rparr>))"
    using fills_in_bounds [OF r(2) assms] by (intro exI [of _ r] conjI r(1) allI impI) auto
next
  assume "\<not> frame_ok frame"
  from fillDssLayer_overflow [OF this] show
    "fillDssLayer H handle crop frame blendMode planeAlpha transform layerIndex channel needCap \<in> {None, Some None}"
    by (metis insertCI not_Some_eq)
qed

text \<open>Half a pixel at the left border: the rectangle ends one pixel beyond the image.\<close>

theorem dss_layer_in_bounds_witness:
  "\<exists>l. fillDssLayer demo_hwc (Some (demo_handle 0x101))
      \<lparr>crop_left = Finite (2 ^ 148), crop_top = f_int 0, crop_right = f_int 1920, crop_bottom = f_int 1080\<rparr>
      \<lparr>rect_left = 0, rect_top = 0, rect_right = 1200, rect_bottom = 675\<rparr> 1 (f_int 1) 0 0 DPE0_CHN0 CAP_DMA =
      Some (Some l) \<and> layer_in_bounds
        \<lparr>crop_left = Finite (2 ^ 148), crop_top = f_int 0, crop_right = f_int 1920, crop_bottom = f_int 1080\<rparr>
        \<lparr>rect_left = 0, rect_top = 0, rect_right = 1200, rect_bottom = 675\<rparr> l \<and>
      rect_x (layer_src_rect l) + rect_w (layer_src_rect l) = img_width (layer_src l) + 1"
    (is "\<exists>l. ?f = _ \<and> ?P l \<and> ?Q l")
proof -
  have ok: "buffer_ok 16777216 (Some (demo_handle 0x101))"
    "frame_ok \<lparr>rect_left = 0, rect_top = 0, rect_right = 1200, rect_bottom = 675\<rparr>"
    by code_simp+
  from conjunct1 [OF dss_layer_in_bounds [OF ok(1)], THEN mp, OF ok(2)] obtain r where r: "?f = Some r" "\<And>l. r = Some l \<Longrightarrow> ?P l" by blast
  have "map_option (map_option (\<lambda>l. (rect_x (layer_src_rect l), rect_w (layer_src_rect l), img_width (layer_src l)))) ?f =
      Some (Some (1, 1920, 1920))"
    by code_simp
  then obtain l where "r = Some l" "?Q l" using r(1) by auto
  with r show ?thesis by blast
qed

end
