(* ===== verification/HwcAdapter.thy ===== *)
theory HwcAdapter
  imports HwcLayer "HOL-Library.AList" "HOL-Library.Multiset"
begin

text \<open>
  The class \<open>HWC2OnFbAdapter\<close> as the patch leaves it: the states of the layers, the choice of
  the layer the overlay engine shows (\<open>validateLayers\<close>), and the posting of a frame
  (\<open>postOverlay\<close>, \<open>postBuffer\<close>). The parts of the class that are only in the patched file, outside
  the repository, are not here.
\<close>

section \<open>The state\<close>

record layer_state =
  ls_buffer :: buffer_handle_t
  ls_requestedType :: int
  ls_validatedType :: int
  ls_blendMode :: int
  ls_displayFrame :: hwc_rect_t
  ls_sourceCrop :: hwc_frect_t
  ls_planeAlpha :: float32
  ls_transform :: int
  ls_z :: int

definition new_layer_state :: "hwc_h \<Rightarrow> layer_state" where
  "new_layer_state H =
     \<lparr>ls_buffer = None, ls_requestedType = HWC2_COMPOSITION_CLIENT H,
      ls_validatedType = HWC2_COMPOSITION_CLIENT H, ls_blendMode = HWC2_BLEND_MODE_NONE H,
      ls_displayFrame = \<lparr>rect_left = 0, rect_top = 0, rect_right = 0, rect_bottom = 0\<rparr>,
      ls_sourceCrop = \<lparr>crop_left = f_int 0, crop_top = f_int 0, crop_right = f_int 0,
        crop_bottom = f_int 0\<rparr>,
      ls_planeAlpha = f_int 1, ls_transform = 0, ls_z = 0\<rparr>"

datatype adapter_state = MODIFIED | VALIDATED_WITH_CHANGES | VALIDATED

text \<open>A hash table is the list of its entries in the order of its iteration.\<close>

record adapter =
  mDisplayId :: int
  mState :: adapter_state
  mFbInfo :: info
  mNextLayerId :: int
  mLayers :: "int list"
  mLayerStates :: "(int \<times> layer_state) list"
  mChangedTypes :: "(int \<times> int) list"
  mClearClientTargetLayers :: "int list"
  mBuffer :: buffer_handle_t
  mOverlayEnabled :: bool
  mOverlayDisabledByError :: bool
  mHasOverlayLayer :: bool
  mOverlayUsesClientTarget :: bool
  mOverlayLayer :: int

text \<open>The initial values in the header; those of the first three are set outside the patch.\<close>

definition new_adapter :: "int \<Rightarrow> adapter_state \<Rightarrow> info \<Rightarrow> adapter" where
  "new_adapter displayId st i =
     \<lparr>mDisplayId = displayId, mState = st, mFbInfo = i, mNextLayerId = 0, mLayers = [],
      mLayerStates = [], mChangedTypes = [], mClearClientTargetLayers = [], mBuffer = None,
      mOverlayEnabled = False, mOverlayDisabledByError = False, mHasOverlayLayer = False,
      mOverlayUsesClientTarget = False, mOverlayLayer = 0\<rparr>"

text \<open>
  What is sent to the driver. Of the layer to write back, \<open>wb_layer_info\<close>, the two fences are kept;
  its other members stay zero.
\<close>

record dss_overlay_t =
  layer_infos :: "dss_layer_t list"
  layer_nums :: int
  ov_release_fence :: int
  ovl_flags :: int
  wb_enable :: int
  wb_acquire_fence :: int
  wb_release_fence :: int
  dirty_rect :: dss_rect_t
  hdr_start_addr :: int
  hdr_stride :: int

text \<open>The calls to the system, and what their results are after the calls made so far.\<close>

datatype hwc_call =
    GetProperty
  | OpenFb
  | OnlinePlay dss_overlay_t
  | CloseFb
  | CloseFence int
  | FbPost native_handle_t

type_synonym hwc_log = "hwc_call list"

record hwc_env =
  he_property :: "hwc_log \<Rightarrow> bool"
  he_open :: "hwc_log \<Rightarrow> bool"
  he_ioctl :: "hwc_log \<Rightarrow> dss_overlay_t \<Rightarrow> bool \<times> int"
  he_states :: "(int \<times> layer_state) list \<Rightarrow> (int \<times> layer_state) list"
  he_changed :: "(int \<times> int) list \<Rightarrow> (int \<times> int) list"

section \<open>Layers\<close>

text \<open>An insertion may reorder a hash table: \<open>he_states\<close>, \<open>he_changed\<close>.\<close>

definition addLayer :: "hwc_env \<Rightarrow> hwc_h \<Rightarrow> adapter \<Rightarrow> int \<times> adapter" where
  "addLayer E H a =
     (let newId = (mNextLayerId a + 1) mod 2 ^ 64;
          states = (case map_of (mLayerStates a) newId of
                      None \<Rightarrow> he_states E ((newId, new_layer_state H) # mLayerStates a)
                    | Some _ \<Rightarrow> mLayerStates a)
      in (newId, a\<lparr>mNextLayerId := newId, mLayers := List.insert newId (mLayers a),
                    mLayerStates := states\<rparr>))"

definition removeLayer :: "int \<Rightarrow> adapter \<Rightarrow> bool \<times> adapter" where
  "removeLayer layer a =
     (if layer \<notin> set (mLayers a) then (False, a)
      else
        let a1 = a\<lparr>mLayers := removeAll layer (mLayers a),
                   mLayerStates := AList.delete layer (mLayerStates a),
                   mChangedTypes := AList.delete layer (mChangedTypes a),
                   mClearClientTargetLayers := removeAll layer (mClearClientTargetLayers a)\<rparr>
        in (True, if mHasOverlayLayer a1 \<and> mOverlayLayer a1 = layer
                  then a1\<lparr>mHasOverlayLayer := False, mOverlayUsesClientTarget := False\<rparr> else a1))"

definition hasLayer :: "int \<Rightarrow> adapter \<Rightarrow> bool" where
  "hasLayer layer a = (layer \<in> set (mLayers a))"

text \<open>What the setters share: the state that is found is changed in place.\<close>

definition set_layer :: "(layer_state \<Rightarrow> layer_state) \<Rightarrow> int \<Rightarrow> adapter \<Rightarrow> bool \<times> adapter" where
  "set_layer f layer a =
     (case map_of (mLayerStates a) layer of
        None \<Rightarrow> (False, a)
      | Some st \<Rightarrow> (True, a\<lparr>mLayerStates := AList.update layer (f st) (mLayerStates a)\<rparr>))"

definition setLayerBuffer :: "int \<Rightarrow> buffer_handle_t \<Rightarrow> adapter \<Rightarrow> bool \<times> adapter" where
  "setLayerBuffer layer buffer = set_layer (\<lambda>st. st\<lparr>ls_buffer := buffer\<rparr>) layer"

definition setLayerCompositionType :: "int \<Rightarrow> int \<Rightarrow> adapter \<Rightarrow> bool \<times> adapter" where
  "setLayerCompositionType layer type = set_layer (\<lambda>st. st\<lparr>ls_requestedType := type\<rparr>) layer"

definition setLayerBlendMode :: "int \<Rightarrow> int \<Rightarrow> adapter \<Rightarrow> bool \<times> adapter" where
  "setLayerBlendMode layer mode = set_layer (\<lambda>st. st\<lparr>ls_blendMode := mode\<rparr>) layer"

definition setLayerDisplayFrame :: "int \<Rightarrow> hwc_rect_t \<Rightarrow> adapter \<Rightarrow> bool \<times> adapter" where
  "setLayerDisplayFrame layer frame = set_layer (\<lambda>st. st\<lparr>ls_displayFrame := frame\<rparr>) layer"

definition setLayerPlaneAlpha :: "int \<Rightarrow> float32 \<Rightarrow> adapter \<Rightarrow> bool \<times> adapter" where
  "setLayerPlaneAlpha layer alpha = set_layer (\<lambda>st. st\<lparr>ls_planeAlpha := alpha\<rparr>) layer"

definition setLayerSourceCrop :: "int \<Rightarrow> hwc_frect_t \<Rightarrow> adapter \<Rightarrow> bool \<times> adapter" where
  "setLayerSourceCrop layer crop = set_layer (\<lambda>st. st\<lparr>ls_sourceCrop := crop\<rparr>) layer"

definition setLayerTransform :: "int \<Rightarrow> int \<Rightarrow> adapter \<Rightarrow> bool \<times> adapter" where
  "setLayerTransform layer transform = set_layer (\<lambda>st. st\<lparr>ls_transform := transform\<rparr>) layer"

definition setLayerZOrder :: "int \<Rightarrow> int \<Rightarrow> adapter \<Rightarrow> bool \<times> adapter" where
  "setLayerZOrder layer z = set_layer (\<lambda>st. st\<lparr>ls_z := z\<rparr>) layer"

text \<open>The hooks of the composer that set a state.\<close>

datatype hwc2_error = HWC2_ERROR_NONE | HWC2_ERROR_BAD_DISPLAY | HWC2_ERROR_BAD_LAYER

definition setLayerHook :: "(adapter \<Rightarrow> bool \<times> adapter) \<Rightarrow> int \<Rightarrow> adapter \<Rightarrow> hwc2_error \<times> adapter" where
  "setLayerHook setter display a =
     (if mDisplayId a \<noteq> display then (HWC2_ERROR_BAD_DISPLAY, a)
      else
        let (found, a1) = setter a
        in if \<not> found then (HWC2_ERROR_BAD_LAYER, a1)
           else (HWC2_ERROR_NONE, a1\<lparr>mState := MODIFIED\<rparr>))"

definition setLayerCompositionTypeHook :: "int \<Rightarrow> int \<Rightarrow> int \<Rightarrow> adapter \<Rightarrow> hwc2_error \<times> adapter" where
  "setLayerCompositionTypeHook display layer type = setLayerHook (setLayerCompositionType layer type) display"

definition setLayerBlendModeHook :: "int \<Rightarrow> int \<Rightarrow> int \<Rightarrow> adapter \<Rightarrow> hwc2_error \<times> adapter" where
  "setLayerBlendModeHook display layer mode = setLayerHook (setLayerBlendMode layer mode) display"

definition setLayerDisplayFrameHook :: "int \<Rightarrow> int \<Rightarrow> hwc_rect_t \<Rightarrow> adapter \<Rightarrow> hwc2_error \<times> adapter" where
  "setLayerDisplayFrameHook display layer frame = setLayerHook (setLayerDisplayFrame layer frame) display"

definition setLayerPlaneAlphaHook :: "int \<Rightarrow> int \<Rightarrow> float32 \<Rightarrow> adapter \<Rightarrow> hwc2_error \<times> adapter" where
  "setLayerPlaneAlphaHook display layer alpha = setLayerHook (setLayerPlaneAlpha layer alpha) display"

definition setLayerSourceCropHook :: "int \<Rightarrow> int \<Rightarrow> hwc_frect_t \<Rightarrow> adapter \<Rightarrow> hwc2_error \<times> adapter" where
  "setLayerSourceCropHook display layer crop = setLayerHook (setLayerSourceCrop layer crop) display"

definition setLayerTransformHook :: "int \<Rightarrow> int \<Rightarrow> int \<Rightarrow> adapter \<Rightarrow> hwc2_error \<times> adapter" where
  "setLayerTransformHook display layer transform = setLayerHook (setLayerTransform layer transform) display"

definition setLayerZOrderHook :: "int \<Rightarrow> int \<Rightarrow> int \<Rightarrow> adapter \<Rightarrow> hwc2_error \<times> adapter" where
  "setLayerZOrderHook display layer z = setLayerHook (setLayerZOrder layer z) display"

section \<open>Validation\<close>

text \<open>\<open>0.999f\<close>, the number of the format next to it.\<close>

definition alpha_limit :: float32 where
  "alpha_limit = Finite (16760439 * 2 ^ 125)"

text \<open>Whether a layer passes the tests of the first loop.\<close>

definition overlay_candidate :: "hwc_h \<Rightarrow> info \<Rightarrow> layer_state \<Rightarrow> bool option" where
  "overlay_candidate H i st =
     (if ls_requestedType st \<noteq> HWC2_COMPOSITION_DEVICE H \<or> ls_transform st \<noteq> 0 \<or>
         f_less (ls_planeAlpha st) alpha_limit \<or> \<not> rectIsValid (ls_displayFrame st) \<or>
         \<not> frameFitsDisplay (ls_displayFrame st) i \<or> \<not> cropIsValid (ls_sourceCrop st)
      then Some False
      else do {
        format \<leftarrow> getHisiFormat H (ls_buffer st);
        case format of
          None \<Rightarrow> Some False
        | Some hisiFormat \<Rightarrow>
            if \<not> isYuvFormat hisiFormat then Some False
            else do {
              testLayer \<leftarrow> fillDssLayer H (ls_buffer st) (ls_sourceCrop st) (ls_displayFrame st)
                (HWC2_BLEND_MODE_NONE H) (f_int 1) (ls_transform st) 0 DPE0_CHN0 CAP_DMA;
              Some (testLayer \<noteq> None)
            }
      })"

fun choose_overlay :: "hwc_h \<Rightarrow> info \<Rightarrow> (int \<times> layer_state) list \<Rightarrow> int \<times> int \<Rightarrow> (int \<times> int) option" where
  "choose_overlay H i [] (overlayLayer, overlayArea) = Some (overlayLayer, overlayArea)"
| "choose_overlay H i ((layer, st) # entries) (overlayLayer, overlayArea) =
     do {
       ok \<leftarrow> overlay_candidate H i st;
       if \<not> ok then choose_overlay H i entries (overlayLayer, overlayArea)
       else do {
         area \<leftarrow> frameArea (ls_displayFrame st);
         choose_overlay H i entries (if area > overlayArea then (layer, area) else (overlayLayer, overlayArea))
       }
     }"

definition validated_type :: "hwc_h \<Rightarrow> int \<Rightarrow> int \<Rightarrow> int" where
  "validated_type H overlayLayer layer =
     (if overlayLayer \<noteq> 0 \<and> layer = overlayLayer then HWC2_COMPOSITION_DEVICE H
      else HWC2_COMPOSITION_CLIENT H)"

text \<open>The second loop: the new states, the changed types, and whether a client composes.\<close>

fun assign_types :: "hwc_h \<Rightarrow> int \<Rightarrow> (int \<times> layer_state) list \<Rightarrow>
    (int \<times> layer_state) list \<times> (int \<times> int) list \<times> bool" where
  "assign_types H overlayLayer [] = ([], [], False)"
| "assign_types H overlayLayer ((layer, st) # entries) =
     (let validatedType = validated_type H overlayLayer layer;
          (states, changed, hasClient) = assign_types H overlayLayer entries
      in ((layer, st\<lparr>ls_validatedType := validatedType\<rparr>) # states,
          if ls_requestedType st \<noteq> validatedType then (layer, validatedType) # changed else changed,
          validatedType = HWC2_COMPOSITION_CLIENT H \<or> hasClient))"

text \<open>What follows the first loop: the second one, and the members that are set from it.\<close>

definition adopt_overlay :: "hwc_env \<Rightarrow> hwc_h \<Rightarrow> int \<Rightarrow> adapter \<Rightarrow> adapter" where
  "adopt_overlay E H overlayLayer a =
     (let (states, changed, hasClient) = assign_types H overlayLayer (mLayerStates a);
          a1 = a\<lparr>mLayerStates := states, mChangedTypes := he_changed E changed\<rparr>
      in if overlayLayer \<noteq> 0 then
           a1\<lparr>mHasOverlayLayer := True, mOverlayLayer := overlayLayer,
              mOverlayUsesClientTarget := hasClient,
              mClearClientTargetLayers := (if hasClient then [overlayLayer] else [])\<rparr>
         else
           a1\<lparr>mHasOverlayLayer := False, mOverlayUsesClientTarget := False,
              mClearClientTargetLayers := []\<rparr>)"

definition validateLayers :: "hwc_env \<Rightarrow> hwc_h \<Rightarrow> adapter \<Rightarrow> hwc_log \<Rightarrow>
    ((nat \<times> nat) \<times> adapter \<times> hwc_log) option" where
  "validateLayers E H a io =
     (let enabled = he_property E io;
          disabled = (if \<not> enabled then False else mOverlayDisabledByError a)
      in do {
        (overlayLayer, overlayArea) \<leftarrow>
          (if enabled \<and> \<not> disabled then choose_overlay H (mFbInfo a) (mLayerStates a) (0, 0)
           else Some (0, 0));
        let a1 = adopt_overlay E H overlayLayer
                   (a\<lparr>mOverlayEnabled := enabled, mOverlayDisabledByError := disabled\<rparr>)
        in Some ((length (mChangedTypes a1), length (mClearClientTargetLayers a1)), a1,
                 io @ [GetProperty])
      })"

text \<open>
  What the display hooks copy out: \<open>room\<close> is the size of the caller's arrays, \<open>None\<close> if they are
  null. The request for a layer is a constant of the platform; there are none for the display.
\<close>

definition getChangedCompositionTypes :: "nat option \<Rightarrow> adapter \<Rightarrow> nat \<times> (int \<times> int) list" where
  "getChangedCompositionTypes room a =
     (case room of
        Some n \<Rightarrow>
          let outNumElements = min n (length (mChangedTypes a))
          in (outNumElements, take outNumElements (mChangedTypes a))
      | None \<Rightarrow> (length (mChangedTypes a), []))"

definition getDisplayRequests :: "int \<Rightarrow> nat option \<Rightarrow> adapter \<Rightarrow> int \<times> nat \<times> (int \<times> int) list" where
  "getDisplayRequests CLEAR_CLIENT_TARGET room a =
     (case room of
        Some n \<Rightarrow>
          let outNumElements = min n (length (mClearClientTargetLayers a))
          in (0, outNumElements,
              map (\<lambda>layer. (layer, CLEAR_CLIENT_TARGET)) (take outNumElements (mClearClientTargetLayers a)))
      | None \<Rightarrow> (0, length (mClearClientTargetLayers a), []))"

definition acceptChanges :: "adapter \<Rightarrow> adapter" where
  "acceptChanges a =
     a\<lparr>mLayerStates := map (\<lambda>(layer, st). (layer, st\<lparr>ls_requestedType := ls_validatedType st\<rparr>))
                        (mLayerStates a),
       mChangedTypes := []\<rparr>"

section \<open>Posting a frame\<close>

definition setBuffer :: "buffer_handle_t \<Rightarrow> adapter \<Rightarrow> adapter" where
  "setBuffer buffer a = a\<lparr>mBuffer := buffer\<rparr>"

text \<open>What every failing branch of \<open>postOverlay\<close> does.\<close>

definition overlay_failed :: "adapter \<Rightarrow> adapter" where
  "overlay_failed a =
     a\<lparr>mOverlayDisabledByError := True, mHasOverlayLayer := False, mOverlayUsesClientTarget := False,
       mState := MODIFIED\<rparr>"

definition empty_overlay :: "info \<Rightarrow> dss_overlay_t" where
  "empty_overlay i =
     \<lparr>layer_infos = replicate kHisiMaxLayers zero_layer, layer_nums = 0, ov_release_fence = - 1,
      ovl_flags = DSS_SCENE_PDP_ONLINE, wb_enable = 0, wb_acquire_fence = - 1, wb_release_fence = - 1,
      dirty_rect = \<lparr>rect_x = 0, rect_y = 0, rect_w = info_width i, rect_h = info_height i\<rparr>,
      hdr_start_addr = 0, hdr_stride = 0\<rparr>"

text \<open>From the opening of the frame buffer on; a fence that was returned is closed.\<close>

definition close_fence :: "int \<Rightarrow> hwc_log" where
  "close_fence fence = (if fence \<ge> 0 then [CloseFence fence] else [])"

definition play_overlay :: "hwc_env \<Rightarrow> dss_overlay_t \<Rightarrow> adapter \<Rightarrow> hwc_log \<Rightarrow> bool \<times> adapter \<times> hwc_log" where
  "play_overlay E overlay a io =
     (let io1 = io @ [OpenFb]
      in if \<not> he_open E io then (False, overlay_failed a, io1)
         else
           let (ok, fence) = he_ioctl E io1 overlay;
               io2 = io1 @ [OnlinePlay overlay, CloseFb] @ close_fence fence
           in if \<not> ok then (False, overlay_failed a, io2) else (True, a, io2))"

definition postOverlay :: "hwc_env \<Rightarrow> hwc_h \<Rightarrow> adapter \<Rightarrow> hwc_log \<Rightarrow> (bool \<times> adapter \<times> hwc_log) option" where
  "postOverlay E H a io =
     (if \<not> mHasOverlayLayer a \<or> mOverlayDisabledByError a then Some (False, a, io)
      else
        case map_of (mLayerStates a) (mOverlayLayer a) of
          None \<Rightarrow> Some (False, a, io)
        | Some video \<Rightarrow>
            if mOverlayUsesClientTarget a \<and> mBuffer a = None then Some (False, overlay_failed a, io)
            else do {
              videoLayer \<leftarrow> fillDssLayer H (ls_buffer video) (ls_sourceCrop video) (ls_displayFrame video)
                (HWC2_BLEND_MODE_NONE H) (f_int 1) (ls_transform video) 0 DPE0_CHN0 CAP_DMA;
              case videoLayer of
                None \<Rightarrow> Some (False, overlay_failed a, io)
              | Some l0 \<Rightarrow>
                  let overlay = empty_overlay (mFbInfo a);
                      overlay0 = overlay\<lparr>layer_infos := (layer_infos overlay)[0 := l0]\<rparr>
                  in if mOverlayUsesClientTarget a then
                       do {
                         clientLayer \<leftarrow> fillDssLayer H (mBuffer a)
                           \<lparr>crop_left = f_int 0, crop_top = f_int 0,
                            crop_right = f_int (info_width (mFbInfo a)),
                            crop_bottom = f_int (info_height (mFbInfo a))\<rparr>
                           \<lparr>rect_left = 0, rect_top = 0, rect_right = to_int32 (info_width (mFbInfo a)),
                            rect_bottom = to_int32 (info_height (mFbInfo a))\<rparr>
                           (HWC2_BLEND_MODE_PREMULTIPLIED H) (f_int 1) 0 1 DPE0_CHN3 CAP_FB_POST;
                         case clientLayer of
                           None \<Rightarrow> Some (False, overlay_failed a, io)
                         | Some l1 \<Rightarrow>
                             Some (play_overlay E
                               (overlay0\<lparr>layer_infos := (layer_infos overlay0)[1 := l1], layer_nums := 2\<rparr>) a io)
                       }
                     else Some (play_overlay E (overlay0\<lparr>layer_nums := 1\<rparr>) a io)
            })"

text \<open>
  \<open>postBuffer\<close>, up to the call of the frame buffer's \<open>post\<close>: whether the overlay showed the frame,
  and the buffer that is posted otherwise.
\<close>

definition postBuffer :: "hwc_env \<Rightarrow> hwc_h \<Rightarrow> adapter \<Rightarrow> hwc_log \<Rightarrow> (bool \<times> adapter \<times> hwc_log) option" where
  "postBuffer E H a io =
     do {
       (shown, a1, io1) \<leftarrow> (if mHasOverlayLayer a then postOverlay E H a io else Some (False, a, io));
       if shown then Some (True, a1, io1)
       else Some (False, a1, case mBuffer a1 of Some buffer \<Rightarrow> io1 @ [FbPost buffer] | None \<Rightarrow> io1)
     }"

section \<open>The calls of the composer\<close>

datatype hwc_op =
    AddLayer
  | RemoveLayer int
  | SetBuffer int buffer_handle_t
  | SetCompositionType int int int
  | SetBlendMode int int int
  | SetDisplayFrame int int hwc_rect_t
  | SetPlaneAlpha int int float32
  | SetSourceCrop int int hwc_frect_t
  | SetTransform int int int
  | SetZOrder int int int
  | Validate
  | Accept
  | SetClientTarget buffer_handle_t
  | Post

fun hwc_step :: "hwc_env \<Rightarrow> hwc_h \<Rightarrow> hwc_op \<Rightarrow> adapter \<times> hwc_log \<Rightarrow> (adapter \<times> hwc_log) option" where
  "hwc_step E H AddLayer (a, io) = Some (snd (addLayer E H a), io)"
| "hwc_step E H (RemoveLayer layer) (a, io) = Some (snd (removeLayer layer a), io)"
| "hwc_step E H (SetBuffer layer buffer) (a, io) = Some (snd (setLayerBuffer layer buffer a), io)"
| "hwc_step E H (SetCompositionType display layer type) (a, io) =
     Some (snd (setLayerCompositionTypeHook display layer type a), io)"
| "hwc_step E H (SetBlendMode display layer mode) (a, io) =
     Some (snd (setLayerBlendModeHook display layer mode a), io)"
| "hwc_step E H (SetDisplayFrame display layer frame) (a, io) =
     Some (snd (setLayerDisplayFrameHook display layer frame a), io)"
| "hwc_step E H (SetPlaneAlpha display layer alpha) (a, io) =
     Some (snd (setLayerPlaneAlphaHook display layer alpha a), io)"
| "hwc_step E H (SetSourceCrop display layer crop) (a, io) =
     Some (snd (setLayerSourceCropHook display layer crop a), io)"
| "hwc_step E H (SetTransform display layer transform) (a, io) =
     Some (snd (setLayerTransformHook display layer transform a), io)"
| "hwc_step E H (SetZOrder display layer z) (a, io) = Some (snd (setLayerZOrderHook display layer z a), io)"
| "hwc_step E H Validate (a, io) = map_option snd (validateLayers E H a io)"
| "hwc_step E H Accept (a, io) = Some (acceptChanges a, io)"
| "hwc_step E H (SetClientTarget buffer) (a, io) = Some (setBuffer buffer a, io)"
| "hwc_step E H Post (a, io) = map_option snd (postBuffer E H a io)"

fun hwc_run :: "hwc_env \<Rightarrow> hwc_h \<Rightarrow> hwc_op list \<Rightarrow> adapter \<times> hwc_log \<Rightarrow> (adapter \<times> hwc_log) option" where
  "hwc_run E H [] s = Some s"
| "hwc_run E H (op # ops) s =
     (case hwc_step E H op s of None \<Rightarrow> None | Some s' \<Rightarrow> hwc_run E H ops s')"

section \<open>Well-formed states\<close>

text \<open>A hash table keeps its entries when it is reordered.\<close>

definition hash_tables_ok :: "hwc_env \<Rightarrow> bool" where
  "hash_tables_ok E \<longleftrightarrow>
     (\<forall>xs. mset (he_states E xs) = mset xs) \<and> (\<forall>xs. mset (he_changed E xs) = mset xs)"

definition adapter_inv :: "adapter \<Rightarrow> bool" where
  "adapter_inv a \<longleftrightarrow>
     distinct (map fst (mLayerStates a)) \<and> set (mLayers a) = fst ` set (mLayerStates a) \<and>
     list_all (\<lambda>l. 1 \<le> l \<and> l \<le> mNextLayerId a) (mLayers a) \<and> 0 \<le> mNextLayerId a \<and>
     distinct (map fst (mChangedTypes a)) \<and> fst ` set (mChangedTypes a) \<subseteq> set (mLayers a) \<and>
     distinct (mClearClientTargetLayers a) \<and> set (mClearClientTargetLayers a) \<subseteq> set (mLayers a) \<and>
     (mHasOverlayLayer a \<longrightarrow>
        mOverlayLayer a \<in> set (mLayers a) \<and> mOverlayEnabled a \<and> \<not> mOverlayDisabledByError a) \<and>
     (mOverlayUsesClientTarget a \<longrightarrow> mHasOverlayLayer a)"

definition state_ok :: "layer_state \<Rightarrow> bool" where
  "state_ok st \<longleftrightarrow> buffer_ok 4294967040 (ls_buffer st) \<and> frame_ok (ls_displayFrame st)"

text \<open>What the client has given to the adapter is well formed.\<close>

definition given_ok :: "adapter \<Rightarrow> bool" where
  "given_ok a \<longleftrightarrow>
     list_all (\<lambda>(layer, st). state_ok st) (mLayerStates a) \<and> buffer_ok 4294967040 (mBuffer a)"

fun op_ok :: "hwc_op \<Rightarrow> bool" where
  "op_ok (SetBuffer layer buffer) = buffer_ok 4294967040 buffer"
| "op_ok (SetDisplayFrame display layer frame) = frame_ok frame"
| "op_ok (SetClientTarget buffer) = buffer_ok 4294967040 buffer"
| "op_ok op = True"

section \<open>Lemmas: the operations on layers\<close>

lemma hash_tables_okD:
  assumes "hash_tables_ok E"
  shows "set (he_states E xs) = set xs" "distinct (map fst (he_states E xs)) = distinct (map fst xs)"
    "set (he_changed E ys) = set ys" "distinct (map fst (he_changed E ys)) = distinct (map fst ys)"
    "length (he_changed E ys) = length ys"
proof -
  have m: "mset (he_states E xs) = mset xs" "mset (he_changed E ys) = mset ys"
    using assms by (simp_all add: hash_tables_ok_def)
  show "set (he_states E xs) = set xs" "set (he_changed E ys) = set ys"
    using m by (metis mset_eq_setD)+
  show "distinct (map fst (he_states E xs)) = distinct (map fst xs)"
    "distinct (map fst (he_changed E ys)) = distinct (map fst ys)"
    using m by (metis mset_map mset_eq_imp_distinct_iff)+
  show "length (he_changed E ys) = length ys" using m by (metis mset_eq_length)
qed

lemma set_AList_update:
  "set (AList.update k v al) \<subseteq> insert (k, v) (set al)"
  by (induction al) auto

lemma map_fst_AList_update:
  "map_of al k = Some v' \<Longrightarrow> map fst (AList.update k v al) = map fst al"
  by (induction al) (auto split: if_splits)

lemma set_layer_keys:
  "map fst (mLayerStates (snd (set_layer f layer a))) = map fst (mLayerStates a)"
  by (simp add: set_layer_def map_fst_AList_update split: option.splits)

lemma set_layer_frame:
  "\<exists>states. snd (set_layer f layer a) = a\<lparr>mLayerStates := states\<rparr> \<and> map fst states = map fst (mLayerStates a)"
  using set_layer_keys [of f layer a] by (auto simp: set_layer_def split: option.splits intro: exI [of _ "mLayerStates a"])

lemma adapter_inv_alt:
  "adapter_inv a \<longleftrightarrow>
     (let keys = map fst (mLayerStates a); changed = map fst (mChangedTypes a);
          layers = set (mLayers a); clear = mClearClientTargetLayers a
      in distinct keys \<and> layers = set keys \<and> (\<forall>l \<in> layers. 1 \<le> l \<and> l \<le> mNextLayerId a) \<and>
         0 \<le> mNextLayerId a \<and> distinct changed \<and> set changed \<subseteq> layers \<and> distinct clear \<and>
         set clear \<subseteq> layers \<and>
         (mHasOverlayLayer a \<longrightarrow>
            mOverlayLayer a \<in> layers \<and> mOverlayEnabled a \<and> \<not> mOverlayDisabledByError a) \<and>
         (mOverlayUsesClientTarget a \<longrightarrow> mHasOverlayLayer a))"
  by (simp add: adapter_inv_def list_all_iff Let_def)

lemma adapter_inv_keys:
  assumes "adapter_inv a" "map fst states = map fst (mLayerStates a)"
  shows "adapter_inv (a\<lparr>mLayerStates := states\<rparr>)"
proof -
  have "fst ` set states = fst ` set (mLayerStates a)" using assms(2) by (metis set_map)
  with assms show ?thesis by (auto simp: adapter_inv_alt Let_def)
qed

lemma adapter_inv_set_layer: "adapter_inv a \<Longrightarrow> adapter_inv (snd (set_layer f layer a))"
proof -
  assume a: "adapter_inv a"
  obtain states where "snd (set_layer f layer a) = a\<lparr>mLayerStates := states\<rparr>"
    "map fst states = map fst (mLayerStates a)"
    using set_layer_frame by blast
  with adapter_inv_keys [OF a] show ?thesis by simp
qed

lemma given_ok_set_layer:
  assumes "given_ok a" "\<And>st. state_ok st \<Longrightarrow> state_ok (f st)"
  shows "given_ok (snd (set_layer f layer a))"
proof (cases "map_of (mLayerStates a) layer")
  case None
  with assms show ?thesis by (simp add: set_layer_def)
next
  case (Some st)
  then have "state_ok st" using assms(1) by (auto simp: given_ok_def list_all_iff dest: map_of_SomeD)
  then have "state_ok (f st)" by (rule assms(2))
  with Some assms(1) show ?thesis
    using set_AList_update [of layer "f st" "mLayerStates a"]
    by (fastforce simp: set_layer_def given_ok_def list_all_iff)
qed

lemma setLayerHook_result:
  "snd (setLayerHook (set_layer f layer) display a) = a \<or>
   snd (setLayerHook (set_layer f layer) display a) = (snd (set_layer f layer a))\<lparr>mState := MODIFIED\<rparr>"
  by (auto simp: setLayerHook_def set_layer_def split: option.splits)

lemma adapter_inv_state [simp]: "adapter_inv (a\<lparr>mState := st\<rparr>) = adapter_inv a"
  by (simp add: adapter_inv_def)

lemma given_ok_state [simp]: "given_ok (a\<lparr>mState := st\<rparr>) = given_ok a"
  by (simp add: given_ok_def)

lemma setLayerHook_inv:
  "adapter_inv a \<Longrightarrow> adapter_inv (snd (setLayerHook (set_layer f layer) display a))"
  using setLayerHook_result [of f layer display a] adapter_inv_set_layer [of a f layer] by auto

lemma setLayerHook_given:
  "given_ok a \<Longrightarrow> (\<And>st. state_ok st \<Longrightarrow> state_ok (f st)) \<Longrightarrow>
     given_ok (snd (setLayerHook (set_layer f layer) display a))"
  using setLayerHook_result [of f layer display a] given_ok_set_layer [of a f layer] by auto

lemma addLayer_inv:
  assumes "adapter_inv a" "mNextLayerId a + 1 < 2 ^ 64" "hash_tables_ok E"
  shows "fst (addLayer E H a) = mNextLayerId a + 1" "fst (addLayer E H a) \<notin> set (mLayers a)"
    "adapter_inv (snd (addLayer E H a))" "mNextLayerId (snd (addLayer E H a)) = mNextLayerId a + 1"
proof -
  let ?n = "mNextLayerId a + 1"
  have n: "?n mod 18446744073709551616 = ?n" using assms(1,2) by (simp add: adapter_inv_def)
  have old: "\<forall>l \<in> set (mLayers a). l \<le> mNextLayerId a"
    using assms(1) by (simp add: adapter_inv_def list_all_iff)
  then have fresh: "?n \<notin> set (mLayers a)" by force
  have le: "l \<le> ?n" if "(l, st) \<in> set (mLayerStates a)" for l st
    using that old assms(1) by (fastforce simp: adapter_inv_def)
  let ?states = "he_states E ((?n, new_layer_state H) # mLayerStates a)"
  have keys_set: "set (map fst ?states) = insert ?n (set (map fst (mLayerStates a)))"
    by (simp add: hash_tables_okD [OF assms(3)])
  have keys: "distinct (map fst ?states)"
    using fresh assms(1) by (simp add: hash_tables_okD [OF assms(3)] adapter_inv_def)
  have "map_of (mLayerStates a) ?n = None"
    using fresh assms(1) by (simp add: adapter_inv_def map_of_eq_None_iff)
  then have eq: "addLayer E H a = (?n, a\<lparr>mNextLayerId := ?n, mLayers := List.insert ?n (mLayers a),
      mLayerStates := he_states E ((?n, new_layer_state H) # mLayerStates a)\<rparr>)"
    by (simp add: addLayer_def n Let_def)
  show "fst (addLayer E H a) = ?n" "fst (addLayer E H a) \<notin> set (mLayers a)"
    "mNextLayerId (snd (addLayer E H a)) = ?n"
    using fresh by (simp_all add: eq)
  show "adapter_inv (snd (addLayer E H a))"
    using assms(1) keys unfolding adapter_inv_alt eq snd_conv Let_def
    by (simp add: hash_tables_okD [OF assms(3)] keys_set) (auto simp: fresh dest: le)
qed

lemma state_ok_new: "state_ok (new_layer_state H)"
  by (simp add: state_ok_def new_layer_state_def buffer_ok_def frame_ok_def int32_range_def INT32_MIN_def INT32_MAX_def)

lemma addLayer_given: "given_ok a \<Longrightarrow> hash_tables_ok E \<Longrightarrow> given_ok (snd (addLayer E H a))"
  by (auto simp: addLayer_def given_ok_def hash_tables_okD state_ok_new Let_def list_all_iff
      split: option.splits)

lemma AList_delete_keys: "map fst (AList.delete k al) = removeAll k (map fst al)"
  by (induction al) auto

lemma removeLayer_inv:
  assumes "adapter_inv a"
  shows "adapter_inv (snd (removeLayer layer a))"
proof (cases "mHasOverlayLayer a \<and> mOverlayLayer a = layer")
  case True
  with assms show ?thesis
    by (simp add: adapter_inv_alt removeLayer_def Let_def AList_delete_keys distinct_removeAll del: set_map) blast
next
  case False
  with assms show ?thesis
    by (simp add: adapter_inv_alt removeLayer_def Let_def AList_delete_keys distinct_removeAll del: set_map) blast
qed

lemma removeLayer_given: "given_ok a \<Longrightarrow> given_ok (snd (removeLayer layer a))"
  by (auto simp: removeLayer_def given_ok_def AList.delete_eq Let_def list_all_iff)

section \<open>Lemmas: validation\<close>

lemma assign_types_result:
  "assign_types H v entries =
     (map (\<lambda>(l, st). (l, st\<lparr>ls_validatedType := validated_type H v l\<rparr>)) entries,
      map (\<lambda>(l, st). (l, validated_type H v l))
        (filter (\<lambda>(l, st). ls_requestedType st \<noteq> validated_type H v l) entries),
      \<exists>(l, st) \<in> set entries. validated_type H v l = HWC2_COMPOSITION_CLIENT H)"
  by (induction entries) (auto simp: Let_def)

text \<open>The tests of the first loop have a result, and a candidate has an area.\<close>

lemma overlay_candidate_defined:
  assumes "state_ok st"
  shows "\<exists>b. overlay_candidate H i st = Some b"
proof -
  from assms have ok: "buffer_ok 4294967040 (ls_buffer st)" "frame_ok (ls_displayFrame st)"
    by (simp_all add: state_ok_def)
  obtain f where "getHisiFormat H (ls_buffer st) = Some f" using getHisiFormat_defined [OF ok(1)] by blast
  moreover obtain r where "fillDssLayer H (ls_buffer st) (ls_sourceCrop st) (ls_displayFrame st)
      (HWC2_BLEND_MODE_NONE H) (f_int 1) (ls_transform st) 0 DPE0_CHN0 CAP_DMA = Some r"
    using fillDssLayer_defined [OF ok] by blast
  ultimately show ?thesis by (cases f) (auto simp: overlay_candidate_def)
qed

definition is_candidate :: "hwc_h \<Rightarrow> info \<Rightarrow> layer_state \<Rightarrow> bool" where
  "is_candidate H i st \<longleftrightarrow> overlay_candidate H i st = Some True"

definition area_of :: "layer_state \<Rightarrow> int" where
  "area_of st = (let f = ls_displayFrame st
                 in (rect_right f - rect_left f) * (rect_bottom f - rect_top f))"

lemma is_candidateD:
  assumes "is_candidate H i st"
  shows "ls_requestedType st = HWC2_COMPOSITION_DEVICE H" "rectIsValid (ls_displayFrame st)"
    "frameFitsDisplay (ls_displayFrame st) i"
  using assms by (auto simp: is_candidate_def overlay_candidate_def split: if_splits)

lemma candidate_area:
  assumes "is_candidate H i st"
  shows "frameArea (ls_displayFrame st) = Some (area_of st)" "0 < area_of st"
proof -
  let ?f = "ls_displayFrame st"
  have v: "rectIsValid ?f" "frameFitsDisplay ?f i" using is_candidateD [OF assms] by simp_all
  then have r: "0 < rect_right ?f - rect_left ?f" "0 < rect_bottom ?f - rect_top ?f"
    "rect_right ?f - rect_left ?f < 2147483648" "rect_bottom ?f - rect_top ?f < 2147483648"
    using to_int32_range [of "info_width i"] to_int32_range [of "info_height i"]
    by (simp_all add: rectIsValid_def frameFitsDisplay_def int32_range_def INT32_MAX_def)
  then have e: "rectWidth ?f = Some (rect_right ?f - rect_left ?f)" "rectHeight ?f = Some (rect_bottom ?f - rect_top ?f)"
    by (simp_all add: rectWidth_def rectHeight_def extent_defined int32_range_def INT32_MAX_def INT32_MIN_def)
  show pos: "0 < area_of st" using r by (simp add: area_of_def Let_def)
  have "area_of st < 2147483648 * 2147483648"
    unfolding area_of_def Let_def using r by (intro mult_strict_mono) simp_all
  then show "frameArea ?f = Some (area_of st)"
    using e v(1) pos by (simp add: frameArea_def area_of_def Let_def)
qed

text \<open>The first loop: the first of the largest candidates, or what there was before.\<close>

lemma choose_overlay_result:
  assumes "choose_overlay H i entries (v, area) = Some (v', area')"
  shows "((v', area') = (v, area) \<or> (\<exists>st. (v', st) \<in> set entries \<and> is_candidate H i st \<and> area' = area_of st)) \<and>
    area \<le> area' \<and> (\<forall>(l, st) \<in> set entries. is_candidate H i st \<longrightarrow> area_of st \<le> area')"
  using assms
proof (induction entries arbitrary: v area)
  case (Cons e entries)
  obtain l st where e: "e = (l, st)" by (cases e)
  obtain ok where ok: "overlay_candidate H i st = Some ok"
    using Cons.prems e by (auto split: bind_splits)
  show ?case
  proof (cases ok)
    case False
    with Cons.prems e ok have "choose_overlay H i entries (v, area) = Some (v', area')" by simp
    from Cons.IH [OF this] False ok e show ?thesis by (auto simp: is_candidate_def)
  next
    case True
    with ok have c: "is_candidate H i st" by (simp add: is_candidate_def)
    define p where "p = (if area < area_of st then (l, area_of st) else (v, area))"
    have "choose_overlay H i entries p = Some (v', area')"
      using Cons.prems e ok True candidate_area(1) [OF c] by (simp add: p_def)
    then show ?thesis
      using Cons.IH [of "fst p" "snd p"] c e by (auto simp: p_def split: if_splits)
  qed
qed simp

lemma choose_overlay_defined:
  assumes "list_all (\<lambda>(l, st). state_ok st) entries"
  shows "\<exists>r. choose_overlay H i entries p = Some r"
  using assms
proof (induction entries arbitrary: p)
  case Nil
  then show ?case by (cases p) simp
next
  case (Cons e entries)
  obtain l st v area where e: "e = (l, st)" "p = (v, area)" by (cases e, cases p)
  obtain ok where ok: "overlay_candidate H i st = Some ok"
    using overlay_candidate_defined Cons.prems e by fastforce
  show ?case
  proof (cases ok)
    case True
    with ok have "frameArea (ls_displayFrame st) = Some (area_of st)"
      by (intro candidate_area(1) [of H i]) (simp add: is_candidate_def)
    with True ok e Cons show ?thesis by simp
  qed (use ok e Cons in simp)
qed

end
