(* ===== verification/HwcOverlay.thy ===== *)
theory HwcOverlay
  imports HwcAdapter
begin

text \<open>
  What the overlay path of \<open>HWC2OnFbAdapter\<close> guarantees: the adapter is well formed after any
  sequence of the composer's calls, the validation gives the overlay to the largest candidate, and
  a frame is posted through the overlay engine or through the frame buffer, after an error only
  through the frame buffer.
\<close>

section \<open>Validation\<close>

lemma adopt_overlay_frame [simp]:
  "mOverlayEnabled (adopt_overlay E H v a) = mOverlayEnabled a"
  "mOverlayDisabledByError (adopt_overlay E H v a) = mOverlayDisabledByError a"
  "mNextLayerId (adopt_overlay E H v a) = mNextLayerId a" "mLayers (adopt_overlay E H v a) = mLayers a"
  "mFbInfo (adopt_overlay E H v a) = mFbInfo a" "mBuffer (adopt_overlay E H v a) = mBuffer a"
  "mHasOverlayLayer (adopt_overlay E H v a) = (v \<noteq> 0)"
  "mOverlayLayer (adopt_overlay E H v a) = (if v \<noteq> 0 then v else mOverlayLayer a)"
  by (simp_all add: adopt_overlay_def Let_def split: prod.splits)

text \<open>The entries whose type changes.\<close>

definition type_changes :: "hwc_h \<Rightarrow> int \<Rightarrow> (int \<times> layer_state) list \<Rightarrow> (int \<times> int) list" where
  "type_changes H v entries =
     map (\<lambda>(l, st). (l, validated_type H v l))
       (filter (\<lambda>(l, st). ls_requestedType st \<noteq> validated_type H v l) entries)"

lemma adopt_overlay_data:
  "mLayerStates (adopt_overlay E H v a) =
     map (\<lambda>(l, st). (l, st\<lparr>ls_validatedType := validated_type H v l\<rparr>)) (mLayerStates a)"
  "mChangedTypes (adopt_overlay E H v a) = he_changed E (type_changes H v (mLayerStates a))"
  "mOverlayUsesClientTarget (adopt_overlay E H v a) \<longleftrightarrow>
     v \<noteq> 0 \<and> (\<exists>(l, st) \<in> set (mLayerStates a). validated_type H v l = HWC2_COMPOSITION_CLIENT H)"
  "mClearClientTargetLayers (adopt_overlay E H v a) =
     (if mOverlayUsesClientTarget (adopt_overlay E H v a) then [v] else [])"
  by (simp_all add: adopt_overlay_def assign_types_result type_changes_def Let_def)

lemma type_changes_keys:
  "set (map fst (type_changes H v entries)) \<subseteq> set (map fst entries)"
  "distinct (map fst entries) \<Longrightarrow> distinct (map fst (type_changes H v entries))"
  by (induction entries) (force simp: type_changes_def split: if_splits)+

lemma adopt_overlay_inv:
  assumes "adapter_inv a" "hash_tables_ok E"
    "v \<noteq> 0 \<Longrightarrow> v \<in> set (mLayers a) \<and> mOverlayEnabled a \<and> \<not> mOverlayDisabledByError a"
  shows "adapter_inv (adopt_overlay E H v a)"
proof -
  have keys: "map fst (mLayerStates (adopt_overlay E H v a)) = map fst (mLayerStates a)"
    by (simp add: adopt_overlay_data case_prod_beta comp_def)
  then have keys': "fst ` set (mLayerStates (adopt_overlay E H v a)) = fst ` set (mLayerStates a)"
    by (metis set_map)
  note changed = type_changes_keys [where H = H and v = v and entries = "mLayerStates a"]
  show ?thesis
    using assms(1,3) changed hash_tables_okD [OF assms(2)]
    unfolding adapter_inv_alt Let_def keys adopt_overlay_frame
    by (cases "v = 0") (simp_all add: adopt_overlay_data)
qed

lemma adopt_overlay_given: "given_ok a \<Longrightarrow> given_ok (adopt_overlay E H v a)"
  by (auto simp: given_ok_def adopt_overlay_data list_all_iff state_ok_def)

text \<open>The layer that is adopted, and the result.\<close>

lemma validateLayers_result:
  assumes "given_ok a"
  obtains v area en dis where
    "en = he_property E io" "dis = (en \<and> mOverlayDisabledByError a)"
    "validateLayers E H a io =
       (let a1 = adopt_overlay E H v (a\<lparr>mOverlayEnabled := en, mOverlayDisabledByError := dis\<rparr>)
        in Some ((length (mChangedTypes a1), length (mClearClientTargetLayers a1)), a1, io @ [GetProperty]))"
    "en \<and> \<not> dis \<Longrightarrow> choose_overlay H (mFbInfo a) (mLayerStates a) (0, 0) = Some (v, area)"
    "\<not> (en \<and> \<not> dis) \<Longrightarrow> v = 0"
proof -
  let ?en = "he_property E io"
  let ?dis = "?en \<and> mOverlayDisabledByError a"
  obtain r where "choose_overlay H (mFbInfo a) (mLayerStates a) (0, 0) = Some r"
    using choose_overlay_defined assms unfolding given_ok_def by blast
  then obtain v area where choice: "(if ?en \<and> \<not> ?dis then choose_overlay H (mFbInfo a) (mLayerStates a) (0, 0)
      else Some (0, 0)) = Some (v, area)"
    by (cases "?en \<and> \<not> ?dis") (auto, metis surj_pair)
  show thesis
    by (rule that [of ?en ?dis v area]) (use choice in \<open>auto simp: validateLayers_def Let_def split: if_splits\<close>)
qed

lemma validateLayers_inv:
  assumes "adapter_inv a" "given_ok a" "hash_tables_ok E"
  shows "\<exists>n a'. validateLayers E H a io = Some (n, a', io @ [GetProperty]) \<and>
    adapter_inv a' \<and> given_ok a' \<and> mNextLayerId a' = mNextLayerId a"
proof -
  obtain v area en dis where r: "validateLayers E H a io =
       (let a1 = adopt_overlay E H v (a\<lparr>mOverlayEnabled := en, mOverlayDisabledByError := dis\<rparr>)
        in Some ((length (mChangedTypes a1), length (mClearClientTargetLayers a1)), a1, io @ [GetProperty]))"
    "en \<and> \<not> dis \<Longrightarrow> choose_overlay H (mFbInfo a) (mLayerStates a) (0, 0) = Some (v, area)"
    "\<not> (en \<and> \<not> dis) \<Longrightarrow> v = 0" "dis = (en \<and> mOverlayDisabledByError a)"
    using validateLayers_result [OF assms(2), of E io H] by metis
  let ?a = "a\<lparr>mOverlayEnabled := en, mOverlayDisabledByError := dis,
    mHasOverlayLayer := False, mOverlayUsesClientTarget := False\<rparr>"
  have eq: "adopt_overlay E H v (a\<lparr>mOverlayEnabled := en, mOverlayDisabledByError := dis\<rparr>) =
      adopt_overlay E H v ?a"
    by (simp add: adopt_overlay_def Let_def split: prod.splits)
  have v: "v \<in> set (mLayers a) \<and> en \<and> \<not> dis" if "v \<noteq> 0"
  proof -
    have on: "en \<and> \<not> dis" using r(3) that by blast
    from choose_overlay_result [OF r(2) [OF on]] that have "v \<in> fst ` set (mLayerStates a)" by force
    with on assms(1) show ?thesis by (simp add: adapter_inv_def)
  qed
  have "adapter_inv (adopt_overlay E H v ?a)"
    by (rule adopt_overlay_inv) (use assms(1,3) v in \<open>auto simp: adapter_inv_def\<close>)
  moreover have "given_ok (adopt_overlay E H v ?a)"
    by (rule adopt_overlay_given) (use assms(2) in \<open>simp add: given_ok_def\<close>)
  ultimately show ?thesis using r(1) by (simp add: eq Let_def)
qed

text \<open>With as much room as the validation says, the hooks copy everything it found.\<close>

lemma results_fit:
  assumes "given_ok a" "validateLayers E H a io = Some ((types, requests), a', io')"
  shows "getChangedCompositionTypes (Some types) a' = (types, mChangedTypes a')"
    "getDisplayRequests c (Some requests) a' = (0, requests, map (\<lambda>l. (l, c)) (mClearClientTargetLayers a'))"
proof -
  obtain v area en dis where "validateLayers E H a io =
       (let a1 = adopt_overlay E H v (a\<lparr>mOverlayEnabled := en, mOverlayDisabledByError := dis\<rparr>)
        in Some ((length (mChangedTypes a1), length (mClearClientTargetLayers a1)), a1, io @ [GetProperty]))"
    using validateLayers_result [OF assms(1), of E io H] by metis
  then have "types = length (mChangedTypes a')" "requests = length (mClearClientTargetLayers a')"
    using assms(2) by (auto simp: Let_def)
  then show "getChangedCompositionTypes (Some types) a' = (types, mChangedTypes a')"
    "getDisplayRequests c (Some requests) a' = (0, requests, map (\<lambda>l. (l, c)) (mClearClientTargetLayers a'))"
    by (simp_all add: getChangedCompositionTypes_def getDisplayRequests_def)
qed

section \<open>Posting\<close>

text \<open>What the driver is given: the layers, and the rest of the structure.\<close>

definition display_crop :: "info \<Rightarrow> hwc_frect_t" where
  "display_crop i =
     \<lparr>crop_left = f_int 0, crop_top = f_int 0, crop_right = f_int (info_width i),
      crop_bottom = f_int (info_height i)\<rparr>"

definition display_frame :: "info \<Rightarrow> hwc_rect_t" where
  "display_frame i =
     \<lparr>rect_left = 0, rect_top = 0, rect_right = to_int32 (info_width i), rect_bottom = to_int32 (info_height i)\<rparr>"

definition video_layer :: "hwc_h \<Rightarrow> adapter \<Rightarrow> dss_layer_t \<Rightarrow> bool" where
  "video_layer H a l \<longleftrightarrow>
     (\<exists>video. map_of (mLayerStates a) (mOverlayLayer a) = Some video \<and>
        fills H (ls_buffer video) (ls_sourceCrop video) (ls_displayFrame video) (HWC2_BLEND_MODE_NONE H)
          (ls_transform video) 0 DPE0_CHN0 CAP_DMA l)"

definition client_layer :: "hwc_h \<Rightarrow> adapter \<Rightarrow> dss_layer_t \<Rightarrow> bool" where
  "client_layer H a l \<longleftrightarrow>
     fills H (mBuffer a) (display_crop (mFbInfo a)) (display_frame (mFbInfo a))
       (HWC2_BLEND_MODE_PREMULTIPLIED H) 0 1 DPE0_CHN3 CAP_FB_POST l"

text \<open>What \<open>fillDssLayer\<close> makes of the layer on the overlay, and of the client target.\<close>

definition video_fill :: "hwc_h \<Rightarrow> adapter \<Rightarrow> dss_layer_t option option" where
  "video_fill H a =
     (case map_of (mLayerStates a) (mOverlayLayer a) of
        None \<Rightarrow> None
      | Some video \<Rightarrow>
          fillDssLayer H (ls_buffer video) (ls_sourceCrop video) (ls_displayFrame video)
            (HWC2_BLEND_MODE_NONE H) (f_int 1) (ls_transform video) 0 DPE0_CHN0 CAP_DMA)"

definition client_fill :: "hwc_h \<Rightarrow> adapter \<Rightarrow> dss_layer_t option option" where
  "client_fill H a =
     fillDssLayer H (mBuffer a) (display_crop (mFbInfo a)) (display_frame (mFbInfo a))
       (HWC2_BLEND_MODE_PREMULTIPLIED H) (f_int 1) 0 1 DPE0_CHN3 CAP_FB_POST"

definition overlay_of :: "hwc_h \<Rightarrow> adapter \<Rightarrow> dss_overlay_t \<Rightarrow> bool" where
  "overlay_of H a ov \<longleftrightarrow>
     (\<exists>l0. video_layer H a l0 \<and> video_fill H a = Some (Some l0) \<and>
        (if mOverlayUsesClientTarget a
         then \<exists>l1. client_layer H a l1 \<and> client_fill H a = Some (Some l1) \<and>
           ov = (empty_overlay (mFbInfo a))\<lparr>layer_infos := l0 # l1 # replicate 7 zero_layer, layer_nums := 2\<rparr>
         else ov = (empty_overlay (mFbInfo a))\<lparr>layer_infos := l0 # replicate 8 zero_layer, layer_nums := 1\<rparr>))"

lemma layer_slots:
  "(replicate kHisiMaxLayers z)[0 := l0] = l0 # replicate 8 z"
  "(replicate 8 z)[0 := l1] = l1 # replicate 7 z"
  by (simp_all add: kHisiMaxLayers_def numeral_eq_Suc)

lemma empty_overlay_layers: "layer_infos (empty_overlay i) = replicate kHisiMaxLayers zero_layer"
  by (simp add: empty_overlay_def)

text \<open>
  Whether the engine can be given the frame: a layer is on the overlay, the client target it may
  need is there, and the two can be described as its layers.
\<close>

definition filled :: "'a option option \<Rightarrow> bool" where
  "filled r = (case r of Some (Some l) \<Rightarrow> True | _ \<Rightarrow> False)"

definition overlay_ready :: "hwc_h \<Rightarrow> adapter \<Rightarrow> bool" where
  "overlay_ready H a \<longleftrightarrow>
     mHasOverlayLayer a \<and> filled (video_fill H a) \<and>
     (mOverlayUsesClientTarget a \<longrightarrow> mBuffer a \<noteq> None \<and> filled (client_fill H a))"

lemma postOverlay_result:
  assumes "given_ok a" "mHasOverlayLayer a" "\<not> mOverlayDisabledByError a"
    "map_of (mLayerStates a) (mOverlayLayer a) = Some video"
  shows "\<not> overlay_ready H a \<and> postOverlay E H a io = Some (False, overlay_failed a, io) \<or>
    overlay_ready H a \<and> (\<exists>ov. overlay_of H a ov \<and> postOverlay E H a io = Some (play_overlay E ov a io))"
proof (cases "mOverlayUsesClientTarget a \<and> mBuffer a = None")
  case True
  with assms show ?thesis by (simp add: postOverlay_def overlay_ready_def)
next
  case nobuf: False
  have ok: "buffer_ok 4294967040 (ls_buffer video)" "frame_ok (ls_displayFrame video)"
    "buffer_ok 4294967040 (mBuffer a)"
    using assms(1) map_of_SomeD [OF assms(4)] by (auto simp: given_ok_def list_all_iff state_ok_def)
  have frame: "frame_ok (display_frame (mFbInfo a))"
    by (simp add: frame_ok_def display_frame_def to_int32_range)
  obtain r0 where r0: "video_fill H a = Some r0" "\<And>l. r0 = Some l \<Longrightarrow> video_layer H a l"
    using fillDssLayer_defined [OF ok(1,2), of H "ls_sourceCrop video" "HWC2_BLEND_MODE_NONE H" "f_int 1"
        "ls_transform video" 0 DPE0_CHN0 CAP_DMA] assms(4)
    by (auto simp: video_layer_def video_fill_def)
  obtain r1 where r1: "client_fill H a = Some r1" "\<And>l. r1 = Some l \<Longrightarrow> client_layer H a l"
    using fillDssLayer_defined [OF ok(3) frame, of H "display_crop (mFbInfo a)" "HWC2_BLEND_MODE_PREMULTIPLIED H"
        "f_int 1" 0 1 DPE0_CHN3 CAP_FB_POST]
    by (auto simp: client_layer_def client_fill_def)
  note video = r0(1) [unfolded video_fill_def assms(4) option.case]
  note client = r1(1) [unfolded client_fill_def display_crop_def display_frame_def]
  have ready: "overlay_ready H a \<longleftrightarrow> r0 \<noteq> None \<and> (mOverlayUsesClientTarget a \<longrightarrow> r1 \<noteq> None)"
    using assms(2) nobuf r0(1) r1(1) by (cases r0; cases r1; simp add: overlay_ready_def filled_def)
  show ?thesis
  proof (cases r0)
    case None
    with assms nobuf video ready show ?thesis by (simp add: postOverlay_def)
  next
    case l0: (Some l0)
    show ?thesis
    proof (cases "mOverlayUsesClientTarget a")
      case uses: True
      show ?thesis
      proof (cases r1)
        case None
        with assms nobuf video l0 uses client ready show ?thesis by (simp add: postOverlay_def Let_def)
      next
        case l1: (Some l1)
        have "overlay_of H a ((empty_overlay (mFbInfo a))
            \<lparr>layer_infos := l0 # l1 # replicate 7 zero_layer, layer_nums := 2\<rparr>)"
          using r0 l0 r1 l1 uses by (auto simp: overlay_of_def)
        moreover have "postOverlay E H a io = Some (play_overlay E ((empty_overlay (mFbInfo a))
            \<lparr>layer_infos := l0 # l1 # replicate 7 zero_layer, layer_nums := 2\<rparr>) a io)"
          using assms nobuf video l0 l1 uses client
          by (auto simp: postOverlay_def Let_def empty_overlay_layers layer_slots)
        ultimately show ?thesis using ready l0 l1 by blast
      qed
    next
      case alone: False
      have "overlay_of H a ((empty_overlay (mFbInfo a))
          \<lparr>layer_infos := l0 # replicate 8 zero_layer, layer_nums := 1\<rparr>)"
        using r0 l0 alone by (auto simp: overlay_of_def)
      moreover have "postOverlay E H a io = Some (play_overlay E ((empty_overlay (mFbInfo a))
          \<lparr>layer_infos := l0 # replicate 8 zero_layer, layer_nums := 1\<rparr>) a io)"
        using assms nobuf video l0 alone
        by (simp add: postOverlay_def Let_def empty_overlay_layers layer_slots)
      ultimately show ?thesis using ready l0 alone by blast
    qed
  qed
qed

lemma overlay_of_payload:
  assumes "overlay_of H a ov"
  shows "layer_nums ov = (if mOverlayUsesClientTarget a then 2 else 1) \<and>
       length (layer_infos ov) = kHisiMaxLayers \<and>
       (\<forall>k < kHisiMaxLayers. layer_nums ov \<le> int k \<longrightarrow> layer_infos ov ! k = zero_layer) \<and>
       video_layer H a (layer_infos ov ! 0) \<and> video_fill H a = Some (Some (layer_infos ov ! 0)) \<and>
       (mOverlayUsesClientTarget a \<longrightarrow> client_layer H a (layer_infos ov ! 1) \<and>
          client_fill H a = Some (Some (layer_infos ov ! 1))) \<and>
       dirty_rect ov =
         \<lparr>rect_x = 0, rect_y = 0, rect_w = info_width (mFbInfo a), rect_h = info_height (mFbInfo a)\<rparr> \<and>
       ov_release_fence ov = - 1"
proof (cases "mOverlayUsesClientTarget a")
  case True
  with assms show ?thesis
    by (auto simp: overlay_of_def empty_overlay_def kHisiMaxLayers_def nth_Cons' less_Suc_eq_le)
next
  case False
  with assms show ?thesis
    by (auto simp: overlay_of_def empty_overlay_def kHisiMaxLayers_def nth_Cons' less_Suc_eq_le)
qed

definition fb_post :: "adapter \<Rightarrow> hwc_log" where
  "fb_post a = (case mBuffer a of Some buffer \<Rightarrow> [FbPost buffer] | None \<Rightarrow> [])"

lemma fb_post_failed [simp]: "fb_post (overlay_failed a) = fb_post a"
  by (simp add: fb_post_def overlay_failed_def)

text \<open>The calls of one attempt to show an overlay, and whether it is shown.\<close>

definition attempt :: "hwc_env \<Rightarrow> dss_overlay_t \<Rightarrow> hwc_log \<Rightarrow> bool \<times> hwc_log" where
  "attempt E ov io =
     (if he_open E io then
        (let (ok, fence) = he_ioctl E (io @ [OpenFb]) ov
         in (ok, [OpenFb, OnlinePlay ov, CloseFb] @ close_fence fence))
      else (False, [OpenFb]))"

lemma play_overlay_attempt:
  "play_overlay E ov a io =
     (let (ok, calls) = attempt E ov io in (ok, if ok then a else overlay_failed a, io @ calls))"
  by (simp add: play_overlay_def attempt_def Let_def split: prod.split)

lemma postBuffer_result:
  assumes "adapter_inv a" "given_ok a"
  shows "if overlay_ready H a then
      \<exists>ov shown tries. overlay_of H a ov \<and> attempt E ov io = (shown, tries) \<and>
        postBuffer E H a io =
          (if shown then Some (True, a, io @ tries)
           else Some (False, overlay_failed a, io @ tries @ fb_post a))
    else postBuffer E H a io =
      Some (False, if mHasOverlayLayer a then overlay_failed a else a, io @ fb_post a)"
proof (cases "mHasOverlayLayer a")
  case True
  from True assms(1) have on: "\<not> mOverlayDisabledByError a" "mOverlayLayer a \<in> fst ` set (mLayerStates a)"
    by (auto simp: adapter_inv_def)
  then obtain video where video: "map_of (mLayerStates a) (mOverlayLayer a) = Some video"
    by (metis map_of_eq_None_iff not_Some_eq)
  have buffer: "mBuffer (overlay_failed a) = mBuffer a" by (simp add: overlay_failed_def)
  from postOverlay_result [OF assms(2) True on(1) video, of H E io] show ?thesis
  proof (elim disjE conjE exE)
    fix ov
    assume "overlay_ready H a" "overlay_of H a ov" "postOverlay E H a io = Some (play_overlay E ov a io)"
    then show ?thesis
      using True buffer
      by (cases "attempt E ov io")
        (fastforce simp: postBuffer_def fb_post_def play_overlay_attempt split: option.splits)
  qed (use True buffer in \<open>auto simp: postBuffer_def fb_post_def split: option.splits\<close>)
qed (auto simp: postBuffer_def fb_post_def overlay_ready_def split: option.splits)

lemma postBuffer_state:
  assumes "adapter_inv a" "given_ok a" "postBuffer E H a io = Some (shown, a', io')"
  shows "a' = a \<or> a' = overlay_failed a"
  using postBuffer_result [OF assms(1,2), of H E io] assms(3) by (auto split: if_splits)

lemma overlay_failed_inv: "adapter_inv a \<Longrightarrow> adapter_inv (overlay_failed a)"
  by (auto simp: adapter_inv_def overlay_failed_def)

lemma overlay_failed_given: "given_ok a \<Longrightarrow> given_ok (overlay_failed a)"
  by (simp add: given_ok_def overlay_failed_def)

section \<open>Runs\<close>

lemma postBuffer_inv:
  assumes "adapter_inv a" "given_ok a"
  shows "\<exists>shown a' calls. postBuffer E H a io = Some (shown, a', io @ calls) \<and> adapter_inv a' \<and> given_ok a' \<and>
    mNextLayerId a' = mNextLayerId a"
  using postBuffer_result [OF assms, of H E io] assms overlay_failed_inv [OF assms(1)]
    overlay_failed_given [OF assms(2)]
  by (auto simp: overlay_failed_def split: if_splits)

lemma adapter_inv_buffer [simp]: "adapter_inv (a\<lparr>mBuffer := buffer\<rparr>) = adapter_inv a"
  by (simp add: adapter_inv_def)

lemma adapter_inv_no_changes: "adapter_inv a \<Longrightarrow> adapter_inv (a\<lparr>mChangedTypes := []\<rparr>)"
  by (auto simp: adapter_inv_def)

lemma acceptChanges_inv: "adapter_inv a \<Longrightarrow> adapter_inv (acceptChanges a)"
proof -
  assume a: "adapter_inv a"
  let ?states = "map (\<lambda>(l, st). (l, st\<lparr>ls_requestedType := ls_validatedType st\<rparr>)) (mLayerStates a)"
  have "adapter_inv (a\<lparr>mLayerStates := ?states\<rparr>)"
    by (rule adapter_inv_keys [OF a]) (simp add: case_prod_beta comp_def)
  from adapter_inv_no_changes [OF this] show ?thesis by (simp add: acceptChanges_def)
qed

lemma acceptChanges_given: "given_ok a \<Longrightarrow> given_ok (acceptChanges a)"
  by (auto simp: given_ok_def acceptChanges_def list_all_iff state_ok_def)

lemmas hook_defs =
  setLayerBuffer_def setLayerCompositionTypeHook_def setLayerCompositionType_def
  setLayerBlendModeHook_def setLayerBlendMode_def setLayerDisplayFrameHook_def
  setLayerDisplayFrame_def setLayerPlaneAlphaHook_def setLayerPlaneAlpha_def
  setLayerSourceCropHook_def setLayerSourceCrop_def setLayerTransformHook_def
  setLayerTransform_def setLayerZOrderHook_def setLayerZOrder_def

lemma set_layer_next [simp]: "mNextLayerId (snd (set_layer f layer a)) = mNextLayerId a"
  by (simp add: set_layer_def split: option.splits)

lemma setLayerHook_next [simp]:
  "mNextLayerId (snd (setLayerHook (set_layer f layer) display a)) = mNextLayerId a"
  using setLayerHook_result [of f layer display a] by auto

lemma removeLayer_next [simp]: "mNextLayerId (snd (removeLayer layer a)) = mNextLayerId a"
  by (simp add: removeLayer_def Let_def)

definition adds :: "hwc_op \<Rightarrow> int" where
  "adds op = (if op = AddLayer then 1 else 0)"

lemma hwc_step_inv:
  assumes "adapter_inv a" "given_ok a" "hash_tables_ok E" "op_ok op" "mNextLayerId a + 1 < 2 ^ 64"
  shows "\<exists>a' calls. hwc_step E H op (a, io) = Some (a', io @ calls) \<and> adapter_inv a' \<and> given_ok a' \<and>
    mNextLayerId a' = mNextLayerId a + adds op"
proof (cases op)
  case AddLayer
  then show ?thesis
    using addLayer_inv [OF assms(1,5,3)] addLayer_given [OF assms(2,3)] by (simp add: adds_def)
next
  case (RemoveLayer layer)
  then show ?thesis using removeLayer_inv [OF assms(1)] removeLayer_given [OF assms(2)] by (simp add: adds_def)
next
  case Validate
  then show ?thesis using validateLayers_inv [OF assms(1-3), of H io] by (auto simp: adds_def)
next
  case Post
  then show ?thesis using postBuffer_inv [OF assms(1,2), of E H io] by (auto simp: adds_def)
next
  case Accept
  then show ?thesis using acceptChanges_inv [OF assms(1)] acceptChanges_given [OF assms(2)]
    by (simp add: adds_def acceptChanges_def)
next
  case (SetClientTarget buffer)
  then show ?thesis using assms by (simp add: adds_def setBuffer_def given_ok_def)
next
  case (SetBuffer layer buffer)
  then show ?thesis using assms(1,2,4)
    by (auto simp: adds_def setLayerBuffer_def state_ok_def intro: adapter_inv_set_layer given_ok_set_layer)
next
  case (SetDisplayFrame display layer frame)
  then show ?thesis using assms(1,2,4)
    by (auto simp: adds_def setLayerDisplayFrameHook_def setLayerDisplayFrame_def state_ok_def
        intro: setLayerHook_inv setLayerHook_given)
qed (use assms(1,2) in \<open>auto simp: adds_def hook_defs state_ok_def intro: setLayerHook_inv setLayerHook_given\<close>)

lemma hwc_run_inv:
  assumes "adapter_inv a" "given_ok a" "hash_tables_ok E" "list_all op_ok ops"
    "mNextLayerId a + int (length ops) < 2 ^ 64"
  shows "\<exists>a' calls. hwc_run E H ops (a, io) = Some (a', io @ calls) \<and> adapter_inv a' \<and> given_ok a' \<and>
    mNextLayerId a' = mNextLayerId a + sum_list (map adds ops)"
  using assms
proof (induction ops arbitrary: a io)
  case (Cons op ops)
  obtain a1 calls where 1: "hwc_step E H op (a, io) = Some (a1, io @ calls)" "adapter_inv a1" "given_ok a1"
    "mNextLayerId a1 = mNextLayerId a + adds op"
    using hwc_step_inv [OF Cons.prems(1-3), of op H io] Cons.prems(4,5) by force
  have "mNextLayerId a1 + int (length ops) < 2 ^ 64"
    using Cons.prems(5) 1(4) by (simp add: adds_def split: if_splits)
  with Cons.IH [OF 1(2,3), of "io @ calls"] Cons.prems(3,4) 1 show ?case by auto
qed auto

lemma new_adapter_inv: "adapter_inv (new_adapter d st i)" "given_ok (new_adapter d st i)"
  by (simp_all add: new_adapter_def adapter_inv_def given_ok_def buffer_ok_def)

lemma adds_count: "sum_list (map adds ops) = int (count_list ops AddLayer)"
  by (induction ops) (simp_all add: adds_def)

end
