(* ===== verification/HwcComposer.thy ===== *)
theory HwcComposer
  imports HwcOverlay
begin

text \<open>
  The properties of the composer with the overlay path: it stays well formed, the overlay goes to
  the largest candidate, accepting settles the types, a frame is posted once, and an error turns
  the overlay off.
\<close>

section \<open>Which layer is adopted\<close>

lemma adapter_inv_key: "adapter_inv a \<Longrightarrow> (l, st) \<in> set (mLayerStates a) \<Longrightarrow> 1 \<le> l"
  by (force simp: adapter_inv_def list_all_iff)

lemma map_of_distinct: "distinct (map fst al) \<Longrightarrow> (k, x) \<in> set al \<Longrightarrow> map_of al k = Some x"
  by simp

lemma overlay_choice:
  assumes "adapter_inv a" "choose_overlay H i (mLayerStates a) (0, 0) = Some (v, area)"
  shows "v \<noteq> 0 \<longleftrightarrow> (\<exists>(l, st) \<in> set (mLayerStates a). is_candidate H i st)"
    "v \<noteq> 0 \<Longrightarrow> \<exists>st. map_of (mLayerStates a) v = Some st \<and> is_candidate H i st \<and>
      (\<forall>(l, st') \<in> set (mLayerStates a). is_candidate H i st' \<longrightarrow> area_of st' \<le> area_of st)"
proof -
  note result = choose_overlay_result [OF assms(2)]
  have dist: "distinct (map fst (mLayerStates a))" using assms(1) by (simp add: adapter_inv_def)
  have pos: "l \<noteq> 0" if "(l, st) \<in> set (mLayerStates a)" for l st
    using adapter_inv_key [OF assms(1) that] by simp
  show "v \<noteq> 0 \<longleftrightarrow> (\<exists>(l, st) \<in> set (mLayerStates a). is_candidate H i st)"
    using result pos by (fastforce dest: candidate_area(2))
  show "\<exists>st. map_of (mLayerStates a) v = Some st \<and> is_candidate H i st \<and>
      (\<forall>(l, st') \<in> set (mLayerStates a). is_candidate H i st' \<longrightarrow> area_of st' \<le> area_of st)" if "v \<noteq> 0"
    using result that map_of_distinct [OF dist] by (metis Pair_inject)
qed

text \<open>The type a layer gets, read off the adapter after the validation.\<close>

definition new_type :: "hwc_h \<Rightarrow> adapter \<Rightarrow> int \<Rightarrow> int" where
  "new_type H a l =
     (if mHasOverlayLayer a \<and> l = mOverlayLayer a then HWC2_COMPOSITION_DEVICE H
      else HWC2_COMPOSITION_CLIENT H)"

lemma new_type_adopted: "new_type H (adopt_overlay E H v a) l = validated_type H v l"
  by (auto simp: new_type_def validated_type_def)

lemma map_of_type_changes:
  assumes "distinct (map fst entries)"
  shows "map_of (type_changes H v entries) l =
    (case map_of entries l of
       None \<Rightarrow> None
     | Some st \<Rightarrow> if ls_requestedType st \<noteq> validated_type H v l then Some (validated_type H v l) else None)"
  using assms
proof (induction entries)
  case (Cons e entries)
  obtain k st where e: "e = (k, st)" by (cases e)
  have "map_of entries k = None" using Cons.prems e by (simp add: map_of_eq_None_iff)
  with Cons e show ?case by (auto simp: type_changes_def split: option.splits)
qed (simp add: type_changes_def)

lemma map_of_mset:
  assumes "mset xs = mset ys" "distinct (map fst xs)"
  shows "map_of xs = map_of ys"
proof -
  have "distinct (map fst ys)" using assms by (metis mset_map mset_eq_imp_distinct_iff)
  then show ?thesis using assms by (intro map_of_inject_set [THEN iffD2]) (auto dest: mset_eq_setD)
qed

lemma others_are_client:
  assumes "adapter_inv a" "v \<in> set (mLayers a)" "HWC2_COMPOSITION_DEVICE H \<noteq> HWC2_COMPOSITION_CLIENT H"
  shows "(\<exists>(l, st) \<in> set (mLayerStates a). validated_type H v l = HWC2_COMPOSITION_CLIENT H) \<longleftrightarrow>
    1 < length (mLayerStates a)"
proof -
  let ?keys = "set (map fst (mLayerStates a))"
  have dist: "distinct (map fst (mLayerStates a))" and v: "v \<in> ?keys"
    using assms(1,2) by (simp_all add: adapter_inv_def)
  then have nz: "v \<noteq> 0" using adapter_inv_key [OF assms(1)] by force
  have "(\<exists>(l, st) \<in> set (mLayerStates a). validated_type H v l = HWC2_COMPOSITION_CLIENT H) \<longleftrightarrow>
      \<not> ?keys \<subseteq> {v}"
    using assms(3) nz by (fastforce simp: validated_type_def)
  also have "?keys \<subseteq> {v} \<longleftrightarrow> card ?keys \<le> Suc 0"
    using v by (auto simp: card_le_Suc0_iff_eq simp del: set_map)
  finally show ?thesis using distinct_card [OF dist] by (simp add: not_le)
qed

section \<open>After an error\<close>

lemma set_layer_flags [simp]:
  "mOverlayDisabledByError (snd (set_layer f layer a)) = mOverlayDisabledByError a"
  by (simp add: set_layer_def split: option.splits)

lemma setLayerHook_flags [simp]:
  "mOverlayDisabledByError (snd (setLayerHook (set_layer f layer) display a)) = mOverlayDisabledByError a"
  using setLayerHook_result [of f layer display a] by auto

definition quiet :: "hwc_call \<Rightarrow> bool" where
  "quiet call = (case call of GetProperty \<Rightarrow> True | FbPost buffer \<Rightarrow> True | _ \<Rightarrow> False)"

lemma hwc_step_disabled:
  assumes "adapter_inv a" "given_ok a" "hash_tables_ok E" "op_ok op" "mNextLayerId a + 1 < 2 ^ 64"
    "mOverlayDisabledByError a" "he_property E io"
  shows "\<exists>a' calls. hwc_step E H op (a, io) = Some (a', io @ calls) \<and> list_all quiet calls \<and>
    mOverlayDisabledByError a'"
proof (cases op)
  case Validate
  obtain v area en dis where "en = he_property E io" "dis = (en \<and> mOverlayDisabledByError a)"
    "validateLayers E H a io =
       (let a1 = adopt_overlay E H v (a\<lparr>mOverlayEnabled := en, mOverlayDisabledByError := dis\<rparr>)
        in Some ((length (mChangedTypes a1), length (mClearClientTargetLayers a1)), a1, io @ [GetProperty]))"
    using validateLayers_result [OF assms(2), of E io H] by metis
  with Validate assms(6,7) show ?thesis by (simp add: Let_def quiet_def)
next
  case Post
  from assms(1,6) have "\<not> mHasOverlayLayer a" by (simp add: adapter_inv_def)
  with Post assms(6) show ?thesis by (auto simp: postBuffer_def quiet_def split: option.splits)
next
  case AddLayer
  then show ?thesis using assms(6) by (simp add: addLayer_def Let_def)
next
  case (RemoveLayer layer)
  then show ?thesis using assms(6) by (simp add: removeLayer_def Let_def)
next
  case Accept
  then show ?thesis using assms(6) by (simp add: acceptChanges_def)
next
  case (SetClientTarget buffer)
  then show ?thesis using assms(6) by (simp add: setBuffer_def)
qed (use assms(6) in \<open>simp_all add: hook_defs\<close>)

section \<open>Accepting\<close>

lemma is_candidate_types:
  "is_candidate H i (st\<lparr>ls_validatedType := t, ls_requestedType := t'\<rparr>) \<longleftrightarrow>
     t' = HWC2_COMPOSITION_DEVICE H \<and> is_candidate H i (st\<lparr>ls_requestedType := HWC2_COMPOSITION_DEVICE H\<rparr>)"
  by (cases st) (simp add: is_candidate_def overlay_candidate_def cong: if_cong option.case_cong)

lemma accepted_states:
  "mLayerStates (acceptChanges (adopt_overlay E H v a)) =
     map (\<lambda>(l, st). (l, st\<lparr>ls_validatedType := validated_type H v l, ls_requestedType := validated_type H v l\<rparr>))
       (mLayerStates a)"
  by (simp add: acceptChanges_def adopt_overlay_data case_prod_beta comp_def)

lemma adopt_again:
  assumes "hash_tables_ok E"
  shows "adopt_overlay E H v ((acceptChanges (adopt_overlay E H v a))
      \<lparr>mOverlayEnabled := mOverlayEnabled a, mOverlayDisabledByError := mOverlayDisabledByError a\<rparr>) =
    acceptChanges (adopt_overlay E H v a)"
proof -
  have "he_changed E [] = []" using hash_tables_okD(5) [OF assms, of "[]"] by simp
  then show ?thesis
    by (simp add: adopt_overlay_def acceptChanges_def assign_types_result Let_def case_prod_beta comp_def
        filter_map)
qed

section \<open>One validation\<close>

text \<open>The adapter after a validation that gives the overlay to layer \<open>v\<close>, or to none if it is 0.\<close>

definition validated :: "hwc_env \<Rightarrow> hwc_h \<Rightarrow> int \<Rightarrow> hwc_log \<Rightarrow> adapter \<Rightarrow> adapter" where
  "validated E H v io a =
     adopt_overlay E H v (a\<lparr>mOverlayEnabled := he_property E io,
       mOverlayDisabledByError := he_property E io \<and> mOverlayDisabledByError a\<rparr>)"

definition overlay_chosen :: "hwc_h \<Rightarrow> bool \<Rightarrow> adapter \<Rightarrow> int \<Rightarrow> bool" where
  "overlay_chosen H en a v \<longleftrightarrow>
     (v \<noteq> 0 \<longleftrightarrow> en \<and> \<not> mOverlayDisabledByError a \<and>
        (\<exists>(l, st) \<in> set (mLayerStates a). is_candidate H (mFbInfo a) st)) \<and>
     (v \<noteq> 0 \<longrightarrow> (\<exists>st. map_of (mLayerStates a) v = Some st \<and> is_candidate H (mFbInfo a) st \<and>
        (\<forall>(l, st') \<in> set (mLayerStates a). is_candidate H (mFbInfo a) st' \<longrightarrow> area_of st' \<le> area_of st)))"

lemma overlay_chosenD:
  assumes "overlay_chosen H en a v"
  shows "v \<noteq> 0 \<longleftrightarrow> en \<and> \<not> mOverlayDisabledByError a \<and>
      (\<exists>(l, st) \<in> set (mLayerStates a). is_candidate H (mFbInfo a) st)"
    "v \<noteq> 0 \<Longrightarrow> \<exists>st. map_of (mLayerStates a) v = Some st \<and> is_candidate H (mFbInfo a) st \<and>
      (\<forall>(l, st') \<in> set (mLayerStates a). is_candidate H (mFbInfo a) st' \<longrightarrow> area_of st' \<le> area_of st)"
  using assms unfolding overlay_chosen_def by blast+

lemma validateLayers_chosen:
  assumes "adapter_inv a" "given_ok a"
  obtains v where "overlay_chosen H (he_property E io) a v"
    "validateLayers E H a io =
       Some ((length (mChangedTypes (validated E H v io a)), length (mClearClientTargetLayers (validated E H v io a))),
         validated E H v io a, io @ [GetProperty])"
proof -
  obtain v area en dis where r: "en = he_property E io" "dis = (en \<and> mOverlayDisabledByError a)"
    "validateLayers E H a io =
       (let a1 = adopt_overlay E H v (a\<lparr>mOverlayEnabled := en, mOverlayDisabledByError := dis\<rparr>)
        in Some ((length (mChangedTypes a1), length (mClearClientTargetLayers a1)), a1, io @ [GetProperty]))"
    "en \<and> \<not> dis \<Longrightarrow> choose_overlay H (mFbInfo a) (mLayerStates a) (0, 0) = Some (v, area)"
    "\<not> (en \<and> \<not> dis) \<Longrightarrow> v = 0"
    using validateLayers_result [OF assms(2), of E io H] by metis
  have "overlay_chosen H (he_property E io) a v"
    using overlay_choice [OF assms(1) r(4)] r(5) unfolding overlay_chosen_def r(1,2) by blast
  with r(1-3) that show thesis by (simp add: validated_def Let_def)
qed

lemma validated_fields [simp]:
  "mHasOverlayLayer (validated E H v io a) \<longleftrightarrow> v \<noteq> 0"
  "v \<noteq> 0 \<Longrightarrow> mOverlayLayer (validated E H v io a) = v"
  "new_type H (validated E H v io a) l = validated_type H v l"
  "mChangedTypes (validated E H v io a) = he_changed E (type_changes H v (mLayerStates a))"
  "mClearClientTargetLayers (validated E H v io a) =
     (if mOverlayUsesClientTarget (validated E H v io a) then [v] else [])"
  by (simp_all add: validated_def adopt_overlay_data new_type_adopted)

text \<open>The changed types as a map, and their number.\<close>

lemma validated_types:
  assumes "adapter_inv a" "hash_tables_ok E"
  shows "map_of (mChangedTypes (validated E H v io a)) =
      (\<lambda>l. case map_of (mLayerStates a) l of
             None \<Rightarrow> None
           | Some st \<Rightarrow> if ls_requestedType st \<noteq> validated_type H v l then Some (validated_type H v l) else None)"
    "length (mChangedTypes (validated E H v io a)) = card (dom (map_of (mChangedTypes (validated E H v io a))))"
proof -
  let ?changes = "type_changes H v (mLayerStates a)"
  have dist: "distinct (map fst (mLayerStates a))" using assms(1) by (simp add: adapter_inv_def)
  note dist' = type_changes_keys(2) [OF dist, of H v]
  have "mset (he_changed E ?changes) = mset ?changes" using assms(2) by (simp add: hash_tables_ok_def)
  from map_of_mset [OF this [symmetric] dist']
  have "map_of (he_changed E ?changes) = map_of ?changes" by simp
  then show "map_of (mChangedTypes (validated E H v io a)) =
      (\<lambda>l. case map_of (mLayerStates a) l of
             None \<Rightarrow> None
           | Some st \<Rightarrow> if ls_requestedType st \<noteq> validated_type H v l then Some (validated_type H v l) else None)"
    by (intro ext) (simp add: map_of_type_changes [OF dist])
  show "length (mChangedTypes (validated E H v io a)) = card (dom (map_of (mChangedTypes (validated E H v io a))))"
    using hash_tables_okD [OF assms(2)] distinct_card [OF dist']
    by (simp add: dom_map_of_conv_image_fst flip: set_map)
qed

text \<open>The client target is used, and then cleared, if there is a second layer.\<close>

lemma validated_uses_client:
  assumes "adapter_inv a" "overlay_chosen H en a v" "HWC2_COMPOSITION_DEVICE H \<noteq> HWC2_COMPOSITION_CLIENT H"
  shows "mOverlayUsesClientTarget (validated E H v io a) \<longleftrightarrow> v \<noteq> 0 \<and> 1 < length (mLayerStates a)"
proof (cases "v = 0")
  case False
  with overlay_chosenD(2) [OF assms(2)] obtain st where "map_of (mLayerStates a) v = Some st" by blast
  then have "v \<in> fst ` set (mLayerStates a)" by (force dest: map_of_SomeD)
  then have "v \<in> set (mLayers a)" using assms(1) by (simp add: adapter_inv_def)
  from others_are_client [OF assms(1) this assms(3)] False show ?thesis
    by (simp add: validated_def adopt_overlay_data)
qed (simp add: validated_def adopt_overlay_data)

text \<open>After the changes are accepted, the layer of the overlay is the only candidate.\<close>

lemma accepted_only_candidate:
  fixes E io
  assumes "overlay_chosen H en a v" "HWC2_COMPOSITION_DEVICE H \<noteq> HWC2_COMPOSITION_CLIENT H"
  defines "c \<equiv> acceptChanges (validated E H v io a)"
  shows "(l, st) \<in> set (mLayerStates c) \<Longrightarrow> is_candidate H (mFbInfo c) st \<Longrightarrow> l = v \<and> v \<noteq> 0"
    "v \<noteq> 0 \<Longrightarrow> \<exists>(l, st) \<in> set (mLayerStates c). is_candidate H (mFbInfo c) st"
proof -
  have info: "mFbInfo c = mFbInfo a" by (simp add: c_def validated_def acceptChanges_def)
  have states: "mLayerStates c = map (\<lambda>(l, st).
      (l, st\<lparr>ls_validatedType := validated_type H v l, ls_requestedType := validated_type H v l\<rparr>)) (mLayerStates a)"
    unfolding c_def validated_def accepted_states by simp
  show "l = v \<and> v \<noteq> 0" if "(l, st) \<in> set (mLayerStates c)" "is_candidate H (mFbInfo c) st"
    using that assms(2) by (auto simp: states is_candidate_types validated_type_def split: if_splits)
  assume nz: "v \<noteq> 0"
  obtain st where st: "map_of (mLayerStates a) v = Some st" "is_candidate H (mFbInfo a) st"
    using overlay_chosenD(2) [OF assms(1) nz] by blast
  then have req: "st\<lparr>ls_requestedType := HWC2_COMPOSITION_DEVICE H\<rparr> = st"
    using is_candidateD(1) [OF st(2)] by (cases st) simp
  have "is_candidate H (mFbInfo c) (st\<lparr>ls_validatedType := validated_type H v v,
      ls_requestedType := validated_type H v v\<rparr>)"
    unfolding is_candidate_types info req using st(2) nz by (simp add: validated_type_def)
  then show "\<exists>(l, st) \<in> set (mLayerStates c). is_candidate H (mFbInfo c) st"
    using map_of_SomeD [OF st(1)] by (force simp: states)
qed

lemma accepted_same_choice:
  assumes "overlay_chosen H en a v" "HWC2_COMPOSITION_DEVICE H \<noteq> HWC2_COMPOSITION_CLIENT H"
    "en = he_property E io" "overlay_chosen H en (acceptChanges (validated E H v io a)) w"
  shows "w = v"
proof (cases "v = 0")
  case True
  then show ?thesis
    using overlay_chosenD(1) [OF assms(4)] accepted_only_candidate(1) [OF assms(1,2)] by blast
next
  case False
  have "\<not> mOverlayDisabledByError (acceptChanges (validated E H v io a))"
    using overlay_chosenD(1) [OF assms(1)] False by (simp add: validated_def acceptChanges_def)
  then have "w \<noteq> 0"
    using overlay_chosenD(1) [OF assms(4)] overlay_chosenD(1) [OF assms(1)]
      accepted_only_candidate(2) [OF assms(1,2) False] False by simp
  then show ?thesis
    using overlay_chosenD(2) [OF assms(4)] accepted_only_candidate(1) [OF assms(1,2)] map_of_SomeD by metis
qed

lemma validated_again:
  assumes "hash_tables_ok E" "he_property E io'' = he_property E io"
  shows "validated E H v io'' (acceptChanges (validated E H v io a)) = acceptChanges (validated E H v io a)"
proof -
  define b where "b = a\<lparr>mOverlayEnabled := he_property E io,
    mOverlayDisabledByError := he_property E io \<and> mOverlayDisabledByError a\<rparr>"
  have "validated E H v io a = adopt_overlay E H v b" by (simp add: validated_def b_def)
  moreover have "mOverlayDisabledByError (acceptChanges (adopt_overlay E H v b)) = mOverlayDisabledByError b"
    by (simp add: acceptChanges_def)
  moreover have "mOverlayEnabled b = he_property E io"
    "(he_property E io \<and> mOverlayDisabledByError b) = mOverlayDisabledByError b"
    by (auto simp: b_def)
  ultimately show ?thesis
    using adopt_again [OF assms(1), of H v b] by (simp add: validated_def [of E H v io''] assms(2))
qed

section \<open>Properties\<close>

text \<open>
  C35. Well-formedness. Any sequence of the composer's calls runs without undefined behaviour from
  the adapter as it is created, as long as the buffers and frames it is given are well formed and
  the layer numbers do not wrap. Afterwards every layer has exactly one state, layer numbers are
  between one and the number of layers ever created, the changed types and clear requests are for
  layers that exist, and a layer on the overlay exists, with the overlay enabled and not disabled.
\<close>

theorem adapter_well_formed:
  assumes "hash_tables_ok E" "list_all op_ok ops" "length ops < 2 ^ 64"
  shows "\<exists>a io. hwc_run E H ops (new_adapter d st i, []) = Some (a, io) \<and> adapter_inv a \<and> given_ok a \<and>
    mNextLayerId a = int (count_list ops AddLayer)"
  using hwc_run_inv [OF new_adapter_inv assms(1,2), of d st i H "[]"] assms(3)
  by (force simp: adds_count new_adapter_def)

text \<open>
  C36. The overlay goes to a largest candidate: validation gives it to a layer exactly when the
  property is on, no error has disabled it and some layer is a candidate, and then to one whose
  frame has the greatest area. The changed types are exactly those where the type that was
  requested is not the one given, device composition for the overlay and client composition for
  the others, and their number is returned; the overlay's layer asks for the client target to be
  cleared exactly when there is another layer.
\<close>

theorem overlay_is_largest_candidate:
  assumes "adapter_inv a" "given_ok a" "hash_tables_ok E"
    "HWC2_COMPOSITION_DEVICE H \<noteq> HWC2_COMPOSITION_CLIENT H"
  shows "\<exists>types requests a'. validateLayers E H a io = Some ((types, requests), a', io @ [GetProperty]) \<and>
    (mHasOverlayLayer a' \<longleftrightarrow> he_property E io \<and> \<not> mOverlayDisabledByError a \<and>
       (\<exists>(l, st) \<in> set (mLayerStates a). is_candidate H (mFbInfo a) st)) \<and>
    (mHasOverlayLayer a' \<longrightarrow>
       (\<exists>st. map_of (mLayerStates a) (mOverlayLayer a') = Some st \<and> is_candidate H (mFbInfo a) st \<and>
          (\<forall>(l, st') \<in> set (mLayerStates a). is_candidate H (mFbInfo a) st' \<longrightarrow> area_of st' \<le> area_of st))) \<and>
    map_of (mChangedTypes a') =
      (\<lambda>l. case map_of (mLayerStates a) l of
             None \<Rightarrow> None
           | Some st \<Rightarrow> if ls_requestedType st \<noteq> new_type H a' l then Some (new_type H a' l) else None) \<and>
    types = card (dom (map_of (mChangedTypes a'))) \<and>
    mClearClientTargetLayers a' =
      (if mHasOverlayLayer a' \<and> 1 < length (mLayerStates a) then [mOverlayLayer a'] else []) \<and>
    requests = length (mClearClientTargetLayers a')"
proof -
  obtain v where v: "overlay_chosen H (he_property E io) a v" "validateLayers E H a io =
      Some ((length (mChangedTypes (validated E H v io a)), length (mClearClientTargetLayers (validated E H v io a))),
        validated E H v io a, io @ [GetProperty])"
    by (rule validateLayers_chosen [OF assms(1,2)])
  let ?a' = "validated E H v io a"
  have clear: "mClearClientTargetLayers ?a' =
      (if mHasOverlayLayer ?a' \<and> 1 < length (mLayerStates a) then [mOverlayLayer ?a'] else [])"
    using validated_uses_client [OF assms(1) v(1) assms(4), of E io] by simp
  show ?thesis
    by (intro exI conjI, rule v(2))
      (use overlay_chosenD(1) [OF v(1)] in simp, use overlay_chosenD(2) [OF v(1)] in simp,
       simp only: validated_fields(3) validated_types(1) [OF assms(1,3)],
       rule validated_types(2) [OF assms(1,3)], rule clear, rule refl)
qed

text \<open>
  C37. Accepting settles the types: after a validation and the acceptance of its changes, a second
  validation under the same setting of the property changes nothing at all. It reports no changed
  type and the same requests, and the same layer keeps the overlay.
\<close>

theorem accepting_settles:
  assumes "adapter_inv a" "given_ok a" "hash_tables_ok E"
    "HWC2_COMPOSITION_DEVICE H \<noteq> HWC2_COMPOSITION_CLIENT H"
    "validateLayers E H a io = Some ((types, requests), a', io')" "he_property E io'' = he_property E io"
  shows "validateLayers E H (acceptChanges a') io'' =
    Some ((0, requests), acceptChanges a', io'' @ [GetProperty])"
proof -
  let ?en = "he_property E io"
  obtain v where v: "overlay_chosen H ?en a v" "a' = validated E H v io a"
    "requests = length (mClearClientTargetLayers a')"
    using validateLayers_chosen [OF assms(1,2), of H E io] assms(5) by (metis Pair_inject option.inject)
  have c_ok: "adapter_inv (acceptChanges a')" "given_ok (acceptChanges a')"
    using validateLayers_inv [OF assms(1-3), of H io] assms(5) acceptChanges_inv acceptChanges_given by auto
  obtain w where w: "overlay_chosen H ?en (acceptChanges a') w" "validateLayers E H (acceptChanges a') io'' =
      Some ((length (mChangedTypes (validated E H w io'' (acceptChanges a'))),
        length (mClearClientTargetLayers (validated E H w io'' (acceptChanges a')))),
        validated E H w io'' (acceptChanges a'), io'' @ [GetProperty])"
    by (rule validateLayers_chosen [OF c_ok, of H E io'', unfolded assms(6)])
  have "w = v" using accepted_same_choice [OF v(1) assms(4) refl w(1) [unfolded v(2)]] .
  then have "validated E H w io'' (acceptChanges a') = acceptChanges a'"
    using validated_again [OF assms(3,6)] v(2) by simp
  then show ?thesis using w(2) v(3) by (simp add: acceptChanges_def)
qed

text \<open>
  C38. Posting a frame, from a state the composer can reach (\<open>adapter_inv\<close>) with well-formed buffers
  and frames (\<open>given_ok\<close>). The overlay engine is tried exactly when a layer is on the overlay, the
  client target is there if it is needed, and \<open>fillDssLayer\<close> can describe each of them; it is then
  given one layer, or two when a client composes as well: the video first, on the DMA channel, the
  client target over it, on the frame buffer's channel, with the whole display as the dirty
  rectangle. Its device is closed whenever it could be opened, and a fence it returned is closed.
  The frame is shown exactly if the device opens and the driver takes the overlay, and then
  nothing else happens; otherwise the client target, if there is one, is posted to the frame buffer,
  and if a layer was on the overlay it is turned off and the adapter is modified.
\<close>

theorem frame_is_posted:
  assumes "adapter_inv a" "given_ok a"
  shows "\<exists>shown a' calls. postBuffer E H a io = Some (shown, a', io @ calls) \<and>
    (if overlay_ready H a then
       \<exists>ov. (shown \<longleftrightarrow> he_open E io \<and> fst (he_ioctl E (io @ [OpenFb]) ov)) \<and>
         calls =
           (if he_open E io
            then [OpenFb, OnlinePlay ov, CloseFb] @ close_fence (snd (he_ioctl E (io @ [OpenFb]) ov))
            else [OpenFb]) @ (if shown then [] else fb_post a) \<and>
         layer_nums ov = (if mOverlayUsesClientTarget a then 2 else 1) \<and>
         length (layer_infos ov) = kHisiMaxLayers \<and>
         (\<forall>k < kHisiMaxLayers. layer_nums ov \<le> int k \<longrightarrow> layer_infos ov ! k = zero_layer) \<and>
         video_layer H a (layer_infos ov ! 0) \<and> video_fill H a = Some (Some (layer_infos ov ! 0)) \<and>
         (mOverlayUsesClientTarget a \<longrightarrow> client_layer H a (layer_infos ov ! 1) \<and>
            client_fill H a = Some (Some (layer_infos ov ! 1))) \<and>
         dirty_rect ov =
           \<lparr>rect_x = 0, rect_y = 0, rect_w = info_width (mFbInfo a), rect_h = info_height (mFbInfo a)\<rparr> \<and>
         ov_release_fence ov = - 1
     else \<not> shown \<and> calls = fb_post a) \<and>
    a' = (if shown \<or> \<not> mHasOverlayLayer a then a
          else a\<lparr>mOverlayDisabledByError := True, mHasOverlayLayer := False,
                 mOverlayUsesClientTarget := False, mState := MODIFIED\<rparr>)"
proof (cases "overlay_ready H a")
  case ready: True
  then have on: "mHasOverlayLayer a" by (simp add: overlay_ready_def)
  obtain ov shown tries where r: "overlay_of H a ov" "attempt E ov io = (shown, tries)"
    "postBuffer E H a io =
       (if shown then Some (True, a, io @ tries) else Some (False, overlay_failed a, io @ tries @ fb_post a))"
    using postBuffer_result [OF assms, of H E io] ready by auto
  have s: "(shown \<longleftrightarrow> he_open E io \<and> fst (he_ioctl E (io @ [OpenFb]) ov)) \<and>
      tries = (if he_open E io
        then [OpenFb, OnlinePlay ov, CloseFb] @ close_fence (snd (he_ioctl E (io @ [OpenFb]) ov))
        else [OpenFb])"
    using r(2) by (auto simp: attempt_def split: if_splits prod.splits)
  show ?thesis
    unfolding if_P [OF ready]
    by (intro exI [of _ shown] exI [of _ "if shown then a else overlay_failed a"]
        exI [of _ "tries @ (if shown then [] else fb_post a)"] exI [of _ ov] conjI)
      (use s on r(3) overlay_of_payload [OF r(1)] in \<open>simp_all add: overlay_failed_def\<close>)
next
  case False
  with postBuffer_result [OF assms, of H E io] show ?thesis
    unfolding if_not_P [OF False] by (intro exI [of _ False]) (simp add: overlay_failed_def)
qed

text \<open>What is done in a state where an error has disabled the overlay, and \<open>mBuffer\<close> is \<open>buffer\<close>.\<close>

fun calls_without_overlay :: "buffer_handle_t \<Rightarrow> hwc_op list \<Rightarrow> hwc_log" where
  "calls_without_overlay buffer [] = []"
| "calls_without_overlay buffer (op # ops) =
     (case op of
        SetClientTarget buffer' \<Rightarrow> calls_without_overlay buffer' ops
      | Validate \<Rightarrow> GetProperty # calls_without_overlay buffer ops
      | Post \<Rightarrow> (case buffer of Some b \<Rightarrow> [FbPost b] | None \<Rightarrow> []) @ calls_without_overlay buffer ops
      | _ \<Rightarrow> calls_without_overlay buffer ops)"

lemma set_layer_buffer [simp]: "mBuffer (snd (set_layer f layer a)) = mBuffer a"
  by (simp add: set_layer_def split: option.splits)

lemma setLayerHook_buffer [simp]:
  "mBuffer (snd (setLayerHook (set_layer f layer) display a)) = mBuffer a"
  using setLayerHook_result [of f layer display a] by auto

lemma adopt_overlay_buffer [simp]: "mBuffer (adopt_overlay E H v a) = mBuffer a"
  by (simp add: adopt_overlay_def Let_def split: prod.split)

lemma calls_without_overlay_Cons:
  assumes "hwc_step E H op (a, io) = Some (a1, io1)" "adapter_inv a" "given_ok a" "mOverlayDisabledByError a"
  shows "io1 @ calls_without_overlay (mBuffer a1) ops = io @ calls_without_overlay (mBuffer a) (op # ops)"
proof (cases op)
  case Validate
  obtain v en dis where "validateLayers E H a io =
       (let a1 = adopt_overlay E H v (a\<lparr>mOverlayEnabled := en, mOverlayDisabledByError := dis\<rparr>)
        in Some ((length (mChangedTypes a1), length (mClearClientTargetLayers a1)), a1, io @ [GetProperty]))"
    using validateLayers_result [OF assms(3), of E io H] by metis
  with assms(1) Validate have "a1 = adopt_overlay E H v (a\<lparr>mOverlayEnabled := en, mOverlayDisabledByError := dis\<rparr>)"
    "io1 = io @ [GetProperty]"
    by (simp_all add: Let_def)
  then show ?thesis by (simp add: Validate)
next
  case Post
  from assms(2,4) have "\<not> mHasOverlayLayer a" by (simp add: adapter_inv_def)
  with assms(1) Post show ?thesis by (auto simp: postBuffer_def split: option.splits)
next
  case AddLayer
  then show ?thesis using assms(1) by (auto simp: addLayer_def Let_def)
next
  case (RemoveLayer layer)
  then show ?thesis using assms(1) by (auto simp: removeLayer_def Let_def split: if_splits)
next
  case Accept
  then show ?thesis using assms(1) by (auto simp: acceptChanges_def)
next
  case (SetClientTarget buffer)
  then show ?thesis using assms(1) by (auto simp: setBuffer_def)
qed (use assms(1) in \<open>auto simp: hook_defs\<close>)

text \<open>
  C39. An error turns the overlay off for good. From a state where an error has disabled it, which the
  composer can reach (\<open>adapter_inv\<close>, \<open>given_ok\<close>), and while the property stays on, take any sequence of
  calls with well-formed buffers and frames (\<open>op_ok\<close>), short enough that the layer numbers do not run out
  at \<open>2 ^ 64\<close>. Every post of a frame posts the client target set last, if there is one, to the
  frame buffer, every validation reads the property, and nothing else is done: the overlay's
  device is not opened again, and no layer is on the overlay. A validation that finds the property
  off forgets the error.
\<close>

theorem no_overlay_after_error:
  assumes "adapter_inv a" "given_ok a" "hash_tables_ok E" "list_all op_ok ops"
    "mNextLayerId a + int (length ops) < 2 ^ 64" "mOverlayDisabledByError a"
    "\<And>calls. he_property E (io @ calls)"
  shows "\<exists>a' calls. hwc_run E H ops (a, io) = Some (a', io @ calls) \<and>
    calls = calls_without_overlay (mBuffer a) ops \<and> list_all quiet calls \<and>
    mOverlayDisabledByError a' \<and> \<not> mHasOverlayLayer a' \<and>
    (\<forall>E' io'. \<not> he_property E' io' \<longrightarrow>
       (\<exists>r a''. validateLayers E' H a' io' = Some (r, a'', io' @ [GetProperty]) \<and>
          \<not> mOverlayDisabledByError a''))"
  using assms
proof (induction ops arbitrary: a io)
  case Nil
  have "\<exists>r a''. validateLayers E' H a io' = Some (r, a'', io' @ [GetProperty]) \<and> \<not> mOverlayDisabledByError a''"
    if "\<not> he_property E' io'" for E' io'
    using that by (simp add: validateLayers_def Let_def adopt_overlay_def split: prod.split)
  with Nil show ?case by (auto simp: adapter_inv_def intro: exI [of _ "[]"])
next
  case (Cons op ops)
  have ok: "op_ok op" "mNextLayerId a + 1 < 2 ^ 64" "he_property E io"
    using Cons.prems(4,5) Cons.prems(7) [of "[]"] by simp_all
  obtain a1 calls where 1: "hwc_step E H op (a, io) = Some (a1, io @ calls)" "list_all quiet calls"
    "mOverlayDisabledByError a1"
    using hwc_step_disabled [OF Cons.prems(1-3) ok(1,2) Cons.prems(6) ok(3), of H] by blast
  have inv: "adapter_inv a1" "given_ok a1" "mNextLayerId a1 = mNextLayerId a + adds op"
    using hwc_step_inv [OF Cons.prems(1-3) ok(1,2), of H io] 1(1) by auto
  have all: "calls @ calls_without_overlay (mBuffer a1) ops = calls_without_overlay (mBuffer a) (op # ops)"
    using calls_without_overlay_Cons [OF 1(1) Cons.prems(1,2,6), of ops] by simp
  have "mNextLayerId a1 + int (length ops) < 2 ^ 64"
    using Cons.prems(5) inv(3) by (simp add: adds_def split: if_splits)
  moreover have "he_property E ((io @ calls) @ more)" for more using Cons.prems(7) [of "calls @ more"] by simp
  ultimately obtain a' calls' where 2: "hwc_run E H ops (a1, io @ calls) = Some (a', (io @ calls) @ calls')"
    "calls' = calls_without_overlay (mBuffer a1) ops"
    "list_all quiet calls'" "mOverlayDisabledByError a'" "\<not> mHasOverlayLayer a'"
    "\<forall>E' io'. \<not> he_property E' io' \<longrightarrow>
       (\<exists>r a''. validateLayers E' H a' io' = Some (r, a'', io' @ [GetProperty]) \<and>
          \<not> mOverlayDisabledByError a'')"
    using Cons.IH [OF inv(1,2) Cons.prems(3), of "io @ calls"] Cons.prems(4) 1(3) by auto
  have "hwc_run E H (op # ops) (a, io) = Some (a', io @ calls @ calls')"
    "list_all quiet (calls @ calls')"
    using 1(1,2) 2(1,3) by (simp_all del: calls_without_overlay.simps)
  with 2(4-6) all [folded 2(2)] show ?case by blast
qed

section \<open>Witnesses\<close>

text \<open>Two layers on a display of 1920 by 1080, the second with a video.\<close>

definition demo_env :: "bool \<times> int \<Rightarrow> hwc_env" where
  "demo_env result =
     \<lparr>he_property = (\<lambda>io. True), he_open = (\<lambda>io. True), he_ioctl = (\<lambda>io overlay. result),
      he_states = (\<lambda>entries. entries), he_changed = (\<lambda>entries. entries)\<rparr>"

definition demo_frame :: hwc_rect_t where
  "demo_frame = \<lparr>rect_left = 0, rect_top = 0, rect_right = 1200, rect_bottom = 675\<rparr>"

definition demo_crop :: hwc_frect_t where
  "demo_crop = \<lparr>crop_left = f_int 0, crop_top = f_int 0, crop_right = f_int 1920, crop_bottom = f_int 1080\<rparr>"

definition demo_ops :: "hwc_op list" where
  "demo_ops =
     [AddLayer, AddLayer, SetCompositionType 0 1 2, SetBuffer 2 (Some (demo_handle 0x101)), SetCompositionType 0 2 2,
      SetDisplayFrame 0 2 demo_frame, SetSourceCrop 0 2 demo_crop]"

definition demo_new :: adapter where
  "demo_new = new_adapter 0 MODIFIED \<lparr>info_width = 1920, info_height = 1080\<rparr>"

definition demo_adapter :: adapter where
  "demo_adapter = fst (the (hwc_run (demo_env (True, 7)) demo_hwc demo_ops (demo_new, [])))"

lemma demo_env_ok: "hash_tables_ok (demo_env result)"
  by (simp add: hash_tables_ok_def demo_env_def)

definition demo_valid :: "bool \<times> int \<Rightarrow> adapter" where
  "demo_valid result =
     fst (the (hwc_run (demo_env result) demo_hwc [Validate, Accept, SetClientTarget (Some (demo_handle 1))]
       (demo_adapter, [])))"

lemma demo_adapter_ok:
  "adapter_inv demo_adapter" "given_ok demo_adapter"
  "HWC2_COMPOSITION_DEVICE demo_hwc \<noteq> HWC2_COMPOSITION_CLIENT demo_hwc"
  by code_simp+

definition plays :: "hwc_call \<Rightarrow> bool" where
  "plays call = (case call of OnlinePlay overlay \<Rightarrow> True | _ \<Rightarrow> False)"

lemma playsD:
  assumes "list_ex plays calls"
  shows "\<exists>ov. OnlinePlay ov \<in> set calls"
proof -
  obtain c where "c \<in> set calls" "plays c" using assms by (auto simp: list_ex_iff)
  then show ?thesis by - (cases c, auto simp: plays_def)
qed

theorem adapter_well_formed_witness:
  "\<exists>a io. hwc_run (demo_env (True, 7)) demo_hwc (demo_ops @ [Validate, SetClientTarget (Some (demo_handle 1)), Post])
      (new_adapter 0 MODIFIED \<lparr>info_width = 1920, info_height = 1080\<rparr>, []) = Some (a, io) \<and>
    adapter_inv a \<and> given_ok a \<and> mNextLayerId a = 2"
proof -
  let ?ops = "demo_ops @ [Validate, SetClientTarget (Some (demo_handle 1)), Post]"
  have "list_all op_ok ?ops" by code_simp
  moreover have "length ?ops < 2 ^ 64" "count_list ?ops AddLayer = 2" by (simp_all add: demo_ops_def)
  ultimately show ?thesis
    using adapter_well_formed [OF demo_env_ok, of ?ops "(True, 7)" demo_hwc 0 MODIFIED
        "\<lparr>info_width = 1920, info_height = 1080\<rparr>"] by simp
qed

theorem overlay_is_largest_candidate_witness:
  "\<exists>a'. validateLayers (demo_env (True, 7)) demo_hwc demo_adapter [] = Some ((1, 1), a', [GetProperty]) \<and>
    mHasOverlayLayer a' \<and> map_of (mChangedTypes a') 1 = Some 1 \<and> map_of (mChangedTypes a') 2 = None"
proof -
  let ?f = "validateLayers (demo_env (True, 7)) demo_hwc demo_adapter []"
  obtain types requests a' where
    "?f = Some ((types, requests), a', [] @ [GetProperty])" and
    changed: "map_of (mChangedTypes a') =
      (\<lambda>l. case map_of (mLayerStates demo_adapter) l of
             None \<Rightarrow> None
           | Some st \<Rightarrow> if ls_requestedType st \<noteq> new_type demo_hwc a' l
               then Some (new_type demo_hwc a' l) else None)"
    using overlay_is_largest_candidate [OF demo_adapter_ok(1,2) demo_env_ok demo_adapter_ok(3), of "(True, 7)" "[]"]
    by blast
  moreover have "map_option (\<lambda>(n, a, io). (n, mHasOverlayLayer a, mOverlayLayer a)) ?f = Some ((1, 1), True, 2)"
    by code_simp
  moreover have "map_option ls_requestedType (map_of (mLayerStates demo_adapter) 1) = Some 2"
    "map_option ls_requestedType (map_of (mLayerStates demo_adapter) 2) = Some 2"
    "HWC2_COMPOSITION_DEVICE demo_hwc = 2" "HWC2_COMPOSITION_CLIENT demo_hwc = 1"
    by code_simp+
  ultimately show ?thesis by (auto simp: new_type_def)
qed

theorem accepting_settles_witness:
  "\<exists>a. validateLayers (demo_env (True, 7)) demo_hwc demo_adapter [] = Some ((1, 1), a, [GetProperty]) \<and>
    validateLayers (demo_env (True, 7)) demo_hwc (acceptChanges a) [GetProperty] =
      Some ((0, 1), acceptChanges a, [GetProperty, GetProperty])"
proof -
  let ?f = "validateLayers (demo_env (True, 7)) demo_hwc demo_adapter []"
  have "map_option (\<lambda>(n, a, io). (n, io)) ?f = Some ((1, 1), [GetProperty])" by code_simp
  then obtain a where a: "?f = Some ((1, 1), a, [GetProperty])" by auto
  have "he_property (demo_env (True, 7)) [GetProperty] = he_property (demo_env (True, 7)) []"
    by (simp add: demo_env_def)
  from accepting_settles [OF demo_adapter_ok(1,2) demo_env_ok demo_adapter_ok(3) a this] a show ?thesis by simp
qed

theorem frame_is_posted_witness:
  "\<exists>a' calls ov. postBuffer (demo_env (False, 7)) demo_hwc (demo_valid (False, 7)) [] = Some (False, a', calls) \<and>
    calls = [OpenFb, OnlinePlay ov, CloseFb, CloseFence 7, FbPost (demo_handle 1)] \<and>
    layer_nums ov = 2 \<and> mOverlayDisabledByError a'"
proof -
  let ?a = "demo_valid (False, 7)"
  have ok: "adapter_inv ?a" "given_ok ?a" by code_simp+
  have s: "overlay_ready demo_hwc ?a" "mOverlayUsesClientTarget ?a" "mHasOverlayLayer ?a"
    "fb_post ?a = [FbPost (demo_handle 1)]"
    by code_simp+
  have he: "he_open (demo_env (False, 7)) io" "he_ioctl (demo_env (False, 7)) io ov = (False, 7)" for io ov
    by (simp_all add: demo_env_def)
  from frame_is_posted [OF ok, of "demo_env (False, 7)" demo_hwc "[]"] show ?thesis
    unfolding if_P [OF s(1)] by (auto simp: s he close_fence_def)
qed

theorem no_overlay_after_error_witness:
  "\<exists>a' calls. hwc_run (demo_env (True, 7)) demo_hwc [Validate, SetClientTarget (Some (demo_handle 1)), Post]
      (overlay_failed demo_adapter, []) = Some (a', calls) \<and>
    calls = [GetProperty, FbPost (demo_handle 1)] \<and> mOverlayDisabledByError a' \<and> \<not> mHasOverlayLayer a'"
proof -
  let ?ops = "[Validate, SetClientTarget (Some (demo_handle 1)), Post]"
  have "adapter_inv (overlay_failed demo_adapter)" "given_ok (overlay_failed demo_adapter)"
    "list_all op_ok ?ops" "mOverlayDisabledByError (overlay_failed demo_adapter)"
    "mNextLayerId (overlay_failed demo_adapter) + int (length ?ops) < 2 ^ 64"
    by code_simp+
  moreover have "he_property (demo_env (True, 7)) ([] @ calls)" for calls by (simp add: demo_env_def)
  ultimately obtain a' calls where "hwc_run (demo_env (True, 7)) demo_hwc ?ops (overlay_failed demo_adapter, []) =
      Some (a', [] @ calls)" "calls = calls_without_overlay (mBuffer (overlay_failed demo_adapter)) ?ops"
    "mOverlayDisabledByError a'" "\<not> mHasOverlayLayer a'"
    using no_overlay_after_error [of "overlay_failed demo_adapter" "demo_env (True, 7)" ?ops "[]" demo_hwc]
      demo_env_ok by blast
  then show ?thesis by (intro exI [of _ a'] exI [of _ calls]) simp
qed

end
