(* ===== verification/LayerStore.thy ===== *)
theory LayerStore
  imports HwcComposer
begin

text \<open>
  The states of the layers as the composer sees them: a store from layers to states, in which
  every setter of \<open>HWC2OnFbAdapter\<close> writes its own field of one layer. The setters share a
  contract, stated as a locale, and any sequence of calls acts on the store as specified here.
\<close>

section \<open>The store\<close>

text \<open>
  The two types of a layer are the subject of a validation and of its acceptance; the store has
  the other fields, under the layers that exist, and the number given to the last layer added.
\<close>

type_synonym store = "int \<rightharpoonup> layer_state"

definition visible :: "layer_state \<Rightarrow> layer_state" where
  "visible st = st\<lparr>ls_requestedType := 0, ls_validatedType := 0\<rparr>"

definition store_of :: "adapter \<Rightarrow> int \<times> store" where
  "store_of a = (mNextLayerId a, \<lambda>l. map_option visible (map_of (mLayerStates a) l))"

definition put_field :: "(layer_state \<Rightarrow> layer_state) \<Rightarrow> bool \<Rightarrow> int \<Rightarrow> int \<times> store \<Rightarrow> int \<times> store" where
  "put_field f known l s = (if known then (fst s, (snd s)(l := map_option f (snd s l))) else s)"

fun spec_step :: "hwc_h \<Rightarrow> int \<Rightarrow> hwc_op \<Rightarrow> int \<times> store \<Rightarrow> int \<times> store" where
  "spec_step H d AddLayer s = (fst s + 1, (snd s)(fst s + 1 \<mapsto> visible (new_layer_state H)))"
| "spec_step H d (RemoveLayer l) s = (fst s, (snd s)(l := None))"
| "spec_step H d (SetBuffer l v) s = put_field (\<lambda>st. st\<lparr>ls_buffer := v\<rparr>) True l s"
| "spec_step H d (SetBlendMode display l v) s = put_field (\<lambda>st. st\<lparr>ls_blendMode := v\<rparr>) (d = display) l s"
| "spec_step H d (SetDisplayFrame display l v) s = put_field (\<lambda>st. st\<lparr>ls_displayFrame := v\<rparr>) (d = display) l s"
| "spec_step H d (SetPlaneAlpha display l v) s = put_field (\<lambda>st. st\<lparr>ls_planeAlpha := v\<rparr>) (d = display) l s"
| "spec_step H d (SetSourceCrop display l v) s = put_field (\<lambda>st. st\<lparr>ls_sourceCrop := v\<rparr>) (d = display) l s"
| "spec_step H d (SetTransform display l v) s = put_field (\<lambda>st. st\<lparr>ls_transform := v\<rparr>) (d = display) l s"
| "spec_step H d (SetZOrder display l v) s = put_field (\<lambda>st. st\<lparr>ls_z := v\<rparr>) (d = display) l s"
| "spec_step H d op s = s"

text \<open>The fields a setter writes are kept by the view.\<close>

lemma visible_simps [simp]:
  "visible (st\<lparr>ls_buffer := b\<rparr>) = (visible st)\<lparr>ls_buffer := b\<rparr>"
  "visible (st\<lparr>ls_blendMode := m\<rparr>) = (visible st)\<lparr>ls_blendMode := m\<rparr>"
  "visible (st\<lparr>ls_displayFrame := fr\<rparr>) = (visible st)\<lparr>ls_displayFrame := fr\<rparr>"
  "visible (st\<lparr>ls_planeAlpha := p\<rparr>) = (visible st)\<lparr>ls_planeAlpha := p\<rparr>"
  "visible (st\<lparr>ls_sourceCrop := c\<rparr>) = (visible st)\<lparr>ls_sourceCrop := c\<rparr>"
  "visible (st\<lparr>ls_transform := t\<rparr>) = (visible st)\<lparr>ls_transform := t\<rparr>"
  "visible (st\<lparr>ls_z := z\<rparr>) = (visible st)\<lparr>ls_z := z\<rparr>"
  "visible (st\<lparr>ls_requestedType := q\<rparr>) = visible st"
  "visible (st\<lparr>ls_validatedType := q\<rparr>) = visible st"
  by (cases st, simp add: visible_def)+

lemma map_of_map_states: "map_of (map (\<lambda>(l, st). (l, f l st)) al) l = map_option (f l) (map_of al l)"
  by (induction al) auto

text \<open>Validating, accepting and posting change no field the store has.\<close>

lemma store_of_adopt: "store_of (adopt_overlay E H v a) = store_of a"
  by (simp add: store_of_def adopt_overlay_data map_of_map_states option.map_comp comp_def)

lemma store_of_accept: "store_of (acceptChanges a) = store_of a"
  by (simp add: store_of_def acceptChanges_def map_of_map_states option.map_comp comp_def)

lemma store_of_flags [simp]:
  "store_of (a\<lparr>mOverlayEnabled := e\<rparr>) = store_of a" "store_of (a\<lparr>mOverlayDisabledByError := d\<rparr>) = store_of a"
  "store_of (a\<lparr>mBuffer := b\<rparr>) = store_of a" "store_of (overlay_failed a) = store_of a"
  by (simp_all add: store_of_def overlay_failed_def)

section \<open>The contract of a setter\<close>

text \<open>
  A setter refuses a layer that does not exist. Otherwise it changes one field of its state, and
  leaves the other layers, the order of the table and the rest of the adapter alone.
\<close>

locale layer_setter =
  fixes setter :: "int \<Rightarrow> 'v \<Rightarrow> adapter \<Rightarrow> bool \<times> adapter"
    and put :: "'v \<Rightarrow> layer_state \<Rightarrow> layer_state"
  assumes unknown: "map_of (mLayerStates a) l = None \<Longrightarrow> setter l v a = (False, a)"
    and known: "map_of (mLayerStates a) l = Some st \<Longrightarrow>
      \<exists>states. setter l v a = (True, a\<lparr>mLayerStates := states\<rparr>) \<and>
        map_of states = (map_of (mLayerStates a))(l \<mapsto> put v st) \<and>
        map fst states = map fst (mLayerStates a)"
begin

lemma setter_cases:
  obtains "map_of (mLayerStates a) l = None" "setter l v a = (False, a)"
  | st states where "map_of (mLayerStates a) l = Some st" "setter l v a = (True, a\<lparr>mLayerStates := states\<rparr>)"
      "map_of states = (map_of (mLayerStates a))(l \<mapsto> put v st)"
proof (cases "map_of (mLayerStates a) l")
  case None
  then show thesis using that(1) unknown by blast
next
  case (Some st)
  from known [OF Some, of v] obtain states where
    k: "setter l v a = (True, a\<lparr>mLayerStates := states\<rparr>)"
    "map_of states = (map_of (mLayerStates a))(l \<mapsto> put v st)" by (elim exE conjE)
  show thesis by (rule that(2) [OF Some k])
qed

text \<open>The error of the hook is decided by the display and the layer, and an error changes nothing.\<close>

lemma hook_error:
  "fst (setLayerHook (setter l v) display a) =
     (if mDisplayId a \<noteq> display then HWC2_ERROR_BAD_DISPLAY
      else if map_of (mLayerStates a) l = None then HWC2_ERROR_BAD_LAYER else HWC2_ERROR_NONE)"
  by (rule setter_cases [of a l v]) (simp_all add: setLayerHook_def)

lemma hook_refused:
  "fst (setLayerHook (setter l v) display a) \<noteq> HWC2_ERROR_NONE \<Longrightarrow>
     snd (setLayerHook (setter l v) display a) = a"
  by (rule setter_cases [of a l v]) (simp_all add: setLayerHook_def split: if_splits)

lemma states_after:
  "map_of (mLayerStates (snd (setter l v a))) =
     (map_of (mLayerStates a))(l := map_option (put v) (map_of (mLayerStates a) l))"
  by (rule setter_cases [of a l v]) auto

lemma hook_states:
  "map_of (mLayerStates (snd (setLayerHook (setter l v) display a))) =
     (if mDisplayId a = display then
        (map_of (mLayerStates a))(l := map_option (put v) (map_of (mLayerStates a) l))
      else map_of (mLayerStates a))"
  using states_after [of l v a] by (auto simp: setLayerHook_def Let_def split: prod.split)

lemma rest:
  "mNextLayerId (snd (setter l v a)) = mNextLayerId a" "mDisplayId (snd (setter l v a)) = mDisplayId a"
  by (rule setter_cases [of a l v]; simp)+

lemma hook_rest:
  "mNextLayerId (snd (setLayerHook (setter l v) display a)) = mNextLayerId a"
  "mDisplayId (snd (setLayerHook (setter l v) display a)) = mDisplayId a"
  using rest [of l v a] by (auto simp: setLayerHook_def Let_def split: prod.split)

end

text \<open>A setter of a field the store has acts on the store as writing that field.\<close>

locale visible_setter = layer_setter +
  assumes visible: "visible (put v st) = put v (visible st)"
begin

lemma states_store:
  assumes "map_of (mLayerStates a') = (if known then
      (map_of (mLayerStates a))(l := map_option (put v) (map_of (mLayerStates a) l))
      else map_of (mLayerStates a))"
    "mNextLayerId a' = mNextLayerId a"
  shows "store_of a' = put_field (put v) known l (store_of a)"
  using assms by (auto simp: store_of_def put_field_def option.map_comp comp_def visible)

lemma store: "store_of (snd (setter l v a)) = put_field (put v) True l (store_of a)"
  by (rule states_store) (simp_all add: states_after rest)

lemma hook_store:
  "store_of (snd (setLayerHook (setter l v) display a)) =
     put_field (put v) (mDisplayId a = display) l (store_of a)"
  by (rule states_store) (simp_all add: hook_states hook_rest)

end

text \<open>The setters of the code meet the contract, each with its field.\<close>

lemma set_layer_contract:
  "map_of (mLayerStates a) l = None \<Longrightarrow> set_layer f l a = (False, a)"
  "map_of (mLayerStates a) l = Some st \<Longrightarrow>
     \<exists>states. set_layer f l a = (True, a\<lparr>mLayerStates := states\<rparr>) \<and>
       map_of states = (map_of (mLayerStates a))(l \<mapsto> f st) \<and> map fst states = map fst (mLayerStates a)"
  by (auto simp: set_layer_def update_conv' map_fst_AList_update)

interpretation buffer: visible_setter setLayerBuffer "\<lambda>v st. st\<lparr>ls_buffer := v\<rparr>"
  unfolding setLayerBuffer_def by unfold_locales (simp_all add: set_layer_contract)

interpretation composition: layer_setter setLayerCompositionType "\<lambda>v st. st\<lparr>ls_requestedType := v\<rparr>"
  unfolding setLayerCompositionType_def by unfold_locales (simp_all add: set_layer_contract)

interpretation blend: visible_setter setLayerBlendMode "\<lambda>v st. st\<lparr>ls_blendMode := v\<rparr>"
  unfolding setLayerBlendMode_def by unfold_locales (simp_all add: set_layer_contract)

interpretation frame: visible_setter setLayerDisplayFrame "\<lambda>v st. st\<lparr>ls_displayFrame := v\<rparr>"
  unfolding setLayerDisplayFrame_def by unfold_locales (simp_all add: set_layer_contract)

interpretation alpha: visible_setter setLayerPlaneAlpha "\<lambda>v st. st\<lparr>ls_planeAlpha := v\<rparr>"
  unfolding setLayerPlaneAlpha_def by unfold_locales (simp_all add: set_layer_contract)

interpretation crop: visible_setter setLayerSourceCrop "\<lambda>v st. st\<lparr>ls_sourceCrop := v\<rparr>"
  unfolding setLayerSourceCrop_def by unfold_locales (simp_all add: set_layer_contract)

interpretation transform: visible_setter setLayerTransform "\<lambda>v st. st\<lparr>ls_transform := v\<rparr>"
  unfolding setLayerTransform_def by unfold_locales (simp_all add: set_layer_contract)

interpretation order: visible_setter setLayerZOrder "\<lambda>v st. st\<lparr>ls_z := v\<rparr>"
  unfolding setLayerZOrder_def by unfold_locales (simp_all add: set_layer_contract)

lemmas hook_defs' =
  setLayerCompositionTypeHook_def setLayerBlendModeHook_def setLayerDisplayFrameHook_def
  setLayerPlaneAlphaHook_def setLayerSourceCropHook_def setLayerTransformHook_def setLayerZOrderHook_def

lemmas setter_stores =
  buffer.store blend.hook_store frame.hook_store alpha.hook_store crop.hook_store transform.hook_store
  order.hook_store

lemmas setter_displays =
  buffer.rest(2) composition.hook_rest(2) blend.hook_rest(2) frame.hook_rest(2) alpha.hook_rest(2)
  crop.hook_rest(2) transform.hook_rest(2) order.hook_rest(2)

section \<open>Every call acts on the store\<close>

lemma fresh_layer:
  assumes "adapter_inv a"
  shows "map_of (mLayerStates a) (mNextLayerId a + 1) = None"
proof -
  have "list_all (\<lambda>l. 1 \<le> l \<and> l \<le> mNextLayerId a) (mLayers a)" using assms by (simp add: adapter_inv_def)
  then have "mNextLayerId a + 1 \<notin> set (mLayers a)" by (auto simp: list_all_iff)
  with assms have "mNextLayerId a + 1 \<notin> fst ` set (mLayerStates a)" by (simp add: adapter_inv_def)
  then show ?thesis by (simp add: map_of_eq_None_iff)
qed

lemma addLayer_store:
  assumes "adapter_inv a" "hash_tables_ok E" "mNextLayerId a + 1 < 2 ^ 64"
  shows "store_of (snd (addLayer E H a)) = spec_step H d AddLayer (store_of a)"
proof -
  let ?n = "mNextLayerId a + 1"
  let ?entries = "(?n, new_layer_state H) # mLayerStates a"
  have n: "?n mod 2 ^ 64 = ?n" using assms(1,3) by (simp add: adapter_inv_def)
  have "distinct (map fst ?entries)"
    using assms(1) fresh_layer [OF assms(1)] by (simp add: adapter_inv_def map_of_eq_None_iff)
  moreover have "mset ?entries = mset (he_states E ?entries)" using assms(2) by (simp add: hash_tables_ok_def)
  ultimately have "map_of (he_states E ?entries) = map_of ?entries" using map_of_mset by metis
  then show ?thesis
    using fresh_layer [OF assms(1)] by (auto simp: addLayer_def store_of_def n [simplified] Let_def)
qed

lemma removeLayer_store:
  assumes "adapter_inv a"
  shows "store_of (snd (removeLayer l a)) = spec_step H d (RemoveLayer l) (store_of a)"
proof (cases "l \<in> set (mLayers a)")
  case False
  with assms have "map_of (mLayerStates a) l = None" by (simp add: adapter_inv_def map_of_eq_None_iff)
  with False show ?thesis by (auto simp: removeLayer_def store_of_def)
qed (auto simp: removeLayer_def store_of_def Let_def delete_conv')

lemma validated_result:
  assumes "adapter_inv a" "given_ok a"
  shows "\<exists>n v. validateLayers E H a io = Some (n, validated E H v io a, io @ [GetProperty])"
  by (rule validateLayers_chosen [OF assms, of H E io]) blast

lemma hwc_step_store:
  assumes "adapter_inv a" "given_ok a" "hash_tables_ok E" "mNextLayerId a + 1 < 2 ^ 64"
    "hwc_step E H op (a, io) = Some (a', io')"
  shows "store_of a' = spec_step H (mDisplayId a) op (store_of a)"
proof (cases op)
  case AddLayer
  with assms addLayer_store show ?thesis by auto
next
  case (RemoveLayer l)
  with assms removeLayer_store show ?thesis by auto
next
  case Validate
  from validated_result [OF assms(1,2), of E H io] assms(5) Validate
  obtain v where "a' = validated E H v io a" by auto
  with Validate show ?thesis by (simp add: validated_def store_of_adopt)
next
  case Post
  then show ?thesis using assms(5) postBuffer_state [OF assms(1,2), of E H io] by auto
next
  case (SetCompositionType display l v)
  have "store_of (snd (setLayerHook (setLayerCompositionType l v) display a)) = store_of a"
    using composition.hook_states [of l v display a] composition.hook_rest(1) [of l v display a]
    by (auto simp: store_of_def option.map_comp comp_def intro!: ext)
  with SetCompositionType assms(5) show ?thesis by (auto simp: hook_defs')
qed (use assms(5) store_of_accept setter_stores in \<open>auto simp: setBuffer_def hook_defs'\<close>)

text \<open>No call changes the display.\<close>

lemma hwc_step_display:
  assumes "adapter_inv a" "given_ok a" "hwc_step E H op (a, io) = Some (a', io')"
  shows "mDisplayId a' = mDisplayId a"
proof (cases op)
  case Validate
  from validated_result [OF assms(1,2), of E H io] assms(3) Validate
  obtain v where "a' = validated E H v io a" by auto
  then show ?thesis by (simp add: validated_def adopt_overlay_def Let_def split: prod.splits)
next
  case Post
  then show ?thesis using assms(3) postBuffer_state [OF assms(1,2), of E H io]
    by (auto simp: overlay_failed_def)
qed (use assms(3) setter_displays in
  \<open>auto simp: addLayer_def removeLayer_def acceptChanges_def setBuffer_def hook_defs' Let_def\<close>)

lemma hwc_run_store:
  assumes "adapter_inv a" "given_ok a" "hash_tables_ok E" "list_all op_ok ops"
    "mNextLayerId a + int (length ops) < 2 ^ 64"
  shows "\<exists>a' calls. hwc_run E H ops (a, io) = Some (a', io @ calls) \<and>
    store_of a' = fold (spec_step H (mDisplayId a)) ops (store_of a) \<and> mDisplayId a' = mDisplayId a"
  using assms
proof (induction ops arbitrary: a io)
  case (Cons op ops)
  obtain a1 calls where 1: "hwc_step E H op (a, io) = Some (a1, io @ calls)" "adapter_inv a1" "given_ok a1"
    "mNextLayerId a1 = mNextLayerId a + adds op"
    using hwc_step_inv [OF Cons.prems(1-3), of op H io] Cons.prems(4,5) by force
  have bound: "mNextLayerId a1 + int (length ops) < 2 ^ 64"
    using Cons.prems(5) 1(4) by (simp add: adds_def split: if_splits)
  have "store_of a1 = spec_step H (mDisplayId a) op (store_of a)"
    using hwc_step_store [OF Cons.prems(1-3) _ 1(1)] Cons.prems(5) by simp
  moreover have "mDisplayId a1 = mDisplayId a"
    by (rule hwc_step_display [OF Cons.prems(1,2) 1(1)])
  ultimately show ?case
    using Cons.IH [OF 1(2,3) Cons.prems(3) _ bound, of "io @ calls"] Cons.prems(4) 1(1) by auto
qed simp

text \<open>What the hooks return, and the display and layer they are called for.\<close>

fun hook_answer :: "hwc_op \<Rightarrow> adapter \<Rightarrow> hwc2_error option" where
  "hook_answer (SetCompositionType display l v) a = Some (fst (setLayerCompositionTypeHook display l v a))"
| "hook_answer (SetBlendMode display l v) a = Some (fst (setLayerBlendModeHook display l v a))"
| "hook_answer (SetDisplayFrame display l v) a = Some (fst (setLayerDisplayFrameHook display l v a))"
| "hook_answer (SetPlaneAlpha display l v) a = Some (fst (setLayerPlaneAlphaHook display l v a))"
| "hook_answer (SetSourceCrop display l v) a = Some (fst (setLayerSourceCropHook display l v a))"
| "hook_answer (SetTransform display l v) a = Some (fst (setLayerTransformHook display l v a))"
| "hook_answer (SetZOrder display l v) a = Some (fst (setLayerZOrderHook display l v a))"
| "hook_answer op a = None"

fun hook_target :: "hwc_op \<Rightarrow> (int \<times> int) option" where
  "hook_target (SetCompositionType display l v) = Some (display, l)"
| "hook_target (SetBlendMode display l v) = Some (display, l)"
| "hook_target (SetDisplayFrame display l v) = Some (display, l)"
| "hook_target (SetPlaneAlpha display l v) = Some (display, l)"
| "hook_target (SetSourceCrop display l v) = Some (display, l)"
| "hook_target (SetTransform display l v) = Some (display, l)"
| "hook_target (SetZOrder display l v) = Some (display, l)"
| "hook_target op = None"

lemma hook_answer_store:
  "hook_answer op a = map_option (\<lambda>(display, l).
     if display \<noteq> mDisplayId a then HWC2_ERROR_BAD_DISPLAY
     else if snd (store_of a) l = None then HWC2_ERROR_BAD_LAYER else HWC2_ERROR_NONE) (hook_target op)"
  by (cases op) (simp_all add: hook_defs' composition.hook_error blend.hook_error frame.hook_error
      alpha.hook_error crop.hook_error transform.hook_error order.hook_error store_of_def)

section \<open>Properties\<close>

text \<open>
  C8. The composer's calls refine a store of layers. Whatever sequence of calls is made, with
  validations, acceptances and posts in between, the adapter has the layers that were added and not
  removed, each with the buffer, blend mode, frame, crop, alpha, transform and order that were last
  set for it under the right display, and the initial ones until then. A call for a layer that is not
  there or for another display changes no layer, and its hook says which of the two it was.
\<close>

theorem layers_are_as_last_set:
  assumes "hash_tables_ok E" "list_all op_ok ops" "length ops < 2 ^ 64"
  shows "\<exists>a io. hwc_run E H ops (new_adapter d st i, []) = Some (a, io) \<and> mDisplayId a = d \<and>
    store_of a = fold (spec_step H d) ops (0, Map.empty) \<and>
    (\<forall>op. hook_answer op a = map_option (\<lambda>(display, l).
       if display \<noteq> d then HWC2_ERROR_BAD_DISPLAY
       else if snd (store_of a) l = None then HWC2_ERROR_BAD_LAYER else HWC2_ERROR_NONE) (hook_target op))"
proof -
  obtain a io where run: "hwc_run E H ops (new_adapter d st i, []) = Some (a, io)" "mDisplayId a = d"
    "store_of a = fold (spec_step H d) ops (store_of (new_adapter d st i))"
    using hwc_run_store [OF new_adapter_inv assms(1,2), of d st i H "[]"] assms(3)
    by (auto simp: new_adapter_def)
  moreover have "store_of (new_adapter d st i) = (0, Map.empty)"
    by (simp add: store_of_def new_adapter_def)
  ultimately show ?thesis using hook_answer_store [of _ a] by metis
qed

theorem layers_are_as_last_set_witness:
  "\<exists>a io. hwc_run (demo_env (True, 7)) demo_hwc
      (demo_ops @ [Validate, Post, SetZOrder 0 2 5, RemoveLayer 1, SetZOrder 0 1 9])
      (new_adapter 0 MODIFIED \<lparr>info_width = 1920, info_height = 1080\<rparr>, []) = Some (a, io) \<and>
    map_option (\<lambda>st. (ls_z st, ls_displayFrame st)) (snd (store_of a) 2) = Some (5, demo_frame) \<and>
    hook_answer (SetBlendMode 0 1 3) a = Some HWC2_ERROR_BAD_LAYER"
proof -
  let ?ops = "demo_ops @ [Validate, Post, SetZOrder 0 2 5, RemoveLayer 1, SetZOrder 0 1 9]"
  have "list_all op_ok ?ops" by code_simp
  moreover have "length ?ops < 2 ^ 64" by (simp add: demo_ops_def)
  ultimately obtain a io where run: "hwc_run (demo_env (True, 7)) demo_hwc ?ops
      (new_adapter 0 MODIFIED \<lparr>info_width = 1920, info_height = 1080\<rparr>, []) = Some (a, io)"
    "store_of a = fold (spec_step demo_hwc 0) ?ops (0, Map.empty)"
    "hook_answer (SetBlendMode 0 1 3) a = map_option (\<lambda>(display, l).
       if display \<noteq> 0 then HWC2_ERROR_BAD_DISPLAY
       else if snd (store_of a) l = None then HWC2_ERROR_BAD_LAYER else HWC2_ERROR_NONE)
       (hook_target (SetBlendMode 0 1 3))"
    using layers_are_as_last_set [OF demo_env_ok, of ?ops "(True, 7)" demo_hwc 0 MODIFIED
        "\<lparr>info_width = 1920, info_height = 1080\<rparr>"] by blast
  have "map_option (\<lambda>st. (ls_z st, ls_displayFrame st)) (snd (store_of a) 2) = Some (5, demo_frame)"
    "snd (store_of a) 1 = None"
    unfolding run(2) by (simp_all add: demo_ops_def put_field_def visible_def new_layer_state_def)
  with run(1,3) show ?thesis by simp
qed

end
