(* ===== verification/Compat.thy ===== *)
theory Compat
  imports Float32 "HOL-Library.Sublist"
begin

text \<open>
  Two small patches: the frame rates given to the video decoder of the old vendor library
  (\<open>img-msvdx-decoder-framerate-compat.patch\<close>, to \<open>ACodec.cpp\<close>), and the types of its private sensors
  (\<open>legacy-private-sensor-type-compat.patch\<close>, to \<open>convert.cpp\<close>). \<open>None\<close> of an option is undefined
  behaviour, a \<open>float\<close> outside \<open>uint32_t\<close>.
\<close>

section \<open>Frame rates\<close>

fun f_add :: "float32 \<Rightarrow> float32 \<Rightarrow> float32" where
  "f_add (Finite a) (Finite b) = f_result 0 (a + b)"
| "f_add (Finite a) (Infinity neg) = Infinity neg"
| "f_add (Infinity neg) (Finite b) = Infinity neg"
| "f_add (Infinity neg) (Infinity neg') = (if neg = neg' then Infinity neg else NaN)"
| "f_add NaN y = NaN"
| "f_add x NaN = NaN"

text \<open>
  \<open>0.5f\<close>, and \<open>1 / 65536.0f\<close>: the divisor is a power of two, so a quotient by it and a product with
  its inverse round the same number.
\<close>

definition half :: float32 where
  "half = Finite (2 ^ 148)"

definition inverse_65536 :: float32 where
  "inverse_65536 = Finite (2 ^ 133)"

definition isLegacyImgMsvdxDecoder :: "string \<Rightarrow> bool" where
  "isLegacyImgMsvdxDecoder componentName = prefix ''OMX.IMG.MSVDX.Decoder.'' componentName"

definition makeVideoPortFramerate :: "string \<Rightarrow> float32 \<Rightarrow> int option" where
  "makeVideoPortFramerate componentName frameRate =
     (if \<not> isLegacyImgMsvdxDecoder componentName then f_uint32 (f_mul frameRate (f_int 65536))
      else if f_less frameRate (f_int 0) \<or> frameRate = f_int 0 then Some 0
      else
        let frameRate = (if f_less (f_int 60) frameRate then f_int 60 else frameRate)
        in f_uint32 (f_add (f_mul frameRate (f_int 1000)) half))"

definition convertQ16FramerateToLegacyMillifps :: "int \<Rightarrow> int option" where
  "convertQ16FramerateToLegacyMillifps xFramerate =
     (let frameRate = f_mul (f_int xFramerate) inverse_65536;
          frameRate = (if f_less (f_int 60) frameRate then f_int 60 else frameRate)
      in f_uint32 (f_add (f_mul frameRate (f_int 1000)) half))"

text \<open>The rate in the format that \<open>setVideoPortFormatType\<close> sends; \<open>input\<close> is the test of the port.\<close>

definition port_format_framerate :: "string \<Rightarrow> bool \<Rightarrow> int \<Rightarrow> int option" where
  "port_format_framerate componentName input xFramerate =
     (if isLegacyImgMsvdxDecoder componentName \<and> input \<and> xFramerate > 60000
      then convertQ16FramerateToLegacyMillifps xFramerate
      else Some xFramerate)"

text \<open>A rate between 0 and 60, in thousandths: to the nearest one, up to \<open>2 ^ -8\<close>.\<close>

definition thousandths_of :: "int \<Rightarrow> int \<Rightarrow> bool" where
  "thousandths_of v m \<longleftrightarrow> \<bar>v * 2 ^ 149 - 1000 * m\<bar> \<le> 2 ^ 148 + 2 ^ 141"

lemma millifps:
  assumes "0 \<le> m" "m \<le> 60 * 2 ^ 149"
  shows "\<exists>v. f_uint32 (f_add (f_mul (Finite m) (f_int 1000)) half) = Some v \<and> 0 \<le> v \<and> v \<le> 60000 \<and>
    thousandths_of v m"
proof -
  have i: "f_int 1000 = Finite (1000 * 2 ^ 149)" by (rule f_int_exact) simp_all
  have r: "representable (60000 * 2 ^ 149)" by (rule representable_shift, rule representable_small) simp_all
  have h: "representable (120001 * 2 ^ 148)" by (rule representable_shift, rule representable_small) simp_all
  let ?p = "m * (1000 * 2 ^ 149)"
  have p: "0 \<le> ?p" "?p \<le> 60000 * 2 ^ 149 * 2 ^ 149" using assms by simp_all
  define q where "q = round_at 149 ?p"
  have q: "f_mul (Finite m) (f_int 1000) = Finite q" "0 \<le> q" "q \<le> 60000 * 2 ^ 149"
    using f_result_nonneg [OF p(1) r p(2)] by (simp_all add: i q_def)
  have s: "0 \<le> q + 2 ^ 148" "q + 2 ^ 148 \<le> 120001 * 2 ^ 148 * 2 ^ 0" using q(2,3) by simp_all
  define t where "t = round_at 0 (q + 2 ^ 148)"
  have t: "f_add (Finite q) half = Finite t" "0 \<le> t" "t \<le> 120001 * 2 ^ 148"
    using f_result_nonneg [OF s(1) h s(2)] by (simp_all add: half_def t_def)
  have d: "t div 2 ^ 149 \<le> 60000" "0 \<le> t div 2 ^ 149" using t(2,3) by simp_all
  have "sgn t * (\<bar>t\<bar> div 2 ^ 149) = t div 2 ^ 149" using t(2) by (cases "t = 0") simp_all
  then have v: "f_uint32 (Finite t) = Some (t div 2 ^ 149)" using d by (simp only: f_uint32.simps Let_def) simp
  have "\<bar>2 * (q * 2 ^ 149 - ?p)\<bar> \<le> 2 ^ 290"
    unfolding q_def by (rule round_at_error_at) (use p(2) in simp_all)
  then have eq: "\<bar>q - 1000 * m\<bar> \<le> 2 ^ 140" by simp
  have "\<bar>2 * (t - (q + 2 ^ 148))\<bar> \<le> 2 ^ 141"
    unfolding t_def by (rule round_at_error) (use q(3) in simp_all)
  then have et: "\<bar>t - (q + 2 ^ 148)\<bar> \<le> 2 ^ 140" by simp
  have "t div 2 ^ 149 * 2 ^ 149 \<le> t" "t < t div 2 ^ 149 * 2 ^ 149 + 2 ^ 149"
    using div_mult_mod_eq [of t "2 ^ 149"] pos_mod_bound [of "2 ^ 149" t] pos_mod_sign [of "2 ^ 149" t] by simp_all
  with eq et have "thousandths_of (t div 2 ^ 149) m" by (simp add: thousandths_of_def abs_le_iff)
  with q t(1) d v show ?thesis by simp
qed

lemma f_result_exact:
  assumes "representable y" "y < 2 ^ 277" "p = y * 2 ^ k"
  shows "f_result k p = Finite y"
proof -
  have "0 \<le> p" using assms(1,3) by (simp add: representable_def)
  from f_result_nonneg(1) [OF this assms(1) _ assms(2), of k] round_at_exact [OF assms(1), of k]
  show ?thesis by (simp add: assms(3))
qed

lemma f_less_60: "f_int 60 = Finite (60 * 2 ^ 149)"
  by (rule f_int_exact) simp_all

text \<open>The rate for the old decoder is always defined, and is the one asked for between 0 and 60.\<close>

fun clamped :: "float32 \<Rightarrow> int" where
  "clamped (Finite m) = max 0 (min m (60 * 2 ^ 149))"
| "clamped (Infinity neg) = (if neg then 0 else 60 * 2 ^ 149)"
| "clamped NaN = 0"

lemma clamped_range: "0 \<le> clamped r" "clamped r \<le> 60 * 2 ^ 149"
  by (cases r; simp)+

lemma legacy_rate:
  assumes "isLegacyImgMsvdxDecoder name" "frameRate \<noteq> NaN"
  shows "\<exists>v. makeVideoPortFramerate name frameRate = Some v \<and> 0 \<le> v \<and> v \<le> 60000 \<and>
    thousandths_of v (clamped frameRate)"
proof (cases "f_less frameRate (f_int 0) \<or> frameRate = f_int 0")
  case True
  then have "clamped frameRate = 0" by (cases frameRate) auto
  with True assms(1) show ?thesis by (auto simp: makeVideoPortFramerate_def thousandths_of_def)
next
  case False
  have "(if f_less (f_int 60) frameRate then f_int 60 else frameRate) = Finite (clamped frameRate)"
    using False assms(2) by (cases frameRate) (auto simp: f_less_60)
  with assms(1) False millifps [OF clamped_range] show ?thesis
    by (simp add: makeVideoPortFramerate_def Let_def del: f_mul.simps f_add.simps)
qed

lemma converted_rate:
  assumes "0 \<le> x" "x < 4294967296"
  shows "\<exists>v. convertQ16FramerateToLegacyMillifps x = Some v \<and> 0 \<le> v \<and> v \<le> 60000 \<and>
    thousandths_of v (min (x * 2 ^ 133) (60 * 2 ^ 149))"
proof -
  have "\<exists>n. f_mul (f_int x) inverse_65536 = Finite n \<and> 0 \<le> n \<and>
      min n (60 * 2 ^ 149) = min (x * 2 ^ 133) (60 * 2 ^ 149)"
  proof (cases "x \<le> 3932160")
    case True
    have m: "f_int x = Finite (x * 2 ^ 149)" by (rule f_int_exact) (use assms True in simp_all)
    have r: "representable (x * 2 ^ 133)"
      by (rule representable_shift, rule representable_small) (use assms True in simp_all)
    have "f_mul (f_int x) inverse_65536 = Finite (x * 2 ^ 133)"
      unfolding m inverse_65536_def f_mul.simps by (rule f_result_exact [OF r]) (use True in simp_all)
    with assms(1) show ?thesis by simp
  next
    case False
    have r: "representable (4294967296 * 2 ^ 149)"
      by (rule representable_shift) (use representable_shift [OF representable_small, of 1 32] in simp)
    have "0 \<le> x * 2 ^ 149" "x * 2 ^ 149 \<le> 4294967296 * 2 ^ 149 * 2 ^ 0" using assms by simp_all
    from f_result_nonneg [OF this(1) r this(2)] obtain m where
      m: "f_int x = Finite m" "m = round_at 0 (x * 2 ^ 149)" "m \<le> 4294967296 * 2 ^ 149" by (auto simp: f_int_def)
    have "representable (3932160 * 2 ^ 149)" by (rule representable_shift, rule representable_small) simp_all
    from round_at_ge [OF this, of 0 "x * 2 ^ 149"] have ge: "3932160 * 2 ^ 149 \<le> m" using False m(2) by simp
    have r': "representable (65536 * 2 ^ 149)"
      by (rule representable_shift, rule representable_small) simp_all
    have "0 \<le> m * 2 ^ 133" "m * 2 ^ 133 \<le> 65536 * 2 ^ 149 * 2 ^ 149" using m(3) ge by simp_all
    from f_result_nonneg [OF this(1) r' this(2)] have
      n: "f_mul (Finite m) inverse_65536 = Finite (round_at 149 (m * 2 ^ 133))" by (simp add: inverse_65536_def)
    have "representable (60 * 2 ^ 149)" by (rule representable_shift, rule representable_small) simp_all
    from round_at_ge [OF this, of 149 "m * 2 ^ 133"] have "60 * 2 ^ 149 \<le> round_at 149 (m * 2 ^ 133)" using ge by simp
    then show ?thesis using m(1) n False by simp
  qed
  then obtain n where n: "f_mul (f_int x) inverse_65536 = Finite n" "0 \<le> n"
    "min n (60 * 2 ^ 149) = min (x * 2 ^ 133) (60 * 2 ^ 149)" by blast
  have "(if f_less (f_int 60) (Finite n) then f_int 60 else Finite n) = Finite (min n (60 * 2 ^ 149))"
    by (simp add: f_less_60 min_def)
  then show ?thesis
    using millifps [of "min n (60 * 2 ^ 149)"] n
    by (simp add: convertQ16FramerateToLegacyMillifps_def Let_def del: f_mul.simps f_add.simps)
qed

text \<open>A rate is converted once: what was converted is left alone.\<close>

lemma converted_once:
  assumes "0 \<le> x" "x < 4294967296" "port_format_framerate name input x = Some y"
  shows "port_format_framerate name input y = Some y"
  using assms(3) converted_rate [OF assms(1,2)]
  by (auto simp: port_format_framerate_def split: if_splits)

text \<open>For whole rates up to the cap both paths send the same number, thousandths of a frame.\<close>

lemma whole_millifps:
  assumes "0 \<le> n" "n \<le> 60"
  shows "f_uint32 (f_add (f_mul (Finite (n * 2 ^ 149)) (f_int 1000)) half) = Some (1000 * n)"
proof -
  have i: "f_int 1000 = Finite (1000 * 2 ^ 149)" by (rule f_int_exact) simp_all
  have r: "representable (1000 * n * 2 ^ 149)"
    by (rule representable_shift, rule representable_small) (use assms in simp_all)
  have h: "representable ((2000 * n + 1) * 2 ^ 148)"
    by (rule representable_shift, rule representable_small) (use assms in simp_all)
  have "f_mul (Finite (n * 2 ^ 149)) (f_int 1000) = Finite (1000 * n * 2 ^ 149)"
    unfolding i f_mul.simps by (rule f_result_exact [OF r]) (use assms in simp_all)
  moreover have "f_add (Finite (1000 * n * 2 ^ 149)) half = Finite ((2000 * n + 1) * 2 ^ 148)"
    unfolding half_def f_add.simps by (rule f_result_exact [OF h]) (use assms in simp_all)
  moreover have "f_uint32 (Finite ((2000 * n + 1) * 2 ^ 148)) = Some (1000 * n)"
  proof -
    have "(2000 * n + 1) * 2 ^ 148 = 1000 * n * 2 ^ 149 + (2 ^ 148 :: int)" by (simp add: algebra_simps)
    then have "(2000 * n + 1) * 2 ^ 148 div 2 ^ 149 = 1000 * n"
      by (simp only: div_mult_self3) simp
    moreover have "sgn ((2000 * n + 1) * 2 ^ 148) = 1" "0 \<le> (2000 * n + 1) * 2 ^ 148"
      using assms(1) by (simp_all add: sgn_mult)
    ultimately show ?thesis using assms by (simp only: f_uint32.simps Let_def abs_of_nonneg) simp
  qed
  ultimately show ?thesis by simp
qed

lemma whole_rates:
  assumes "isLegacyImgMsvdxDecoder name" "0 \<le> n" "n \<le> 60"
  shows "makeVideoPortFramerate name (f_int n) = Some (1000 * n)"
    "convertQ16FramerateToLegacyMillifps (65536 * n) = Some (1000 * n)"
proof -
  have n: "f_int n = Finite (n * 2 ^ 149)" by (rule f_int_exact) (use assms in simp_all)
  have x: "f_int (65536 * n) = Finite (65536 * n * 2 ^ 149)" by (rule f_int_exact) (use assms in simp_all)
  have r: "representable (n * 2 ^ 149)"
    by (rule representable_shift, rule representable_small) (use assms in simp_all)
  have q: "f_mul (f_int (65536 * n)) inverse_65536 = Finite (n * 2 ^ 149)"
    unfolding x inverse_65536_def f_mul.simps by (rule f_result_exact [OF r]) (use assms in simp_all)
  have c: "\<not> f_less (f_int 60) (Finite (n * 2 ^ 149))" using assms(3) by (simp add: f_less_60)
  note m = whole_millifps [OF assms(2,3)]
  show "convertQ16FramerateToLegacyMillifps (65536 * n) = Some (1000 * n)"
    using m c by (simp add: convertQ16FramerateToLegacyMillifps_def q del: f_mul.simps f_add.simps)
  show "makeVideoPortFramerate name (f_int n) = Some (1000 * n)"
    using m c assms by (auto simp: makeVideoPortFramerate_def n Let_def simp del: f_mul.simps f_add.simps)
qed

text \<open>A rate in Q16 below the bound of the test is taken for thousandths: 0.9 frames become 58.982.\<close>

lemma slow_rate_not_converted:
  "port_format_framerate ''OMX.IMG.MSVDX.Decoder.AVC'' True 58982 = Some 58982"
  "convertQ16FramerateToLegacyMillifps 58982 = Some 900"
  by code_simp+

section \<open>Sensor types\<close>

text \<open>The constants of the sensor header.\<close>

record type_h =
  TYPE_ACCELEROMETER_UNCALIBRATED :: int
  TYPE_DEVICE_PRIVATE_BASE :: int

definition isLegacyPrivateSensorType :: "type_h \<Rightarrow> int \<Rightarrow> bool" where
  "isLegacyPrivateSensorType T type \<longleftrightarrow>
     type > TYPE_ACCELEROMETER_UNCALIBRATED T \<and> type < TYPE_DEVICE_PRIVATE_BASE T"

definition convertLegacySensorType :: "type_h \<Rightarrow> int \<Rightarrow> int" where
  "convertLegacySensorType T type =
     (if isLegacyPrivateSensorType T type then TYPE_DEVICE_PRIVATE_BASE T + type else type)"

text \<open>A converted type is a standard or a private one, and no legacy types are confused.\<close>

lemma converted_type_range:
  assumes "0 \<le> TYPE_ACCELEROMETER_UNCALIBRATED T"
  shows "\<not> isLegacyPrivateSensorType T (convertLegacySensorType T type)"
    "convertLegacySensorType T (convertLegacySensorType T type) = convertLegacySensorType T type"
  using assms by (auto simp: convertLegacySensorType_def isLegacyPrivateSensorType_def)

lemma converted_type_inj:
  "inj_on (convertLegacySensorType T) {type. type < TYPE_DEVICE_PRIVATE_BASE T}"
  if "0 \<le> TYPE_ACCELEROMETER_UNCALIBRATED T"
  using that by (auto simp: inj_on_def convertLegacySensorType_def isLegacyPrivateSensorType_def split: if_splits)

text \<open>A legacy type can meet a private type the device uses itself.\<close>

lemma converted_type_clash:
  "convertLegacySensorType \<lparr>TYPE_ACCELEROMETER_UNCALIBRATED = 35, TYPE_DEVICE_PRIVATE_BASE = 0x10000\<rparr> 0x100 =
   convertLegacySensorType \<lparr>TYPE_ACCELEROMETER_UNCALIBRATED = 35, TYPE_DEVICE_PRIVATE_BASE = 0x10000\<rparr> 0x10100"
  by code_simp

section \<open>Properties\<close>

text \<open>
  C24. Frame rates for the old decoder. Whatever rate but a NaN is asked for, the number sent is at
  most 60000: it is the rate, capped between 0 and 60, in thousandths of a frame, to the nearest one
  but for \<open>2 ^ -8\<close>, the error of the floating-point operations. A number on the input port is
  taken for a rate in Q16 only if it is above 60000: then the same holds for what replaces it, which
  is not converted again. A number up to 60000 is sent as it is, although it may be a
  rate in Q16 below 0.916 frames in a second: 0.9 frames are sent as 58.982. For the whole rates up to
  60 both ways of setting the rate send exactly the same number.
\<close>

theorem legacy_frame_rates:
  assumes "isLegacyImgMsvdxDecoder name" "frameRate \<noteq> NaN" "0 \<le> x" "x < 4294967296"
  shows "(\<exists>v. makeVideoPortFramerate name frameRate = Some v \<and> 0 \<le> v \<and> v \<le> 60000 \<and>
      thousandths_of v (clamped frameRate)) \<and>
    (60000 < x \<longrightarrow> (\<exists>y. port_format_framerate name True x = Some y \<and> 0 \<le> y \<and> y \<le> 60000 \<and>
       \<bar>65536 * y - 1000 * min x (60 * 65536)\<bar> \<le> 32768 + 256 \<and>
       port_format_framerate name True y = Some y)) \<and>
    (x \<le> 60000 \<longrightarrow> port_format_framerate name True x = Some x) \<and>
    (port_format_framerate name True 58982 = Some 58982 \<and> convertQ16FramerateToLegacyMillifps 58982 = Some 900) \<and>
    (\<forall>n \<in> {0..60}. makeVideoPortFramerate name (f_int n) = Some (1000 * n) \<and>
       port_format_framerate name True (65536 * n) = Some (1000 * n))"
proof (intro conjI ballI impI)
  show "\<exists>v. makeVideoPortFramerate name frameRate = Some v \<and> 0 \<le> v \<and> v \<le> 60000 \<and>
      thousandths_of v (clamped frameRate)"
    by (rule legacy_rate [OF assms(1,2)])
  assume x: "60000 < x"
  obtain y where y: "convertQ16FramerateToLegacyMillifps x = Some y" "0 \<le> y" "y \<le> 60000"
    "thousandths_of y (min (x * 2 ^ 133) (60 * 2 ^ 149))"
    using converted_rate [OF assms(3,4)] by blast
  have p: "port_format_framerate name True x = Some y" using assms(1) x y(1) by (simp add: port_format_framerate_def)
  have "min (x * 2 ^ 133) (60 * 2 ^ 149) = min x (60 * 65536) * 2 ^ 133" by (simp add: min_def)
  with y(4) have "\<bar>65536 * y - 1000 * min x (60 * 65536)\<bar> \<le> 32768 + 256"
    by (simp add: thousandths_of_def abs_le_iff)
  with p y converted_once [OF assms(3,4) p]
  show "\<exists>y. port_format_framerate name True x = Some y \<and> 0 \<le> y \<and> y \<le> 60000 \<and>
       \<bar>65536 * y - 1000 * min x (60 * 65536)\<bar> \<le> 32768 + 256 \<and> port_format_framerate name True y = Some y"
    by blast
qed (use assms(1) whole_rates [OF assms(1)] slow_rate_not_converted in \<open>auto simp: port_format_framerate_def\<close>)

theorem legacy_frame_rates_witness:
  "makeVideoPortFramerate ''OMX.IMG.MSVDX.Decoder.AVC'' (f_int 24) = Some 24000 \<and>
   port_format_framerate ''OMX.IMG.MSVDX.Decoder.AVC'' True (65536 * 24) = Some 24000"
proof -
  have "isLegacyImgMsvdxDecoder ''OMX.IMG.MSVDX.Decoder.AVC''" by (simp add: isLegacyImgMsvdxDecoder_def)
  moreover have "f_int 24 \<noteq> NaN" by (subst f_int_exact) simp_all
  ultimately have "\<forall>n \<in> {0..60}. makeVideoPortFramerate ''OMX.IMG.MSVDX.Decoder.AVC'' (f_int n) = Some (1000 * n) \<and>
      port_format_framerate ''OMX.IMG.MSVDX.Decoder.AVC'' True (65536 * n) = Some (1000 * n)"
    using legacy_frame_rates [of "''OMX.IMG.MSVDX.Decoder.AVC''" "f_int 24" 0] by simp
  from bspec [OF this, of 24] show ?thesis by simp
qed

end
