(* ===== verification/Spec2Isabelle.thy ===== *)
theory Spec2Isabelle
  imports Threads MacAddr Bluetooth ManagerRuns AudioVolume ScreenPower Shims LayerStore Compat
begin

text \<open>
  A verification library for the C++ code of the device tree of the Huawei MediaPad M2
  (mozart), under \<open>src/device/huawei/mozart/\<close>, and of the patch that brings its overlay engine
  to the composer, under \<open>src/patches/\<close>.

  \<^bold>\<open>The parts.\<close>
  \<^item> The multihal (\<open>sensors/multihal.cpp\<close>, \<open>sensors/multihal.h\<close>, \<open>sensors/SensorEventQueue.cpp\<close>) is a
    sensor HAL that loads the sub-HALs a configuration file names and presents their sensors as
    one list, under global handles. One writer thread per sub-HAL polls its device into a
    circular queue; the client's \<open>poll\<close> collects from all queues. The other calls are
    passed on to the device that owns the sensor.
  \<^item> The address program (\<open>macaddr/mac_addr_normalization.cpp\<close>) makes sure at boot that two files
    hold a Bluetooth and a Wi-Fi address.
  \<^item> The property loader (\<open>libinit/init_huawei_hi3635.cpp\<close>) sets the properties that name the
    model and the build. The Bluetooth stack derives the name of the adapter from the model
    (\<open>bluetooth/bdroid_buildcfg.h\<close>).
  \<^item> The sensor manager (\<open>libshims/gui/SensorManager.cpp\<close>) is a client library of the sensor
    service for old camera blobs. It reaches the service through the proxy and the stub in
    \<open>libshims/gui/ISensorServer.cpp\<close>.
  \<^item> The overlay path of the composer (\<open>hwc2onfbadapter-hisi-dss-overlay-fallback.patch\<close> in
    \<open>src/patches/hardware/interfaces/\<close>) keeps the state of every layer, gives one video layer to the
    overlay engine when a frame is validated, and shows the frame through the engine or, after
    any error, through the frame buffer.
  \<^item> Three small patches under \<open>src/patches/\<close>: the frame rates for the old video decoder, the types
    of legacy private sensors, and the power of the display.
  \<^item> The interface of the audio HAL, \<open>include/hardware/audio.h\<close>: tables of functions, and the inline
    functions that call through them. A patch of the audio service guards such a call, that of
    \<open>set_master_volume\<close>.
  \<^item> Small parts: the command in \<open>dlopener/\<close>, the stub in \<open>libshims/libshim_log.cpp\<close>, the white list
    of \<open>include/fd_utils-inl-extra.h\<close>.

  \<^bold>\<open>The theories.\<close> Prelude holds what all share: \<open>EINVAL\<close>, the conversions of C integers, and
  generic lemmas. EventQueue models \<open>SensorEventQueue\<close>: the record \<open>event_queue\<close> has the fields of
  the class, and each method is a function of that name. Handles models \<open>FullHandle\<close>, the two maps
  and the four functions on them. Hal has the global variables (\<open>hal_globals\<close>), the struct
  \<open>sensors_poll_context_t\<close> (\<open>poll_context\<close>), the constants of the HAL's headers as a parameter
  (\<open>hal_h\<close>), and the surroundings as another (\<open>hal_env\<close>: files, linker, sub-HALs, the memory an
  allocator returns). Multihal models start-up, from \<open>get_so_paths\<close> to \<open>open_sensors\<close> and
  \<open>module__get_sensors_list\<close>. Dispatch models the methods of the context but \<open>poll\<close>, and the
  \<open>device__\<close> functions. Poll models \<open>copy_event_remap_handle\<close> and the inner loop of \<open>poll\<close>. Threads
  puts \<open>writerTask\<close>, \<open>waitForSpace\<close> and the outer loop of \<open>poll\<close> together as a step relation. Posix is
  a file system with the calls the address program makes; MacText models \<open>ParseMac\<close> and the
  printing of an address, MacAddr the rest of the program, up to \<open>main\<close> (\<open>mac_main\<close>). LibInit models
  the property loader, Bluetooth the adapter's name. GuiHeaders has the sensor of the client library
  (\<open>Sensor.h\<close>, \<open>BitTube.h\<close>), SensorManager the sensor manager, SensorServer the proxy
  (\<open>Bp_getSensorList\<close> and its like) and the stub (\<open>onTransact\<close>), ManagerRuns the calls of a client
  and the deaths of the service in any order. AudioHal has the structs of the audio HAL as records
  whose fields are functions, AudioVolume the two functions of the service that call one of them,
  and Shims the small parts. Float32 has the
  \<open>float\<close> of C++ with the operations the overlay path uses. HwcLayer models the free functions of
  the patch, up to \<open>fillDssLayer\<close>; HwcAdapter the class \<open>HWC2OnFbAdapter\<close>: the records \<open>layer_state\<close> and
  \<open>adapter\<close> have its fields, \<open>hwc_op\<close> is a call of the composer, \<open>hwc_step\<close> what it does, and the
  calls made to the system are a log; HwcOverlay and HwcComposer prove its properties, and
  LayerStore specifies the layers as a store on which the calls act. Compat has two of the small
  patches, ScreenPower the third.

  \<^bold>\<open>How code becomes definitions.\<close> A function of the code is a function of the same name, from the
  state it reads to its result and the state it leaves. A variable of type \<open>int\<close> is an \<open>int\<close>;
  where the code narrows (\<open>update_batch_data\<close>) the conversion is written out, where it
  adds it is shown not to overflow (C2), the handle counter apart, which is counted up once
  per sensor. Bytes of an address are words of 8 bits. A failed checked access, a null
  pointer, an index out of bounds and a mutex that is taken twice are values of
  \<open>hal_error\<close>, or \<open>None\<close> in the overlay and audio paths; \<open>LOG_ALWAYS_FATAL_IF\<close> is \<open>Fatal\<close>, as are a null
  pointer and an invalid access to memory in the sensor manager, whose arrays, and the storage of
  whose vector of sensors, are allocated and freed by their addresses. A \<open>float\<close> is a binary32
  number, exact to its rounding; a pointer to a function of the audio HAL is \<open>None\<close> if it is null; a
  hash table is the list of its entries in the order of its
  iteration, which an insertion may change. A call to the outside takes the log of the
  calls before it, so that its answer may depend on them. A loop that may not end
  (the retries of interrupted calls, the scan of \<open>poll\<close>) has no result then: it is a
  \<open>partial_function\<close> or \<open>while_option\<close>, and C15 and C27 prove that it ends. No definition uses fuel.

  \<^bold>\<open>What the lemmas show.\<close> EventQueue proves the queue a refinement of a bounded list, through
  the locale \<open>fifo\<close>, whose laws the implementation discharges. Handles proves the maps inverse to
  each other through the locale \<open>handle_registry\<close>, which start-up then uses for a whole list of
  sensors. Multihal proves that the two nested loops of \<open>lazy_init_sensors_list\<close> are one pass over
  \<open>global_located\<close>, the sensors of all modules with the index of their module, and computes the
  state after \<open>startup\<close>, on which all later theories rest. Dispatch gives each call's effect by the
  device and the local handle its handle leads to (\<open>target\<close>), which is the right device only while
  all modules open (C10, C11). Poll proves an invariant, a fairness invariant and a measure of the
  scan, and which sensor an event is reported under (\<open>reported\<close>), with the same condition (C17).
  Threads has an invariant of all reachable states, an account of what was written, taken and
  returned along a run, and the outcome of each caller's scan. Posix states what
  a system call leaves alone once, in the locale \<open>file_call\<close>, interpreted for each call. MacAddr
  proves from it what the file of an address can be at every moment. HwcLayer proves that
  \<open>fillDssLayer\<close> reads no word outside a handle, converts no \<open>float\<close> that does not fit, and describes
  a part of the image up to the rounding; only the subtraction of a frame's borders may overflow. HwcAdapter and HwcOverlay prove an invariant of the
  adapter for each operation, the first loop of \<open>validateLayers\<close> a maximum, and the exact outcome of
  posting a frame, from the condition under which the engine is tried (\<open>overlay_ready\<close>). SensorServer proves a round trip for each call from the order
  in which a parcel is read, and what the proxies answer when the server is dead. ManagerRuns
  states what the operations of a manager share as the locale \<open>manager_operation\<close>, interpreted for
  each, and follows from it a run of them under a service whose answers change, the memory
  included: which pointers a client may still follow after later calls (C3); \<open>manager_over_proxies\<close> joins it with the proxies. LayerStore does the same for the setters of a
  layer, in the locale \<open>layer_setter\<close> and its extension \<open>visible_setter\<close>. AudioHal proves the three
  sizes of a frame one function of the way channels are counted, without wrap-around;
  AudioVolume and ScreenPower state every outcome of the code they model.

  \<^bold>\<open>What is assumed of the outside\<close>, as hypotheses or in the rules of the step relation: a module
  reports the same list of sensors twice (the code allocates by the first answer and fills
  by the second); a sub-HAL's \<open>poll\<close> stores into the region it was given and returns at most
  its length; \<open>getService\<close> sets its result exactly if it reports no error; \<open>property_get\<close> gives the
  value of a property that fits its buffer (\<open>reads_area\<close>); a parcel is read in the
  order it was written (\<open>parcel_laws\<close>); a hash table keeps its entries when it is reordered
  (\<open>hash_tables_ok\<close>); a sample has at most 8 bytes and a mask at most 32 channels
  (\<open>formats_documented\<close>); the buffers and frames given to the composer are well formed (\<open>op_ok\<close>, and
  \<open>given_ok\<close> of those the adapter holds already; \<open>adapter_inv\<close> is the invariant of its reachable states);
  a vector that is assigned to or cleared frees its storage. The queues have
  the capacity of the code, 36 records, and the theorems on queues hold for any positive
  capacity; the 32 bytes \<open>HasValidMac\<close> reads and the 60 attempts of the sensor manager are the
  code's.

  \<^bold>\<open>What is not modelled.\<close> Log messages, the ten seconds of sleep in \<open>lazy_init_modules\<close>, the
  destructors other than that of the sensor manager, and the pair of empty variables for older blobs have no effect on the modelled state.
  Two callers of \<open>poll\<close> at once are not modelled: the HAL has one client. Of \<open>HWC2OnFbAdapter\<close> only
  what the patch shows is modelled: the display hooks test and set a state in code that
  is not in the repository, so \<open>Validate\<close>, \<open>Accept\<close> and \<open>Post\<close> stand for the methods they call, and
  \<open>SetBuffer\<close> for the method that \<open>setLayerBufferHook\<close> calls after tests of the display and the layer of
  which the patch shows a part. The text it dumps is left out. Of the headers of the gui library the methods of \<open>Sensor\<close> and the classes
  \<open>SensorEventQueue\<close> and \<open>ISensorEventConnection\<close> are declarations whose code is in other libraries;
  the names of audio parameters are constants for other projects. The other patches change a few lines each of other projects, in C, C++, Java and build scripts.
\<close>

end
